(* ===== verification/Prelude.thy ===== *)
theory Prelude
  imports Main "HOL-Library.Word" "HOL-Library.List_Lexorder" "HOL-Library.Char_ord"
begin

text \<open>
  Shared vocabulary of the development: the machine types of the Go program, run-time panics as
  values, the panic monad in which fallible code is written, Go errors, and the decimal
  formatting of integers (\<^verbatim>\<open>strconv.Itoa\<close>, the verb \<^verbatim>\<open>%d\<close>) with its inverse.
\<close>

named_theorems go_simps \<open>evaluation rules of the panic monad and of the Go library functions\<close>

section \<open>Types\<close>

type_synonym uint64 = "64 word"
type_synonym go_int = "64 word"
type_synonym bytes = "8 word list"

text \<open>
  A panic ends the goroutine; without a \<^verbatim>\<open>recover\<close>, and the program has none, it ends the
  process. \<open>Panicked\<close> carries the string of an explicit call of \<^verbatim>\<open>panic\<close>.
\<close>

datatype go_panic =
    TypeAssertion
  | IndexOutOfRange
  | NilDereference
  | DivideByZero
  | UncomparableTypes
  | Panicked string

type_synonym 'a go = "go_panic + 'a"

text \<open>The values of Go's \<^verbatim>\<open>error\<close> interface that the program makes or passes on.\<close>

datatype grpc_code = Internal | PermissionDenied | Unimplemented | OtherCode nat

datatype error = StatusError grpc_code string | PlainError string | WrappedError string error

section \<open>The panic monad\<close>

definition gbind :: "'a go \<Rightarrow> ('a \<Rightarrow> 'b go) \<Rightarrow> 'b go" where
  "gbind m f = (case m of Inl p \<Rightarrow> Inl p | Inr x \<Rightarrow> f x)"

lemma gbind_simps [simp, go_simps]:
  "gbind (Inl p) f = Inl p"
  "gbind (Inr x) f = f x"
  by (simp_all add: gbind_def)

lemma gbind_assoc: "gbind (gbind m f) g = gbind m (\<lambda>x. gbind (f x) g)"
  by (cases m) simp_all

lemma gbind_eq_Inr: "gbind m f = Inr y \<longleftrightarrow> (\<exists>x. m = Inr x \<and> f x = Inr y)"
  by (cases m) simp_all

lemma gbind_eq_Inl: "gbind m f = Inl p \<longleftrightarrow> m = Inl p \<or> (\<exists>x. m = Inr x \<and> f x = Inl p)"
  by (cases m) simp_all

lemma gbind_cong [fundef_cong]:
  "m = m' \<Longrightarrow> (\<And>x. m' = Inr x \<Longrightarrow> f x = f' x) \<Longrightarrow> gbind m f = gbind m' f'"
  by (cases m') auto

text \<open>Evaluation of a list of computations from left to right; the first panic wins.\<close>

fun gsequence :: "'a go list \<Rightarrow> 'a list go" where
  "gsequence [] = Inr []"
| "gsequence (m # ms) = gbind m (\<lambda>x. gbind (gsequence ms) (\<lambda>xs. Inr (x # xs)))"

lemma gsequence_Inr [simp]: "gsequence (map Inr xs) = Inr xs"
  by (induction xs) simp_all

lemma gsequence_map_Inr:
  "(\<And>x. x \<in> set xs \<Longrightarrow> f x = Inr (g x)) \<Longrightarrow> gsequence (map f xs) = Inr (map g xs)"
  by (induction xs) simp_all

lemma gsequence_length: "gsequence ms = Inr xs \<Longrightarrow> length xs = length ms"
  by (induction ms arbitrary: xs) (auto simp: gbind_eq_Inr)

lemma gsequence_Inl: "gsequence ms = Inl p \<Longrightarrow> Inl p \<in> set ms"
  by (induction ms) (auto simp: gbind_eq_Inl)

lemma gsequence_set: "gsequence ms = Inr vs \<Longrightarrow> v \<in> set vs \<Longrightarrow> Inr v \<in> set ms"
  by (induction ms arbitrary: vs) (auto simp: gbind_eq_Inr)

text \<open>A \<^verbatim>\<open>for ... range\<close> loop that threads an accumulator through a body that may panic.\<close>

fun gfold :: "('a \<Rightarrow> 'b \<Rightarrow> 'b go) \<Rightarrow> 'a list \<Rightarrow> 'b \<Rightarrow> 'b go" where
  "gfold f [] acc = Inr acc"
| "gfold f (x # xs) acc = gbind (f x acc) (gfold f xs)"

lemma gfold_append: "gfold f (xs @ ys) acc = gbind (gfold f xs acc) (gfold f ys)"
  by (induction xs arbitrary: acc) (simp_all add: gbind_def split: sum.splits)

lemma gfold_total:
  "(\<And>x acc. x \<in> set xs \<Longrightarrow> f x acc = Inr (g x acc)) \<Longrightarrow> gfold f xs acc = Inr (fold g xs acc)"
  by (induction xs arbitrary: acc) simp_all

section \<open>Strings\<close>

text \<open>\<^verbatim>\<open>strings.Join\<close>\<close>

fun join :: "string \<Rightarrow> string list \<Rightarrow> string" where
  "join sep [] = []"
| "join sep [x] = x"
| "join sep (x # y # zs) = x @ sep @ join sep (y # zs)"

text \<open>
  \<^verbatim>\<open>strings.Split\<close> for a separator of one byte: always at least one part, and the parts of
  the empty string are the list with the empty string alone.
\<close>

fun split_on :: "char \<Rightarrow> string \<Rightarrow> string list" where
  "split_on c [] = [[]]"
| "split_on c (x # xs) =
     (if x = c then [] # split_on c xs
      else (case split_on c xs of [] \<Rightarrow> [[x]] | p # ps \<Rightarrow> (x # p) # ps))"

lemma split_on_nonempty [simp]: "split_on c s \<noteq> []"
  by (cases s) (auto split: list.splits)

lemma join_split_on: "join [c] (split_on c s) = s"
proof (induction s)
  case Nil
  then show ?case by simp
next
  case (Cons x xs)
  obtain p ps where eq: "split_on c xs = p # ps"
    by (cases "split_on c xs") auto
  with Cons.IH show ?case
    by (cases ps) auto
qed

lemma split_on_no_sep: "c \<notin> set p \<Longrightarrow> split_on c p = [p]"
  by (induction p) auto

lemma split_on_append_sep: "c \<notin> set p \<Longrightarrow> split_on c (p @ c # s) = p # split_on c s"
  by (induction p) auto

lemma split_on_join:
  "ps \<noteq> [] \<Longrightarrow> \<forall>p \<in> set ps. c \<notin> set p \<Longrightarrow> split_on c (join [c] ps) = ps"
  by (induction "[c]" ps rule: join.induct) (auto simp: split_on_no_sep split_on_append_sep)

section \<open>Decimal numbers\<close>

definition digit_char :: "nat \<Rightarrow> char" where
  "digit_char d = char_of (48 + d)"

fun nat_digits :: "nat \<Rightarrow> string" where
  "nat_digits n =
     (if n < 10 then [digit_char n] else nat_digits (n div 10) @ [digit_char (n mod 10)])"

declare nat_digits.simps [simp del]

text \<open>\<^verbatim>\<open>strconv.Itoa\<close>, and the verb \<^verbatim>\<open>%d\<close> of \<^verbatim>\<open>fmt.Sprintf\<close> on a signed integer.\<close>

definition itoa :: "int \<Rightarrow> string" where
  "itoa i = (if i < 0 then ''-'' @ nat_digits (nat (- i)) else nat_digits (nat i))"

definition digit_val :: "char \<Rightarrow> nat" where
  "digit_val c = of_char c - 48"

definition is_digit :: "char \<Rightarrow> bool" where
  "is_digit c \<longleftrightarrow> 48 \<le> (of_char c :: nat) \<and> (of_char c :: nat) \<le> 57"

definition digits_nat :: "string \<Rightarrow> nat" where
  "digits_nat ds = foldl (\<lambda>n c. 10 * n + digit_val c) 0 ds"

lemma digit_val_char: "d < 10 \<Longrightarrow> digit_val (digit_char d) = d"
  by (simp add: digit_val_def digit_char_def of_char_of)

lemma is_digit_char: "d < 10 \<Longrightarrow> is_digit (digit_char d)"
  by (simp add: is_digit_def digit_char_def of_char_of)

lemma nat_digits_nonempty [simp]: "nat_digits n \<noteq> []"
  by (subst nat_digits.simps) simp

lemma nat_digits_are_digits: "\<forall>c \<in> set (nat_digits n). is_digit c"
proof (induction n rule: nat_digits.induct)
  case (1 n)
  then show ?case
    by (cases "n < 10") (auto simp: nat_digits.simps [of n] is_digit_char)
qed

lemma digits_nat_nat_digits: "digits_nat (nat_digits n) = n"
proof (induction n rule: nat_digits.induct)
  case (1 n)
  then show ?case
    by (cases "n < 10") (auto simp: nat_digits.simps [of n] digits_nat_def digit_val_char)
qed

lemma nat_digits_inject [simp]: "nat_digits m = nat_digits n \<longleftrightarrow> m = n"
  by (metis digits_nat_nat_digits)

lemma nat_digits_no_minus: "nat_digits n \<noteq> CHR ''-'' # s"
  using nat_digits_are_digits [of n] by (auto simp: is_digit_def)

lemma itoa_inject [simp]: "itoa i = itoa j \<longleftrightarrow> i = j"
  using nat_digits_no_minus [of "nat i"] nat_digits_no_minus [of "nat j"]
  by (auto simp: itoa_def) (metis nat_digits_no_minus)+

text \<open>The text of a unary format string such as \<^verbatim>\<open>r%d\<close>.\<close>

lemma itoa_of_nat: "itoa (int n) = nat_digits n"
  by (simp add: itoa_def)

end
