(* ===== verification/Go_Map.thy ===== *)
theory Go_Map
  imports Prelude
begin

text \<open>
  Go's built-in maps. A map is kept as the list of its entries in increasing key order, without
  repeated keys (\<open>gm_wf\<close>). Every map of the program is built by the operations below from the
  empty map, and two such lists are equal exactly when they have the same lookups
  (\<open>gm_ext\<close>); so \<^verbatim>\<open>reflect.DeepEqual\<close> of two maps is equality of the lists.

  The order in which \<^verbatim>\<open>for ... range\<close> visits a map is unspecified in Go. A loop whose result may
  depend on it takes the order as an argument: a function that permutes the list of entries
  (\<open>iteration_order\<close>).

  The laws that clients rely on are the assumptions of the locale \<open>finite_map\<close>, interpreted
  here on the operations of this theory.
\<close>

type_synonym ('k, 'v) gomap = "('k \<times> 'v) list"

section \<open>Operations\<close>

definition gm_empty :: "('k, 'v) gomap" where
  "gm_empty = []"

definition gm_lookup :: "('k, 'v) gomap \<Rightarrow> 'k \<Rightarrow> 'v option" where
  "gm_lookup m k = map_of m k"

primrec gm_update :: "'k::linorder \<Rightarrow> 'v \<Rightarrow> ('k, 'v) gomap \<Rightarrow> ('k, 'v) gomap" where
  "gm_update k v [] = [(k, v)]"
| "gm_update k v (e # m) =
     (if fst e < k then e # gm_update k v m
      else (k, v) # (if fst e = k then m else e # m))"

definition gm_delete :: "'k \<Rightarrow> ('k, 'v) gomap \<Rightarrow> ('k, 'v) gomap" where
  "gm_delete k m = filter (\<lambda>e. fst e \<noteq> k) m"

definition gm_keys :: "('k, 'v) gomap \<Rightarrow> 'k list" where
  "gm_keys m = map fst m"

definition gm_wf :: "('k::linorder, 'v) gomap \<Rightarrow> bool" where
  "gm_wf m \<longleftrightarrow> sorted_wrt (<) (gm_keys m)"

text \<open>Writing a list of entries one after the other into a map: later writes win.\<close>

definition gm_of_list :: "('k::linorder \<times> 'v) list \<Rightarrow> ('k, 'v) gomap" where
  "gm_of_list kvs = fold (\<lambda>(k, v). gm_update k v) kvs gm_empty"

text \<open>
  Copying every entry of one map into another. The loop visits the source in some order; the
  result does not depend on it (\<open>gm_copy_any_order\<close>).
\<close>

definition gm_copy :: "('k::linorder, 'v) gomap \<Rightarrow> ('k, 'v) gomap \<Rightarrow> ('k, 'v) gomap" where
  "gm_copy src dst = fold (\<lambda>(k, v). gm_update k v) src dst"

text \<open>The order of a \<^verbatim>\<open>range\<close> loop over a map.\<close>

type_synonym ('k, 'v) iter = "('k, 'v) gomap \<Rightarrow> ('k \<times> 'v) list"

definition iteration_order :: "('k, 'v) iter \<Rightarrow> bool" where
  "iteration_order it \<longleftrightarrow> (\<forall>m. set (it m) = set m \<and> length (it m) = length m)"

section \<open>Laws\<close>

lemma gm_lookup_empty [simp]: "gm_lookup gm_empty k = None"
  by (simp add: gm_lookup_def gm_empty_def)

lemma gm_lookup_Nil [simp]: "gm_lookup [] k = None"
  by (simp add: gm_lookup_def)

lemma gm_lookup_Cons [simp]:
  "gm_lookup ((k', v) # m) k = (if k = k' then Some v else gm_lookup m k)"
  by (simp add: gm_lookup_def)

lemma gm_lookup_update: "gm_lookup (gm_update k v m) = (gm_lookup m)(k \<mapsto> v)"
  by (induction m) (auto simp: fun_eq_iff gm_lookup_def)

lemma gm_lookup_delete: "gm_lookup (gm_delete k m) = (gm_lookup m)(k := None)"
  by (induction m) (auto simp: fun_eq_iff gm_lookup_def gm_delete_def)

lemma gm_lookup_update_apply [simp]:
  "gm_lookup (gm_update k v m) k' = (if k' = k then Some v else gm_lookup m k')"
  by (simp add: gm_lookup_update)

lemma gm_lookup_delete_apply [simp]:
  "gm_lookup (gm_delete k m) k' = (if k' = k then None else gm_lookup m k')"
  by (simp add: gm_lookup_delete)

lemma gm_wf_empty [simp]: "gm_wf gm_empty"
  by (simp add: gm_wf_def gm_keys_def gm_empty_def)

lemma gm_wf_Nil [simp]: "gm_wf []"
  by (simp add: gm_wf_def gm_keys_def)

lemma gm_wf_Cons [simp]:
  "gm_wf ((k, v) # m) \<longleftrightarrow> (\<forall>k' \<in> fst ` set m. k < k') \<and> gm_wf m"
  by (simp add: gm_wf_def gm_keys_def)

lemma gm_update_keys: "fst ` set (gm_update k v m) = insert k (fst ` set m)"
  by (induction m) auto

lemma gm_wf_update [simp]: "gm_wf m \<Longrightarrow> gm_wf (gm_update k v m)"
proof (induction m)
  case Nil
  then show ?case by simp
next
  case (Cons e m)
  then show ?case
    by (cases e) (auto simp: gm_update_keys ball_Un not_less le_less)
qed

lemma gm_wf_delete [simp]: "gm_wf m \<Longrightarrow> gm_wf (gm_delete k m)"
  by (simp add: gm_wf_def gm_keys_def gm_delete_def sorted_wrt_map sorted_wrt_filter)

lemma gm_wf_of_list [simp]: "gm_wf (gm_of_list kvs)"
proof -
  have "gm_wf m \<Longrightarrow> gm_wf (fold (\<lambda>(k, v). gm_update k v) kvs m)" for m
    by (induction kvs arbitrary: m) auto
  then show ?thesis by (simp add: gm_of_list_def)
qed

lemma gm_keys_lookup: "k \<in> fst ` set m \<longleftrightarrow> gm_lookup m k \<noteq> None"
  by (simp add: gm_lookup_def map_of_eq_None_iff)

lemma gm_lookup_below:
  "\<forall>k' \<in> fst ` set m. (k::'k::linorder) < k' \<Longrightarrow> gm_lookup m k = None"
  by (auto simp: gm_lookup_def map_of_eq_None_iff)

text \<open>Well-formed maps with the same lookups are the same list.\<close>

lemma gm_ext:
  assumes "gm_wf m" and "gm_wf m'" and "\<And>k. gm_lookup m k = gm_lookup m' k"
  shows "m = m'"
  using assms
proof (induction m arbitrary: m')
  case Nil
  then show ?case
    by (cases m') (auto, metis option.distinct(1))
next
  case (Cons e m)
  obtain k v where e: "e = (k, v)" by (cases e)
  obtain k' v' n where m': "m' = (k', v') # n"
    using Cons.prems(3) [of k] e by (cases m') auto
  have none: "gm_lookup m k = None" "gm_lookup n k' = None"
    using Cons.prems(1,2) e m' by (auto intro: gm_lookup_below)
  have "k = k'"
  proof (rule ccontr)
    assume ne: "k \<noteq> k'"
    then have "gm_lookup m k' = Some v'" "gm_lookup n k = Some v"
      using Cons.prems(3) [of k'] Cons.prems(3) [of k] e m' by auto
    then have "k < k'" "k' < k"
      using Cons.prems(1,2) e m' by (auto simp: gm_lookup_def dest!: map_of_SomeD)
    then show False by simp
  qed
  moreover have "gm_lookup m j = gm_lookup n j" for j
    using Cons.prems(3) [of j] none \<open>k = k'\<close> e m' by (auto split: if_splits)
  then have "m = n"
    using Cons.IH [of n] Cons.prems(1,2) e m' by simp
  ultimately show ?case
    using Cons.prems(3) [of k] e m' by simp
qed

lemma gm_update_same: "gm_wf m \<Longrightarrow> gm_lookup m k = Some v \<Longrightarrow> gm_update k v m = m"
  by (rule gm_ext) auto

lemma gm_update_twice: "gm_wf m \<Longrightarrow> gm_update k v (gm_update k w m) = gm_update k v m"
  by (rule gm_ext) auto

lemma gm_delete_absent: "gm_lookup m k = None \<Longrightarrow> gm_delete k m = m"
  by (auto simp: gm_delete_def filter_id_conv gm_lookup_def map_of_eq_None_iff image_iff)

lemma gm_wf_distinct: "gm_wf m \<Longrightarrow> distinct (map fst m)"
  by (simp add: gm_wf_def gm_keys_def strict_sorted_iff)

lemma gm_wf_sort: "gm_wf m \<Longrightarrow> sort_key fst m = m"
  by (rule sort_key_id_if_sorted)
    (simp add: gm_wf_def gm_keys_def strict_sorted_iff)

lemma gm_wf_copy [simp]: "gm_wf dst \<Longrightarrow> gm_wf (gm_copy src dst)"
  unfolding gm_copy_def by (induction src arbitrary: dst) auto

lemma gm_lookup_fold:
  "distinct (map fst src) \<Longrightarrow>
   gm_lookup (fold (\<lambda>(k, v). gm_update k v) src dst) k =
     (case map_of src k of None \<Rightarrow> gm_lookup dst k | Some v \<Rightarrow> Some v)"
proof (induction src arbitrary: dst)
  case Nil
  then show ?case by simp
next
  case (Cons e src)
  then show ?case
    by (cases e) (auto split: option.splits simp: map_of_eq_None_iff dest!: map_of_SomeD
        intro: rev_image_eqI)
qed

lemma gm_lookup_copy:
  "gm_wf src \<Longrightarrow> gm_lookup (gm_copy src dst) k =
     (case gm_lookup src k of None \<Rightarrow> gm_lookup dst k | Some v \<Rightarrow> Some v)"
  unfolding gm_copy_def gm_lookup_def [of src]
  by (rule gm_lookup_fold) (rule gm_wf_distinct)

lemma gm_copy_empty [simp]: "gm_wf m \<Longrightarrow> gm_copy m gm_empty = m"
  by (rule gm_ext) (auto simp: gm_lookup_copy split: option.splits)

lemma iteration_orderD [dest]:
  "iteration_order it \<Longrightarrow> set (it m) = set m \<and> length (it m) = length m"
  by (simp add: iteration_order_def)

lemma iteration_order_id [simp]: "iteration_order (\<lambda>m. m)" "iteration_order rev"
  by (simp_all add: iteration_order_def)

text \<open>The order in which a map is copied does not show in the copy.\<close>

lemma gm_copy_any_order:
  assumes "iteration_order it" and "gm_wf src" and "gm_wf dst"
  shows "fold (\<lambda>(k, v). gm_update k v) (it src) dst = gm_copy src dst"
proof (rule gm_ext)
  have d: "distinct (map fst (it src))"
  proof -
    have "card (fst ` set (it src)) = length (map fst (it src))"
      using assms(1) gm_wf_distinct [OF assms(2)] distinct_card [of "map fst src"]
      by (simp add: iteration_order_def)
    then show ?thesis by (intro card_distinct) simp
  qed
  show "gm_wf (fold (\<lambda>(k, v). gm_update k v) (it src) dst)"
    using gm_wf_copy [OF assms(3), of "it src"] by (simp add: gm_copy_def)
  show "gm_wf (gm_copy src dst)"
    using assms(3) by simp
  fix k
  have "map_of (it src) k = map_of src k"
    using d gm_wf_distinct [OF assms(2)] assms(1)
    by (metis iteration_order_def map_of_eqI map_of_inject_set)
  then show "gm_lookup (fold (\<lambda>(k, v). gm_update k v) (it src) dst) k = gm_lookup (gm_copy src dst) k"
    using d assms(2) by (simp add: gm_lookup_fold gm_lookup_copy gm_lookup_def [of src])
qed

section \<open>The interface\<close>

text \<open>
  What a client of a finite map relies on. The lemmas of the locale are those the components
  need of a store they write and read by key.
\<close>

locale finite_map =
  fixes empty :: 'm
    and lookup :: "'m \<Rightarrow> 'k \<Rightarrow> 'v option"
    and update :: "'k \<Rightarrow> 'v \<Rightarrow> 'm \<Rightarrow> 'm"
    and delete :: "'k \<Rightarrow> 'm \<Rightarrow> 'm"
    and wf :: "'m \<Rightarrow> bool"
  assumes lookup_empty: "lookup empty k = None"
    and lookup_update: "wf m \<Longrightarrow> lookup (update k v m) k' = (if k' = k then Some v else lookup m k')"
    and lookup_delete: "wf m \<Longrightarrow> lookup (delete k m) k' = (if k' = k then None else lookup m k')"
    and wf_empty: "wf empty"
    and wf_update: "wf m \<Longrightarrow> wf (update k v m)"
    and wf_delete: "wf m \<Longrightarrow> wf (delete k m)"
    and ext: "wf m \<Longrightarrow> wf m' \<Longrightarrow> (\<And>k. lookup m k = lookup m' k) \<Longrightarrow> m = m'"
begin

lemma update_update: "wf m \<Longrightarrow> update k v (update k w m) = update k v m"
  by (rule ext) (simp_all add: wf_update lookup_update)

lemma update_commute:
  "wf m \<Longrightarrow> k \<noteq> k' \<Longrightarrow> update k v (update k' v' m) = update k' v' (update k v m)"
  by (rule ext) (simp_all add: wf_update lookup_update)

lemma delete_update: "wf m \<Longrightarrow> delete k (update k v m) = delete k m"
  by (rule ext) (simp_all add: wf_update wf_delete lookup_update lookup_delete)

lemma update_present: "wf m \<Longrightarrow> lookup m k = Some v \<Longrightarrow> update k v m = m"
  by (rule ext) (simp_all add: wf_update lookup_update)

lemma delete_missing: "wf m \<Longrightarrow> lookup m k = None \<Longrightarrow> delete k m = m"
  by (rule ext) (simp_all add: wf_delete lookup_delete)

end

interpretation gm: finite_map gm_empty gm_lookup gm_update gm_delete gm_wf
  by unfold_locales (auto intro: gm_ext)

end
