(* ===== verification/Proto.thy ===== *)
theory Proto
  imports Go_Map
begin

text \<open>
  The messages of the gRPC service \<^verbatim>\<open>Commit\<close> (\<^verbatim>\<open>proto/schema.pb.go\<close>), request contexts, the
  generated client stubs (\<^verbatim>\<open>proto/schema_grpc.pb.go\<close>) and the peer client built on them
  (\<^verbatim>\<open>peer/peer.go\<close>).

  The transport is not part of the repository. It is the argument \<open>g\<close> of every definition that
  sends a message: a record with one function per method, which performs
  \<^verbatim>\<open>grpc.ClientConn.Invoke\<close> on a connection and a state \<open>'w\<close> of the rest of the world and
  returns the decoded reply or an error. A connection is the address it was dialled with. The
  spans of the Zipkin tracer are left out throughout: they change no state of the program.
\<close>

section \<open>Messages\<close>

text \<open>An enum field of a proto3 message may hold any 32-bit number.\<close>

datatype CommitType = TWO_PHASE_COMMIT | THREE_PHASE_COMMIT | CommitType_other "32 word"

datatype ResponseType = ACK | NACK | Type_other "32 word"

record ProposeRequest =
  pKey :: string
  pValue :: bytes
  pCommitType :: CommitType
  pIndex :: uint64

record Response =
  rType :: ResponseType
  rIndex :: uint64

record PrecommitRequest =
  pcIndex :: uint64

record CommitRequest =
  cIndex :: uint64
  cIsRollback :: bool

record Entry =
  eKey :: string
  eValue :: bytes

record Msg =
  mKey :: string

record Value =
  vValue :: bytes

record Info =
  iHeight :: uint64

section \<open>Contexts\<close>

type_synonym metadata = "(string, string list) gomap"

text \<open>
  What the program reads of a \<^verbatim>\<open>context.Context\<close>: the metadata received with a request, the
  metadata to send with a call, the address of the caller, and the timeouts (in nanoseconds)
  that \<^verbatim>\<open>context.WithTimeout\<close> has put on it, the latest first.
\<close>

record Context =
  ctx_incoming :: "metadata option"
  ctx_outgoing :: "metadata option"
  ctx_peer :: "string option"
  ctx_timeouts :: "go_int list"

definition Background :: Context where
  "Background = \<lparr>ctx_incoming = None, ctx_outgoing = None, ctx_peer = None, ctx_timeouts = []\<rparr>"

definition WithTimeout :: "Context \<Rightarrow> go_int \<Rightarrow> Context" where
  "WithTimeout ctx d = ctx\<lparr>ctx_timeouts := d # ctx_timeouts ctx\<rparr>"

definition NewOutgoingContext :: "Context \<Rightarrow> metadata \<Rightarrow> Context" where
  "NewOutgoingContext ctx md = ctx\<lparr>ctx_outgoing := Some md\<rparr>"

definition FromIncomingContext :: "Context \<Rightarrow> metadata option" where
  "FromIncomingContext ctx = ctx_incoming ctx"

section \<open>The transport and the generated client\<close>

type_synonym conn = string

record 'w grpc =
  invoke_Propose :: "conn \<Rightarrow> Context \<Rightarrow> ProposeRequest \<Rightarrow> 'w \<Rightarrow> (error + Response) \<times> 'w"
  invoke_Precommit :: "conn \<Rightarrow> Context \<Rightarrow> PrecommitRequest \<Rightarrow> 'w \<Rightarrow> (error + Response) \<times> 'w"
  invoke_Commit :: "conn \<Rightarrow> Context \<Rightarrow> CommitRequest \<Rightarrow> 'w \<Rightarrow> (error + Response) \<times> 'w"
  invoke_Put :: "conn \<Rightarrow> Context \<Rightarrow> Entry \<Rightarrow> 'w \<Rightarrow> (error + Response) \<times> 'w"
  invoke_Get :: "conn \<Rightarrow> Context \<Rightarrow> Msg \<Rightarrow> 'w \<Rightarrow> (error + Value) \<times> 'w"
  invoke_NodeInfo :: "conn \<Rightarrow> Context \<Rightarrow> 'w \<Rightarrow> (error + Info) \<times> 'w"

text \<open>A Go result pair: the message pointer and the error, either of which may be nil.\<close>

type_synonym 'r reply = "'r option \<times> error option"

text \<open>
  The body shared by the six client methods: on an error the reply is nil, otherwise it is the
  decoded message and the error is nil.
\<close>

definition stub_result :: "(error + 'r) \<times> 'w \<Rightarrow> 'r reply \<times> 'w" where
  "stub_result x =
     (case x of (Inl err, w) \<Rightarrow> ((None, Some err), w) | (Inr out, w) \<Rightarrow> ((Some out, None), w))"

definition commitClient_Propose ::
    "'w grpc \<Rightarrow> conn \<Rightarrow> Context \<Rightarrow> ProposeRequest \<Rightarrow> 'w \<Rightarrow> Response reply \<times> 'w" where
  "commitClient_Propose g cc ctx inn w = stub_result (invoke_Propose g cc ctx inn w)"

definition commitClient_Precommit ::
    "'w grpc \<Rightarrow> conn \<Rightarrow> Context \<Rightarrow> PrecommitRequest \<Rightarrow> 'w \<Rightarrow> Response reply \<times> 'w" where
  "commitClient_Precommit g cc ctx inn w = stub_result (invoke_Precommit g cc ctx inn w)"

definition commitClient_Commit ::
    "'w grpc \<Rightarrow> conn \<Rightarrow> Context \<Rightarrow> CommitRequest \<Rightarrow> 'w \<Rightarrow> Response reply \<times> 'w" where
  "commitClient_Commit g cc ctx inn w = stub_result (invoke_Commit g cc ctx inn w)"

definition commitClient_Put ::
    "'w grpc \<Rightarrow> conn \<Rightarrow> Context \<Rightarrow> Entry \<Rightarrow> 'w \<Rightarrow> Response reply \<times> 'w" where
  "commitClient_Put g cc ctx inn w = stub_result (invoke_Put g cc ctx inn w)"

definition commitClient_Get ::
    "'w grpc \<Rightarrow> conn \<Rightarrow> Context \<Rightarrow> Msg \<Rightarrow> 'w \<Rightarrow> Value reply \<times> 'w" where
  "commitClient_Get g cc ctx inn w = stub_result (invoke_Get g cc ctx inn w)"

definition commitClient_NodeInfo ::
    "'w grpc \<Rightarrow> conn \<Rightarrow> Context \<Rightarrow> 'w \<Rightarrow> Info reply \<times> 'w" where
  "commitClient_NodeInfo g cc ctx w = stub_result (invoke_NodeInfo g cc ctx w)"

section \<open>The peer client\<close>

record CommitClient =
  Connection :: conn
  client_traced :: bool

text \<open>
  \<^verbatim>\<open>grpc.Dial\<close> is an argument. \<open>with_tracer\<close> says whether a tracer was passed; it only selects
  the dial options.
\<close>

definition peer_New ::
    "(string \<Rightarrow> bool \<Rightarrow> error + conn) \<Rightarrow> string \<Rightarrow> bool \<Rightarrow> error + CommitClient" where
  "peer_New dial addr with_tracer =
     (case dial addr with_tracer of
        Inl err \<Rightarrow> Inl (WrappedError ''failed to connect'' err)
      | Inr cc \<Rightarrow> Inr \<lparr>Connection = cc, client_traced = with_tracer\<rparr>)"

definition peer_Propose ::
    "'w grpc \<Rightarrow> CommitClient \<Rightarrow> Context \<Rightarrow> ProposeRequest \<Rightarrow> 'w \<Rightarrow> Response reply \<times> 'w" where
  "peer_Propose g client ctx req w = commitClient_Propose g (Connection client) ctx req w"

definition peer_Precommit ::
    "'w grpc \<Rightarrow> CommitClient \<Rightarrow> Context \<Rightarrow> PrecommitRequest \<Rightarrow> 'w \<Rightarrow> Response reply \<times> 'w" where
  "peer_Precommit g client ctx req w = commitClient_Precommit g (Connection client) ctx req w"

definition peer_Commit ::
    "'w grpc \<Rightarrow> CommitClient \<Rightarrow> Context \<Rightarrow> CommitRequest \<Rightarrow> 'w \<Rightarrow> Response reply \<times> 'w" where
  "peer_Commit g client ctx req w = commitClient_Commit g (Connection client) ctx req w"

definition peer_Put ::
    "'w grpc \<Rightarrow> CommitClient \<Rightarrow> Context \<Rightarrow> string \<Rightarrow> bytes \<Rightarrow> 'w \<Rightarrow> Response reply \<times> 'w" where
  "peer_Put g client ctx key val w =
     commitClient_Put g (Connection client) ctx \<lparr>eKey = key, eValue = val\<rparr> w"

definition peer_NodeInfo ::
    "'w grpc \<Rightarrow> CommitClient \<Rightarrow> Context \<Rightarrow> 'w \<Rightarrow> Info reply \<times> 'w" where
  "peer_NodeInfo g client ctx w = commitClient_NodeInfo g (Connection client) ctx w"

definition peer_Get ::
    "'w grpc \<Rightarrow> CommitClient \<Rightarrow> Context \<Rightarrow> string \<Rightarrow> 'w \<Rightarrow> Value reply \<times> 'w" where
  "peer_Get g client ctx key w = commitClient_Get g (Connection client) ctx \<lparr>mKey = key\<rparr> w"

section \<open>Replies of the client\<close>

lemma stub_result_simps [simp]:
  "stub_result (Inl e, w) = ((None, Some e), w)"
  "stub_result (Inr r, w) = ((Some r, None), w)"
  by (simp_all add: stub_result_def)

text \<open>A client method returns a nil reply exactly when it returns an error.\<close>

lemma stub_nil_iff_error: "stub_result x = ((r, e), w) \<Longrightarrow> r = None \<longleftrightarrow> e \<noteq> None"
  by (auto simp: stub_result_def split: prod.splits sum.splits)

lemmas peer_defs =
  peer_Propose_def commitClient_Propose_def peer_Precommit_def commitClient_Precommit_def
  peer_Commit_def commitClient_Commit_def peer_Put_def commitClient_Put_def
  peer_NodeInfo_def commitClient_NodeInfo_def peer_Get_def commitClient_Get_def

end
