(* ===== verification/Cache.thy ===== *)
theory Cache
  imports Go_Map
begin

text \<open>
  \<^verbatim>\<open>cache/cache.go\<close>: the store of proposed key/value pairs by height. The mutex makes each
  operation atomic, so an operation is one function on the store.
\<close>

record msg =
  msg_Key :: string
  msg_Value :: bytes

record Cache =
  store :: "(uint64, msg) gomap"

definition cache_New :: Cache where
  "cache_New = \<lparr>store = gm_empty\<rparr>"

definition cache_Set :: "Cache \<Rightarrow> uint64 \<Rightarrow> string \<Rightarrow> bytes \<Rightarrow> Cache" where
  "cache_Set c index key val =
     c\<lparr>store := gm_update index \<lparr>msg_Key = key, msg_Value = val\<rparr> (store c)\<rparr>"

text \<open>An absent index gives the zero message and \<^verbatim>\<open>false\<close>.\<close>

definition cache_Get :: "Cache \<Rightarrow> uint64 \<Rightarrow> string \<times> bytes \<times> bool" where
  "cache_Get c index =
     (case gm_lookup (store c) index of
        None \<Rightarrow> ([], [], False)
      | Some m \<Rightarrow> (msg_Key m, msg_Value m, True))"

definition cache_Delete :: "Cache \<Rightarrow> uint64 \<Rightarrow> Cache" where
  "cache_Delete c index = c\<lparr>store := gm_delete index (store c)\<rparr>"

definition cache_wf :: "Cache \<Rightarrow> bool" where
  "cache_wf c \<longleftrightarrow> gm_wf (store c)"

text \<open>The cache as a finite map from heights to pairs.\<close>

definition cache_lookup :: "Cache \<Rightarrow> uint64 \<Rightarrow> (string \<times> bytes) option" where
  "cache_lookup c index =
     (case cache_Get c index of (k, v, ok) \<Rightarrow> if ok then Some (k, v) else None)"

definition cache_put :: "uint64 \<Rightarrow> string \<times> bytes \<Rightarrow> Cache \<Rightarrow> Cache" where
  "cache_put index kv c = cache_Set c index (fst kv) (snd kv)"

lemma cache_lookup_alt:
  "cache_lookup c i = map_option (\<lambda>m. (msg_Key m, msg_Value m)) (gm_lookup (store c) i)"
  by (simp add: cache_lookup_def cache_Get_def split: option.splits)

lemma cache_Get_Some: "cache_lookup c i = Some (k, v) \<Longrightarrow> cache_Get c i = (k, v, True)"
  by (auto simp: cache_lookup_def split: prod.splits if_splits)

lemma cache_Get_None: "cache_lookup c i = None \<Longrightarrow> cache_Get c i = ([], [], False)"
  by (auto simp: cache_lookup_alt cache_Get_def)

lemma cache_lookup_New [simp]: "cache_lookup cache_New i = None"
  by (simp add: cache_lookup_alt cache_New_def)

lemma cache_lookup_Set [simp]:
  "cache_lookup (cache_Set c i k v) j = (if j = i then Some (k, v) else cache_lookup c j)"
  by (simp add: cache_lookup_alt cache_Set_def)

lemma cache_lookup_Delete [simp]:
  "cache_lookup (cache_Delete c i) j = (if j = i then None else cache_lookup c j)"
  by (simp add: cache_lookup_alt cache_Delete_def)

lemma cache_wf_ops [simp]:
  "cache_wf cache_New"
  "cache_wf c \<Longrightarrow> cache_wf (cache_Set c i k v)"
  "cache_wf c \<Longrightarrow> cache_wf (cache_Delete c i)"
  by (simp_all add: cache_wf_def cache_New_def cache_Set_def cache_Delete_def)

lemma cache_ext:
  assumes "cache_wf c" and "cache_wf c'" and "\<And>i. cache_lookup c i = cache_lookup c' i"
  shows "c = c'"
proof -
  have "gm_lookup (store c) i = gm_lookup (store c') i" for i
    using assms(3) [of i] by (auto simp: cache_lookup_alt map_option_case split: option.splits)
  then have "store c = store c'"
    using assms(1,2) by (intro gm_ext) (auto simp: cache_wf_def)
  then show ?thesis by simp
qed

text \<open>The cache meets the map interface; the laws of the locale hold of it.\<close>

interpretation cache: finite_map cache_New cache_lookup cache_put "\<lambda>i c. cache_Delete c i" cache_wf
  by unfold_locales (auto simp: cache_put_def intro: cache_ext)

end
