(* ===== verification/Database.thy ===== *)
theory Database
  imports Go_Map
begin

text \<open>
  \<^verbatim>\<open>db/iface.go\<close> and \<^verbatim>\<open>db/badger.go\<close>. The Go interface \<^verbatim>\<open>Database\<close> is a record of its methods
  over a type \<open>'d\<close> of database states. \<open>BadgerDB\<close> implements it with BadgerDB transactions;
  BadgerDB itself is not part of the repository and is the argument \<open>b\<close>, the record of the
  calls that the code makes.

  The locale \<open>database\<close> states what the server relies on. \<open>badger_laws\<close> is the documented
  behaviour of the transactions, from which the wrapper meets the interface
  (\<open>badger_database\<close>).
\<close>

record 'd Database =
  DB_Put :: "string \<Rightarrow> bytes \<Rightarrow> 'd \<Rightarrow> error option \<times> 'd"
  DB_Get :: "string \<Rightarrow> 'd \<Rightarrow> error + bytes"
  DB_Close :: "'d \<Rightarrow> error option \<times> 'd"

text \<open>
  The BadgerDB calls, with \<open>'t\<close> the state of a transaction. An item is represented by what its
  method \<^verbatim>\<open>Value\<close> gives.
\<close>

record ('d, 't) badger =
  b_Open :: "string \<Rightarrow> error + 'd"
  b_Update :: "('t \<Rightarrow> error option \<times> 't) \<Rightarrow> 'd \<Rightarrow> error option \<times> 'd"
  b_View :: "'d \<Rightarrow> 't"
  txn_Set :: "string \<Rightarrow> bytes \<Rightarrow> 't \<Rightarrow> error option \<times> 't"
  txn_Get :: "string \<Rightarrow> 't \<Rightarrow> error + (error + bytes)"
  b_Close :: "'d \<Rightarrow> error option \<times> 'd"

definition db_New :: "('d, 't) badger \<Rightarrow> string \<Rightarrow> error + 'd" where
  "db_New b path = (case b_Open b path of Inl err \<Rightarrow> Inl err | Inr d \<Rightarrow> Inr d)"

definition BadgerDB_Put :: "('d, 't) badger \<Rightarrow> string \<Rightarrow> bytes \<Rightarrow> 'd \<Rightarrow> error option \<times> 'd" where
  "BadgerDB_Put b key val d = b_Update b (\<lambda>txn. txn_Set b key val txn) d"

definition BadgerDB_Get :: "('d, 't) badger \<Rightarrow> string \<Rightarrow> 'd \<Rightarrow> error + bytes" where
  "BadgerDB_Get b key d =
     (case txn_Get b key (b_View b d) of
        Inl err \<Rightarrow> Inl err
      | Inr item \<Rightarrow> (case item of Inl err \<Rightarrow> Inl err | Inr val \<Rightarrow> Inr ([] @ val)))"

definition BadgerDB_Close :: "('d, 't) badger \<Rightarrow> 'd \<Rightarrow> error option \<times> 'd" where
  "BadgerDB_Close b d = b_Close b d"

definition BadgerDB :: "('d, 't) badger \<Rightarrow> 'd Database" where
  "BadgerDB b = \<lparr>DB_Put = BadgerDB_Put b, DB_Get = BadgerDB_Get b, DB_Close = BadgerDB_Close b\<rparr>"

text \<open>
  The documented behaviour: \<^verbatim>\<open>Update\<close> runs its function in a read-write transaction on the
  current state and commits it if the function returns nil, with the effect of the transaction
  or an error and no effect; a transaction reads its own writes.
\<close>

definition badger_laws :: "('d, 't) badger \<Rightarrow> bool" where
  "badger_laws b \<longleftrightarrow>
     (\<forall>f d err d'. b_Update b f d = (Some err, d') \<longrightarrow> b_View b d' = b_View b d) \<and>
     (\<forall>f d d'. b_Update b f d = (None, d') \<longrightarrow>
        fst (f (b_View b d)) = None \<and> b_View b d' = snd (f (b_View b d))) \<and>
     (\<forall>k v t t'. txn_Set b k v t = (None, t') \<longrightarrow>
        txn_Get b k t' = Inr (Inr v) \<and> (\<forall>k'. k' \<noteq> k \<longrightarrow> txn_Get b k' t' = txn_Get b k' t))"

text \<open>A store in memory that behaves so, with BadgerDB's rule that a key is not empty.\<close>

definition mem_badger :: "((string, bytes) gomap, (string, bytes) gomap) badger" where
  "mem_badger =
     \<lparr>b_Open = (\<lambda>path. Inr gm_empty),
      b_Update = (\<lambda>f d. case f d of (None, t) \<Rightarrow> (None, t) | (Some e, t) \<Rightarrow> (Some e, d)),
      b_View = (\<lambda>d. d),
      txn_Set = (\<lambda>k v t. if k = [] then (Some (PlainError ''Key cannot be empty''), t)
         else (None, gm_update k v t)),
      txn_Get = (\<lambda>k t. case gm_lookup t k of
         None \<Rightarrow> Inl (PlainError ''Key not found'') | Some v \<Rightarrow> Inr (Inr v)),
      b_Close = (\<lambda>d. (None, d))\<rparr>"

text \<open>The interface that the server relies on.\<close>

locale database =
  fixes Put :: "string \<Rightarrow> bytes \<Rightarrow> 'd \<Rightarrow> error option \<times> 'd"
    and Get :: "string \<Rightarrow> 'd \<Rightarrow> error + bytes"
  assumes put_get: "Put k v d = (None, d') \<Longrightarrow> Get k d' = Inr v"
    and put_other: "Put k v d = (None, d') \<Longrightarrow> k' \<noteq> k \<Longrightarrow> Get k' d' = Get k' d"
    and put_error: "Put k v d = (Some e, d') \<Longrightarrow> Get k' d' = Get k' d"
begin

text \<open>Whatever \<open>Put\<close> returns, a key holds the new value or what it held.\<close>

lemma put_get_cases: "Put k v d = (r, d') \<Longrightarrow> Get k' d' = Inr v \<or> Get k' d' = Get k' d"
  by (cases r; cases "k' = k") (auto dest: put_get put_other put_error)

lemma put_put_get:
  "Put k v d = (None, d') \<Longrightarrow> Put k' v' d' = (r, d'') \<Longrightarrow> k' \<noteq> k \<Longrightarrow> Get k d'' = Inr v"
  by (cases r) (metis put_get put_other, metis put_get put_error)

end

text \<open>The view of the database after a successful and after a failed \<^verbatim>\<open>Put\<close>.\<close>

lemma BadgerDB_Put_ok:
  assumes "badger_laws b" and "BadgerDB_Put b k v d = (None, d')"
  shows "txn_Set b k v (b_View b d) = (None, b_View b d')"
proof -
  have "fst (txn_Set b k v (b_View b d)) = None"
    and "b_View b d' = snd (txn_Set b k v (b_View b d))"
    using assms unfolding badger_laws_def BadgerDB_Put_def by blast+
  then show ?thesis by (simp add: prod_eq_iff)
qed

lemma BadgerDB_Put_error:
  "badger_laws b \<Longrightarrow> BadgerDB_Put b k v d = (Some e, d') \<Longrightarrow> b_View b d' = b_View b d"
  unfolding badger_laws_def BadgerDB_Put_def by blast

lemma txn_Set_Get:
  "badger_laws b \<Longrightarrow> txn_Set b k v t = (None, t') \<Longrightarrow>
     txn_Get b k t' = Inr (Inr v) \<and> (\<forall>k'. k' \<noteq> k \<longrightarrow> txn_Get b k' t' = txn_Get b k' t)"
  unfolding badger_laws_def by blast

lemma badger_database:
  assumes "badger_laws b"
  shows "database (DB_Put (BadgerDB b)) (DB_Get (BadgerDB b))"
proof
  fix k v d d'
  assume "DB_Put (BadgerDB b) k v d = (None, d')"
  then have put: "txn_Set b k v (b_View b d) = (None, b_View b d')"
    using BadgerDB_Put_ok [OF assms] by (simp add: BadgerDB_def)
  then show "DB_Get (BadgerDB b) k d' = Inr v"
    using txn_Set_Get [OF assms put] by (simp add: BadgerDB_def BadgerDB_Get_def)
  show "DB_Get (BadgerDB b) k' d' = DB_Get (BadgerDB b) k' d" if "k' \<noteq> k" for k'
    using txn_Set_Get [OF assms put] that by (simp add: BadgerDB_def BadgerDB_Get_def)
next
  fix k v d e d' k'
  assume "DB_Put (BadgerDB b) k v d = (Some e, d')"
  then show "DB_Get (BadgerDB b) k' d' = DB_Get (BadgerDB b) k' d"
    using BadgerDB_Put_error [OF assms] by (simp add: BadgerDB_def BadgerDB_Get_def)
qed

lemma mem_badger_laws: "badger_laws mem_badger"
  by (auto simp: badger_laws_def mem_badger_def split: prod.splits option.splits if_splits)

interpretation mem_db: database "DB_Put (BadgerDB mem_badger)" "DB_Get (BadgerDB mem_badger)"
  by (rule badger_database) (rule mem_badger_laws)

end
