(* ===== verification/Config.thy ===== *)
theory Config
  imports Prelude
begin

text \<open>
  \<^verbatim>\<open>helpers/helpers.go\<close> and \<^verbatim>\<open>config/config.go\<close>: the membership test on string slices, the
  configuration of a node and how it is made from the command-line flags.
\<close>

section \<open>Helpers\<close>

fun Includes :: "string list \<Rightarrow> string \<Rightarrow> bool" where
  "Includes [] val = False"
| "Includes (a # arr) val = (if a = val then True else Includes arr val)"

section \<open>Configuration\<close>

record Config =
  Role :: string
  Nodeaddr :: string
  Coordinator :: string
  cfg_Followers :: "string list"
  Whitelist :: "string list"
  cfg_CommitType :: string
  Timeout :: uint64
  cfg_DBPath :: string
  WithTrace :: bool

text \<open>The two list-valued flag types; both have the same methods.\<close>

definition followers_String :: "string list \<Rightarrow> string" where
  "followers_String i = join '','' i"

definition followers_Set :: "string list \<Rightarrow> string \<Rightarrow> error option \<times> string list" where
  "followers_Set i val = (None, i @ [val])"

definition whitelist_String :: "string list \<Rightarrow> string" where
  "whitelist_String i = join '','' i"

definition whitelist_Set :: "string list \<Rightarrow> string \<Rightarrow> error option \<times> string list" where
  "whitelist_Set i val = (None, i @ [val])"

text \<open>The values of the flags after \<^verbatim>\<open>flag.Parse\<close>, and what they are when a flag is not given.\<close>

record Flags =
  f_role :: string
  f_nodeaddr :: string
  f_coordinator :: string
  f_committype :: string
  f_timeout :: uint64
  f_dbpath :: string
  f_withtrace :: bool
  f_followers :: string
  f_whitelist :: string

definition default_flags :: Flags where
  "default_flags =
     \<lparr>f_role = ''follower'', f_nodeaddr = ''localhost:3050'', f_coordinator = [],
      f_committype = ''three-phase'', f_timeout = 1000, f_dbpath = ''./badger'',
      f_withtrace = False, f_followers = [], f_whitelist = ''127.0.0.1''\<rparr>"

definition config_Get :: "Flags \<Rightarrow> Config" where
  "config_Get f =
     (let followersArray = split_on (CHR '','') (f_followers f);
          followersArray =
            (if f_role f \<noteq> ''coordinator'' \<and> \<not> Includes followersArray (f_nodeaddr f)
             then followersArray @ [f_nodeaddr f] else followersArray);
          whitelistArray = split_on (CHR '','') (f_whitelist f)
      in \<lparr>Role = f_role f, Nodeaddr = f_nodeaddr f, Coordinator = f_coordinator f,
          cfg_Followers = followersArray, Whitelist = whitelistArray,
          cfg_CommitType = f_committype f, Timeout = f_timeout f, cfg_DBPath = f_dbpath f,
          WithTrace = f_withtrace f\<rparr>)"

section \<open>Properties\<close>

lemma Includes_iff [simp]: "Includes arr val \<longleftrightarrow> val \<in> set arr"
  by (induction arr) auto

lemma config_Get_Followers_nonempty [simp]: "cfg_Followers (config_Get f) \<noteq> []"
  by (simp add: config_Get_def Let_def)

text \<open>
  The followers of a configuration: the addresses given on the command line, in their order,
  and on a node that is not the coordinator its own address at the end unless it is among them.
  The flag without a value stands for one follower with the empty address, so the list is
  never empty.
\<close>

theorem config_Get_Followers_spec:
  assumes "xs \<noteq> []" and "\<forall>x\<in>set xs. CHR '','' \<notin> set x" and "f_followers f = followers_String xs"
  shows "cfg_Followers (config_Get f) =
      (if f_role f = ''coordinator'' \<or> f_nodeaddr f \<in> set xs then xs else xs @ [f_nodeaddr f]) \<and>
    (f_followers f = [] \<longrightarrow> hd (cfg_Followers (config_Get f)) = [])"
proof -
  have "split_on (CHR '','') (f_followers f) = xs"
    using assms by (simp add: followers_String_def split_on_join)
  then show ?thesis by (auto simp: config_Get_def Let_def)
qed

theorem config_Get_Followers_spec_witness:
  "cfg_Followers (config_Get (default_flags\<lparr>f_followers := ''a:1,b:2''\<rparr>)) = [''a:1'', ''b:2'', ''localhost:3050'']"
proof -
  have "''a:1,b:2'' = followers_String [''a:1'', ''b:2'']" by (simp add: followers_String_def)
  then show ?thesis
    using config_Get_Followers_spec [of "[''a:1'', ''b:2'']" "default_flags\<lparr>f_followers := ''a:1,b:2''\<rparr>"]
    by (simp add: default_flags_def)
qed

end
