(* ===== verification/TLA_Values.thy ===== *)
theory TLA_Values
  imports Go_Map "HOL-Library.Signed_Division"
begin

text \<open>
  The TLA+ values of the generated monitor and the library of operators over them: the first
  400 lines of \<^verbatim>\<open>server/TwoPhaseCommitFull.go\<close>. The Go interface \<^verbatim>\<open>TLA\<close> is the datatype
  \<open>TLA\<close>, one constructor per struct that implements it, and \<open>NilTLA\<close> for the nil
  interface value. A parameter or result of the static type \<^verbatim>\<open>Seq\<close>, \<^verbatim>\<open>Record\<close>, \<^verbatim>\<open>Set\<close>,
  \<^verbatim>\<open>Int\<close>, \<^verbatim>\<open>Bool\<close> or \<^verbatim>\<open>String\<close> is the payload of that struct. Type assertions, index
  expressions and method calls on nil panic, so the operators that use them return a value of
  the panic monad.

  A sequence is a value here: what \<^verbatim>\<open>append\<close> does to a shared backing array is the subject of
  the theory \<open>Slices\<close>.
\<close>

section \<open>Values\<close>

datatype TLA =
    NilTLA
  | TSeq "TLA list"
  | TRecord "(string \<times> TLA) list"
  | TSet "(string \<times> TLA) list"
  | TInt go_int
  | TBool bool
  | TString string

type_synonym tla_seq = "TLA list"
type_synonym tla_record = "(string, TLA) gomap"
type_synonym tla_set = "(string, TLA) gomap"

text \<open>
  The \<^verbatim>\<open>String\<close> methods. Records and sets are printed in the order of their sorted keys.
\<close>

primrec TLA_String :: "TLA \<Rightarrow> string go" where
  "TLA_String NilTLA = Inl NilDereference"
| "TLA_String (TSeq elements) =
     gbind (gsequence (map TLA_String elements))
       (\<lambda>ss. Inr (''<<'' @ join '', '' ss @ ''>>''))"
| "TLA_String (TRecord elements) =
     gbind (gsequence (map (\<lambda>(k, m). gbind m (\<lambda>v. Inr (k @ '' |-> '' @ v)))
         (sort_key fst (map (map_prod id TLA_String) elements))))
       (\<lambda>ss. Inr (''['' @ join '', '' ss @ '']''))"
| "TLA_String (TSet elements) =
     gbind (gsequence (map snd (sort_key fst (map (map_prod id TLA_String) elements))))
       (\<lambda>ss. Inr (''{'' @ join '', '' ss @ ''}''))"
| "TLA_String (TInt v) = Inr (itoa (sint v))"
| "TLA_String (TBool b) = Inr (if b then ''true'' else ''false'')"
| "TLA_String (TString s) = Inr s"

definition hash :: "TLA \<Rightarrow> string go" where
  "hash a = TLA_String a"

section \<open>Type assertions\<close>

fun as_Seq :: "TLA \<Rightarrow> tla_seq go" where
  "as_Seq (TSeq xs) = Inr xs"
| "as_Seq _ = Inl TypeAssertion"

fun as_Record :: "TLA \<Rightarrow> tla_record go" where
  "as_Record (TRecord m) = Inr m"
| "as_Record _ = Inl TypeAssertion"

fun as_Int :: "TLA \<Rightarrow> go_int go" where
  "as_Int (TInt i) = Inr i"
| "as_Int _ = Inl TypeAssertion"

fun as_Bool :: "TLA \<Rightarrow> bool go" where
  "as_Bool (TBool b) = Inr b"
| "as_Bool _ = Inl TypeAssertion"

fun as_String :: "TLA \<Rightarrow> string go" where
  "as_String (TString s) = Inr s"
| "as_String _ = Inl TypeAssertion"

section \<open>Smart constructors\<close>

definition boolean :: "bool \<Rightarrow> TLA" where
  "boolean b = TBool b"

definition integer :: "go_int \<Rightarrow> TLA" where
  "integer n = TInt n"

definition str :: "string \<Rightarrow> TLA" where
  "str s = TString s"

definition set_put :: "TLA \<Rightarrow> tla_set \<Rightarrow> tla_set go" where
  "set_put v res = gbind (hash v) (\<lambda>k. Inr (gm_update k v res))"

definition mk_set :: "TLA list \<Rightarrow> tla_set go" where
  "mk_set elts = gfold set_put elts gm_empty"

fun record_fill :: "TLA list \<Rightarrow> tla_record \<Rightarrow> tla_record go" where
  "record_fill [] res = Inr res"
| "record_fill [k] res = gbind (as_String k) (\<lambda>_. Inl IndexOutOfRange)"
| "record_fill (k # v # kvs) res = gbind (as_String k) (\<lambda>s. record_fill kvs (gm_update s v res))"

definition mk_record :: "TLA list \<Rightarrow> tla_record go" where
  "mk_record kvs = record_fill kvs gm_empty"

definition seq :: "TLA list \<Rightarrow> TLA" where
  "seq elts = TSeq elts"

section \<open>The operator library\<close>

definition tla_Some :: "TLA \<Rightarrow> tla_seq" where
  "tla_Some a = [a]"

definition tla_None :: "tla_seq" where
  "tla_None = []"

definition Append :: "tla_seq \<Rightarrow> TLA \<Rightarrow> tla_seq" where
  "Append a b = a @ [b]"

definition AppendSeqs :: "tla_seq \<Rightarrow> tla_seq \<Rightarrow> tla_seq" where
  "AppendSeqs a b = a @ b"

definition Len :: "tla_seq \<Rightarrow> go_int" where
  "Len a = of_nat (length a)"

definition Cardinality :: "tla_set \<Rightarrow> go_int" where
  "Cardinality a = of_nat (length a)"

definition SetUnion :: "tla_set \<Rightarrow> tla_set \<Rightarrow> tla_set" where
  "SetUnion a b = gm_copy b (gm_copy a gm_empty)"

definition SetIn :: "TLA \<Rightarrow> tla_set \<Rightarrow> bool go" where
  "SetIn a b = gbind (hash a) (\<lambda>k. Inr (gm_lookup b k \<noteq> None))"

definition SetNotIn :: "TLA \<Rightarrow> tla_set \<Rightarrow> bool go" where
  "SetNotIn a b = gbind (SetIn a b) (\<lambda>r. Inr (\<not> r))"

text \<open>Reading an absent key of a Go map gives the zero value, here the nil interface.\<close>

definition RecordIndex :: "tla_record \<Rightarrow> string \<Rightarrow> TLA" where
  "RecordIndex a b = (case gm_lookup a b of None \<Rightarrow> NilTLA | Some v \<Rightarrow> v)"

definition TLAIndex :: "go_int \<Rightarrow> go_int" where
  "TLAIndex i = i - 1"

definition SeqIndex :: "tla_seq \<Rightarrow> go_int \<Rightarrow> TLA go" where
  "SeqIndex a b =
     (let i = sint (TLAIndex b) in
      if 0 \<le> i \<and> i < int (length a) then Inr (a ! nat i) else Inl IndexOutOfRange)"

definition IndexInto :: "TLA \<Rightarrow> TLA \<Rightarrow> TLA go" where
  "IndexInto a b =
     (case (a, b) of
        (TSeq a1, TInt b1) \<Rightarrow> SeqIndex a1 b1
      | _ \<Rightarrow> gbind (as_Record a) (\<lambda>r. gbind (as_String b) (\<lambda>k. Inr (RecordIndex r k))))"

definition IntPlus :: "go_int \<Rightarrow> go_int \<Rightarrow> go_int" where
  "IntPlus a b = a + b"

definition IntMinus :: "go_int \<Rightarrow> go_int \<Rightarrow> go_int" where
  "IntMinus a b = a - b"

definition IntMul :: "go_int \<Rightarrow> go_int \<Rightarrow> go_int" where
  "IntMul a b = a * b"

text \<open>Go's integer division truncates towards zero, wraps on overflow and panics on zero.\<close>

definition IntDiv :: "go_int \<Rightarrow> go_int \<Rightarrow> go_int go" where
  "IntDiv a b = (if b = 0 then Inl DivideByZero else Inr (word_of_int (sint a sdiv sint b)))"

definition IntLt :: "go_int \<Rightarrow> go_int \<Rightarrow> bool" where
  "IntLt a b \<longleftrightarrow> a <s b"

definition IntLte :: "go_int \<Rightarrow> go_int \<Rightarrow> bool" where
  "IntLte a b \<longleftrightarrow> a \<le>s b"

definition IntGt :: "go_int \<Rightarrow> go_int \<Rightarrow> bool" where
  "IntGt a b \<longleftrightarrow> b <s a"

definition IntGte :: "go_int \<Rightarrow> go_int \<Rightarrow> bool" where
  "IntGte a b \<longleftrightarrow> b \<le>s a"

text \<open>
  \<^verbatim>\<open>reflect.DeepEqual\<close>: the dynamic types agree and the contents agree, element by element for
  slices and key by key for maps.
\<close>

definition Eq :: "TLA \<Rightarrow> TLA \<Rightarrow> bool" where
  "Eq a b \<longleftrightarrow> a = b"

definition tla_Not :: "bool \<Rightarrow> bool" where
  "tla_Not b \<longleftrightarrow> \<not> b"

definition Neq :: "TLA \<Rightarrow> TLA \<Rightarrow> bool" where
  "Neq a b \<longleftrightarrow> tla_Not (Eq a b)"

definition And :: "bool \<Rightarrow> bool \<Rightarrow> bool" where
  "And a b \<longleftrightarrow> a \<and> b"

definition Or :: "bool \<Rightarrow> bool \<Rightarrow> bool" where
  "Or a b \<longleftrightarrow> a \<or> b"

definition IsFalse :: "TLA \<Rightarrow> bool go" where
  "IsFalse a = gbind (as_Bool a) (\<lambda>b. Inr (\<not> b))"

definition IsTrue :: "TLA \<Rightarrow> bool go" where
  "IsTrue a = gbind (IsFalse a) (\<lambda>b. Inr (\<not> b))"

definition ToSet :: "tla_seq \<Rightarrow> tla_set go" where
  "ToSet s = gfold set_put s gm_empty"

definition Except :: "tla_record \<Rightarrow> string \<Rightarrow> TLA \<Rightarrow> tla_record" where
  "Except r k v = gm_update k v (gm_copy r gm_empty)"

text \<open>The loops run \<^verbatim>\<open>res && IsTrue(f(v))\<close>: once \<open>res\<close> is false, \<open>f\<close> is not called again.\<close>

definition BoundedForall :: "(string, TLA) iter \<Rightarrow> tla_set \<Rightarrow> (TLA \<Rightarrow> bool go) \<Rightarrow> bool go" where
  "BoundedForall it s f = gfold (\<lambda>(_, v) res. if res then f v else Inr False) (it s) True"

definition BoundedExists :: "(string, TLA) iter \<Rightarrow> tla_set \<Rightarrow> (TLA \<Rightarrow> bool go) \<Rightarrow> bool go" where
  "BoundedExists it s f = gfold (\<lambda>(_, v) res. if res then Inr True else f v) (it s) False"

definition FnConstruct :: "(string, TLA) iter \<Rightarrow> tla_set \<Rightarrow> (TLA \<Rightarrow> TLA go) \<Rightarrow> tla_record go" where
  "FnConstruct it s f =
     gfold (\<lambda>(_, v) res. gbind (as_String v) (\<lambda>k. gbind (f v) (\<lambda>y. Inr (gm_update k y res))))
       (it s) gm_empty"

definition FoldSeq :: "(TLA \<Rightarrow> TLA \<Rightarrow> TLA go) \<Rightarrow> TLA \<Rightarrow> tla_seq \<Rightarrow> TLA go" where
  "FoldSeq f base s = gfold f s base"

definition Remove :: "tla_seq \<Rightarrow> TLA \<Rightarrow> tla_seq" where
  "Remove s e = filter (\<lambda>v. \<not> Eq v e) s"

definition RemoveAt :: "tla_seq \<Rightarrow> go_int \<Rightarrow> tla_seq" where
  "RemoveAt s i = map snd (filter (\<lambda>(j, v). TLAIndex i \<noteq> of_nat j) (enumerate 0 s))"

definition SetToSeq :: "(string, TLA) iter \<Rightarrow> tla_set \<Rightarrow> tla_seq" where
  "SetToSeq it s = map snd (it s)"

definition MaxInt :: go_int where
  "MaxInt = 9223372036854775807"

definition MinInt :: go_int where
  "MinInt = - 9223372036854775808"

definition tla_Min :: "(string, TLA) iter \<Rightarrow> tla_set \<Rightarrow> go_int go" where
  "tla_Min it s =
     gfold (\<lambda>(_, v) res. gbind (as_Int v) (\<lambda>i. Inr (if i <s res then i else res))) (it s) MaxInt"

definition tla_Max :: "(string, TLA) iter \<Rightarrow> tla_set \<Rightarrow> go_int go" where
  "tla_Max it s =
     gfold (\<lambda>(_, v) res. gbind (as_Int v) (\<lambda>i. Inr (if res <s i then i else res))) (it s) MinInt"

fun IsPrefix :: "tla_seq \<Rightarrow> tla_seq \<Rightarrow> bool go" where
  "IsPrefix [] s = Inr True"
| "IsPrefix (p # ps) [] = Inl IndexOutOfRange"
| "IsPrefix (p # ps) (x # xs) = (if Eq p x then IsPrefix ps xs else Inr False)"

definition SelectSeq :: "tla_seq \<Rightarrow> (TLA \<Rightarrow> TLA go) \<Rightarrow> tla_seq go" where
  "SelectSeq s f =
     gfold (\<lambda>v res. gbind (f v) (\<lambda>t. gbind (IsTrue t) (\<lambda>b. Inr (if b then res @ [v] else res))))
       s []"

text \<open>The counter of the loop is a 64-bit integer; the loop ends when it exceeds \<open>upper\<close>.\<close>

partial_function (option) range_loop :: "go_int \<Rightarrow> go_int \<Rightarrow> tla_seq \<Rightarrow> tla_seq option" where
  "range_loop i upper res =
     (if i \<le>s upper then range_loop (i + 1) upper (res @ [integer i]) else Some res)"

definition RangeIncl :: "go_int \<Rightarrow> go_int \<Rightarrow> tla_set go option" where
  "RangeIncl lower upper = map_option mk_set (range_loop lower upper [])"

section \<open>Well-formed values\<close>

text \<open>
  The type invariant: no nil inside, maps in canonical form, and the key of every element of a
  set is the hash of the element.
\<close>

primrec wf_tla :: "TLA \<Rightarrow> bool" where
  "wf_tla NilTLA = False"
| "wf_tla (TSeq xs) = list_all id (map wf_tla xs)"
| "wf_tla (TRecord m) = (gm_wf m \<and> list_all snd (map (map_prod id wf_tla) m))"
| "wf_tla (TSet m) =
     (gm_wf m \<and> list_all snd (map (map_prod id wf_tla) m) \<and> (\<forall>(k, v) \<in> set m. TLA_String v = Inr k))"
| "wf_tla (TInt i) = True"
| "wf_tla (TBool b) = True"
| "wf_tla (TString s) = True"

text \<open>The set that the library builds from a list of strings.\<close>

definition str_set :: "string list \<Rightarrow> tla_set" where
  "str_set ss = fold (\<lambda>s. gm_update s (TString s)) ss gm_empty"

lemma wf_tla_Seq [simp]: "wf_tla (TSeq xs) \<longleftrightarrow> (\<forall>x \<in> set xs. wf_tla x)"
  by (auto simp: list_all_iff)

lemma wf_tla_Record [simp]: "wf_tla (TRecord m) \<longleftrightarrow> gm_wf m \<and> (\<forall>(k, v) \<in> set m. wf_tla v)"
  by (auto simp: list_all_iff)

lemma wf_tla_Set [simp]:
  "wf_tla (TSet m) \<longleftrightarrow>
     gm_wf m \<and> (\<forall>(k, v) \<in> set m. wf_tla v \<and> TLA_String v = Inr k)"
  by (auto simp: list_all_iff)

declare wf_tla.simps(2,3,4) [simp del]

section \<open>Evaluation rules\<close>

lemmas tla_defs [go_simps] =
  boolean_def integer_def str_def seq_def Append_def Eq_def Neq_def tla_Not_def And_def

lemma hash_str [simp, go_simps]: "hash (TString s) = Inr s"
  by (simp add: hash_def)

lemma set_put_str [simp, go_simps]: "set_put (TString s) m = Inr (gm_update s (TString s) m)"
  by (simp add: set_put_def)

lemma IndexInto_record [simp, go_simps]:
  "IndexInto (TRecord m) (TString k) = Inr (RecordIndex m k)"
  by (simp add: IndexInto_def)

lemma RecordIndex_lookup [go_simps]: "gm_lookup m k = Some v \<Longrightarrow> RecordIndex m k = v"
  by (simp add: RecordIndex_def)

lemma RecordIndex_Cons [simp, go_simps]:
  "RecordIndex ((k', v) # m) k = (if k = k' then v else RecordIndex m k)"
  by (simp add: RecordIndex_def)

lemma Except_eq: "gm_wf r \<Longrightarrow> Except r k v = gm_update k v r"
  by (simp add: Except_def)

lemma gm_wf_Except [simp]: "gm_wf (Except r k v)"
  by (simp add: Except_def)

lemma gm_lookup_Except:
  "gm_wf r \<Longrightarrow> gm_lookup (Except r k v) k' = (if k' = k then Some v else gm_lookup r k')"
  by (simp add: Except_def)

section \<open>Hashing\<close>

lemma gsequence_sorted_total:
  "(\<And>x. x \<in> set xs \<Longrightarrow> \<exists>y. f x = Inr y) \<Longrightarrow> \<exists>ys. gsequence (map f xs) = Inr ys"
proof (induction xs)
  case (Cons x xs)
  then show ?case by (fastforce simp: gbind_eq_Inr)
qed simp

text \<open>On well-formed values the hash is always defined.\<close>

lemma TLA_String_total: "wf_tla v \<Longrightarrow> \<exists>s. TLA_String v = Inr s"
proof (induction v)
  case (TSeq xs)
  then have "\<exists>ys. gsequence (map TLA_String xs) = Inr ys"
    by (intro gsequence_sorted_total) auto
  then show ?case by auto
next
  case (TRecord m)
  have "\<exists>ys. gsequence (map (\<lambda>(k, m). gbind m (\<lambda>v. Inr (k @ '' |-> '' @ v)))
         (sort_key fst (map (map_prod id TLA_String) m))) = Inr ys"
    using TRecord by (intro gsequence_sorted_total) (force simp: gbind_eq_Inr)
  then show ?case by auto
next
  case (TSet m)
  have "\<exists>ys. gsequence (map snd (sort_key fst (map (map_prod id TLA_String) m))) = Inr ys"
    using TSet by (intro gsequence_sorted_total) force
  then show ?case by auto
qed auto

lemma set_put_wf:
  assumes "wf_tla (TSet m)" and "wf_tla v"
  shows "\<exists>m'. set_put v m = Inr m' \<and> wf_tla (TSet m')"
proof -
  obtain k where k: "TLA_String v = Inr k"
    using assms(2) TLA_String_total by blast
  have "set (gm_update k v m) \<subseteq> insert (k, v) (set m)"
    by (induction m) auto
  then show ?thesis
    using assms k by (fastforce simp: set_put_def hash_def)
qed

lemma gfold_set_put_wf:
  "wf_tla (TSet m) \<Longrightarrow> \<forall>v \<in> set xs. wf_tla v \<Longrightarrow>
   \<exists>m'. gfold set_put xs m = Inr m' \<and> wf_tla (TSet m')"
proof (induction xs arbitrary: m)
  case (Cons x xs)
  then obtain m' where "set_put x m = Inr m'" "wf_tla (TSet m')"
    using set_put_wf by force
  then show ?case using Cons by simp
qed simp

lemma ToSet_wf: "\<forall>v \<in> set xs. wf_tla v \<Longrightarrow> \<exists>m. ToSet xs = Inr m \<and> wf_tla (TSet m)"
  unfolding ToSet_def by (rule gfold_set_put_wf) (simp_all add: gm_empty_def)

section \<open>Sets of strings\<close>

text \<open>
  The sets that the monitor builds hold strings, and on strings the hash is the identity; there
  the library implements mathematical sets.
\<close>

lemma gfold_set_put_str:
  "gfold set_put (map TString ss) m = Inr (fold (\<lambda>s. gm_update s (TString s)) ss m)"
  by (induction ss arbitrary: m) simp_all

lemma ToSet_str: "ToSet (map TString ss) = Inr (str_set ss)"
  by (simp add: ToSet_def str_set_def gfold_set_put_str)

lemma mk_set_str: "mk_set (map TString ss) = Inr (str_set ss)"
  by (simp add: mk_set_def str_set_def gfold_set_put_str)

lemma gm_wf_str_set [simp]: "gm_wf (str_set ss)"
proof -
  have "gm_wf m \<Longrightarrow> gm_wf (fold (\<lambda>s. gm_update s (TString s)) ss m)" for m
    by (induction ss arbitrary: m) auto
  then show ?thesis by (simp add: str_set_def)
qed

lemma gm_lookup_str_set:
  "gm_lookup (str_set ss) s = (if s \<in> set ss then Some (TString s) else None)"
proof -
  have "gm_lookup (fold (\<lambda>s. gm_update s (TString s)) ss m) s =
      (if s \<in> set ss then Some (TString s) else gm_lookup m s)" for m
    by (induction ss arbitrary: m) auto
  then show ?thesis by (simp add: str_set_def)
qed

lemma str_set_eq_iff: "str_set xs = str_set ys \<longleftrightarrow> set xs = set ys"
proof
  assume "str_set xs = str_set ys"
  then have "gm_lookup (str_set xs) s = gm_lookup (str_set ys) s" for s by simp
  then have "s \<in> set xs \<longleftrightarrow> s \<in> set ys" for s
    unfolding gm_lookup_str_set by (metis option.distinct(1))
  then show "set xs = set ys" by blast
next
  assume "set xs = set ys"
  then show "str_set xs = str_set ys"
    by (intro gm_ext) (auto simp: gm_lookup_str_set)
qed

lemma SetIn_str_set: "SetIn (TString s) (str_set ss) = Inr (s \<in> set ss)"
  by (simp add: SetIn_def gm_lookup_str_set)

lemma Cardinality_str_set: "Cardinality (str_set ss) = of_nat (card (set ss))"
proof -
  have "distinct (map fst (str_set ss))"
    by (simp add: gm_wf_distinct)
  moreover have "fst ` set (str_set ss) = set ss"
    unfolding set_eq_iff gm_keys_lookup gm_lookup_str_set by simp
  ultimately have "length (str_set ss) = card (set ss)"
    by (metis distinct_card length_map list.set_map)
  then show ?thesis by (simp add: Cardinality_def)
qed

lemma SetUnion_str_set: "SetUnion (str_set xs) (str_set ys) = str_set (xs @ ys)"
  by (rule gm_ext) (auto simp: SetUnion_def gm_lookup_copy gm_lookup_str_set)

end
