(* ===== verification/Monitor.thy ===== *)
theory Monitor
  imports TLA_Values
begin

text \<open>
  The run-time monitor of \<^verbatim>\<open>server/TwoPhaseCommitFull.go\<close> from line 402 on: the monitored state,
  the events recorded by the coordinator, one check per action of the TLA+ specification of
  two-phase commit, \<^verbatim>\<open>CheckTrace\<close> and the capture of states.

  A check evaluates its clauses in order. Each clause is a Boolean expression that may panic; if
  it is false the check calls \<^verbatim>\<open>fail\<close>, which panics because the package variable \<^verbatim>\<open>crash\<close> is
  true. The message of a failed check is modelled up to the clause (without the backslash of
  \<^verbatim>\<open>\notin\<close>); the values that the code prints after it are left out.
\<close>

section \<open>State and events\<close>

record State =
  who :: TLA
  actions :: TLA
  tmCommitted :: TLA
  outbox :: TLA
  inflight :: TLA
  tmPrepared :: TLA
  tmDecision :: TLA
  tmAborted :: TLA
  rmState :: TLA
  inbox :: TLA

datatype EventType =
    Initial
  | CSendPrepare
  | PHandlePrepare
  | CReceivePrepare
  | CReceiveAbort
  | CSendCommit
  | CSendAbort
  | PHandleCommit
  | CReceiveCommit
  | PHandleAbort
  | NetworkTakeMessage
  | NetworkDeliverMessage
  | InvalidEvent int

fun EventType_String :: "EventType \<Rightarrow> string go" where
  "EventType_String Initial = Inr ''Initial''"
| "EventType_String CSendPrepare = Inr ''CSendPrepare''"
| "EventType_String PHandlePrepare = Inr ''PHandlePrepare''"
| "EventType_String CReceivePrepare = Inr ''CReceivePrepare''"
| "EventType_String CReceiveAbort = Inr ''CReceiveAbort''"
| "EventType_String CSendCommit = Inr ''CSendCommit''"
| "EventType_String CSendAbort = Inr ''CSendAbort''"
| "EventType_String PHandleCommit = Inr ''PHandleCommit''"
| "EventType_String CReceiveCommit = Inr ''CReceiveCommit''"
| "EventType_String PHandleAbort = Inr ''PHandleAbort''"
| "EventType_String NetworkTakeMessage = Inr ''NetworkTakeMessage''"
| "EventType_String NetworkDeliverMessage = Inr ''NetworkDeliverMessage''"
| "EventType_String (InvalidEvent n) = Inl (Panicked (''invalid '' @ itoa n))"

record Event =
  etyp :: EventType
  params :: "TLA list"
  estate :: State
  efile :: string
  eline :: int

record Monitor =
  extra :: "Event list"
  events :: "Event list"

definition nil_state :: State where
  "nil_state = \<lparr>who = NilTLA, actions = NilTLA, tmCommitted = NilTLA, outbox = NilTLA,
     inflight = NilTLA, tmPrepared = NilTLA, tmDecision = NilTLA, tmAborted = NilTLA,
     rmState = NilTLA, inbox = NilTLA\<rparr>"

text \<open>The zero value \<^verbatim>\<open>Event{}\<close>.\<close>

definition zero_event :: Event where
  "zero_event = \<lparr>etyp = Initial, params = [], estate = nil_state, efile = [], eline = 0\<rparr>"

definition NewMonitor :: Monitor where
  "NewMonitor = \<lparr>extra = [], events = []\<rparr>"

definition Reset :: "Monitor \<Rightarrow> Monitor" where
  "Reset m = m\<lparr>events := []\<rparr>"

section \<open>Checks\<close>

text \<open>\<open>Inr None\<close> is the nil error, \<open>Inr (Some e)\<close> a returned error, \<open>Inl p\<close> a panic.\<close>

type_synonym check = "string option go"

definition crash :: bool where
  "crash = True"

definition fail :: "string \<Rightarrow> check" where
  "fail msg = (if crash then Inl (Panicked msg) else Inr (Some msg))"

definition require :: "string \<Rightarrow> bool go \<Rightarrow> check \<Rightarrow> check" where
  "require msg cond rest = gbind cond (\<lambda>b. if b then rest else fail msg)"

definition pre :: "string \<Rightarrow> nat \<Rightarrow> string \<Rightarrow> string" where
  "pre action i clause =
     ''precondition failed in '' @ action @ '' at '' @ itoa (int i) @ ''; '' @ clause"

definition post :: "string \<Rightarrow> nat \<Rightarrow> string \<Rightarrow> string" where
  "post action i clause =
     ''postcondition failed in '' @ action @ '' at '' @ itoa (int i) @ ''; '' @ clause"

subsection \<open>Expressions that the generator inlines\<close>

text \<open>\<^verbatim>\<open>ToSet(box[m.field])\<close> contains \<open>m\<close>.\<close>

definition box_has :: "TLA \<Rightarrow> TLA \<Rightarrow> string \<Rightarrow> bool go" where
  "box_has box m field =
     gbind (IndexInto m (str field)) (\<lambda>a.
     gbind (IndexInto box a) (\<lambda>q.
     gbind (as_Seq q) (\<lambda>xs.
     gbind (ToSet xs) (\<lambda>S. SetIn m S))))"

text \<open>\<^verbatim>\<open>[box EXCEPT ![m.field] = Append(box[m.field], m)]\<close>\<close>

definition box_append :: "TLA \<Rightarrow> TLA \<Rightarrow> string \<Rightarrow> TLA go" where
  "box_append box m field =
     gbind (as_Record box) (\<lambda>b.
     gbind (IndexInto m (str field)) (\<lambda>a.
     gbind (as_String a) (\<lambda>k.
     gbind (IndexInto box a) (\<lambda>q.
     gbind (as_Seq q) (\<lambda>xs.
       Inr (TRecord (Except b k (TSeq (Append xs m)))))))))"

text \<open>\<^verbatim>\<open>[box EXCEPT ![m.field] = Remove(box[m.field], m)]\<close>\<close>

definition box_remove :: "TLA \<Rightarrow> TLA \<Rightarrow> string \<Rightarrow> TLA go" where
  "box_remove box m field =
     gbind (as_Record box) (\<lambda>b.
     gbind (IndexInto m (str field)) (\<lambda>a.
     gbind (as_String a) (\<lambda>k.
     gbind (IndexInto box a) (\<lambda>q.
     gbind (as_Seq q) (\<lambda>xs.
       Inr (TRecord (Except b k (TSeq (Remove xs m)))))))))"

text \<open>\<^verbatim>\<open>Send(m)\<close>\<close>

definition Send :: "TLA \<Rightarrow> State \<Rightarrow> State \<Rightarrow> bool go" where
  "Send m p t =
     gbind (box_append (outbox p) m ''msource'') (\<lambda>ob.
       Inr (And (And (Eq (outbox t) ob) (Eq (inflight t) (inflight p))) (Eq (inbox t) (inbox p))))"

text \<open>\<^verbatim>\<open>Receive(m)\<close>\<close>

definition Receive :: "TLA \<Rightarrow> State \<Rightarrow> State \<Rightarrow> bool go" where
  "Receive m p t =
     gbind (box_has (inbox p) m ''mdest'') (\<lambda>h.
     gbind (box_remove (inbox p) m ''mdest'') (\<lambda>ib.
       Inr (And (And (And h (Eq (inbox t) ib)) (Eq (outbox t) (outbox p)))
         (Eq (inflight t) (inflight p)))))"

text \<open>\<^verbatim>\<open>Reply(out, inn)\<close>\<close>

definition Reply :: "TLA \<Rightarrow> TLA \<Rightarrow> State \<Rightarrow> State \<Rightarrow> bool go" where
  "Reply out inn p t =
     gbind (box_has (inbox p) inn ''mdest'') (\<lambda>h.
     gbind (box_remove (inbox p) inn ''mdest'') (\<lambda>ib.
     gbind (box_append (outbox p) out ''msource'') (\<lambda>ob.
       Inr (And (And (And h (Eq (inbox t) ib)) (Eq (outbox t) ob))
         (Eq (inflight t) (inflight p))))))"

text \<open>A message record of the specification, with its type, destination and source.\<close>

definition mk_msg :: "string \<Rightarrow> TLA \<Rightarrow> TLA \<Rightarrow> TLA go" where
  "mk_msg typ dest src =
     gbind (mk_record [str ''type'', str typ, str ''mdest'', dest, str ''msource'', src])
       (\<lambda>m. Inr (TRecord m))"

text \<open>\<^verbatim>\<open>LogAction(entry)\<close>: \<^verbatim>\<open>actions' = Append(actions, entry)\<close>\<close>

definition LogAction :: "TLA list \<Rightarrow> State \<Rightarrow> State \<Rightarrow> bool go" where
  "LogAction entry p t =
     gbind (as_Seq (actions p)) (\<lambda>xs. Inr (Eq (actions t) (TSeq (Append xs (seq entry)))))"

definition LogActor :: "TLA \<Rightarrow> State \<Rightarrow> bool go" where
  "LogActor a t = Inr (Eq (who t) a)"

definition tm_append :: "TLA \<Rightarrow> TLA \<Rightarrow> TLA \<Rightarrow> bool go" where
  "tm_append new old r = gbind (as_Seq old) (\<lambda>xs. Inr (Eq new (TSeq (Append xs r))))"

definition tm_notin :: "TLA \<Rightarrow> TLA \<Rightarrow> bool go" where
  "tm_notin r old = gbind (as_Seq old) (\<lambda>xs. gbind (ToSet xs) (SetNotIn r))"

text \<open>\<^verbatim>\<open>ToSet(tmPrepared) = RM\<close>, where the constant \<^verbatim>\<open>RM\<close> is the set of \<^verbatim>\<open>r1\<close> and \<^verbatim>\<open>r2\<close>.\<close>

definition all_prepared :: "State \<Rightarrow> bool go" where
  "all_prepared p =
     gbind (as_Seq (tmPrepared p)) (\<lambda>xs.
     gbind (ToSet xs) (\<lambda>S.
     gbind (mk_set [str ''r1'', str ''r2'']) (\<lambda>rm. Inr (Eq (TSet S) (TSet rm)))))"

subsection \<open>One check per action\<close>

text \<open>The boxes and the participants' states in the initial state.\<close>

definition empty_boxes :: "TLA go" where
  "empty_boxes =
     gbind (mk_record [str ''r1'', seq [], str ''r2'', seq [], str ''coordinator'', seq []])
       (\<lambda>m. Inr (TRecord m))"

definition all_working :: "TLA go" where
  "all_working =
     gbind (mk_record [str ''r1'', str ''working'', str ''r2'', str ''working''])
       (\<lambda>m. Inr (TRecord m))"

definition CheckInitial :: "nat \<Rightarrow> Event \<Rightarrow> Event \<Rightarrow> check" where
  \<open>CheckInitial i prev this =
  (let t = estate this in
   require (pre ''initial'' i ''tmAborted = <<>>'')
     (Inr (Eq (tmAborted t) (seq []))) (
   require (pre ''initial'' i ''tmCommitted = <<>>'')
     (Inr (Eq (tmCommitted t) (seq []))) (
   require (pre ''initial'' i ''tmPrepared = <<>>'')
     (Inr (Eq (tmPrepared t) (seq []))) (
   require (pre ''initial'' i ''tmDecision = "none"'')
     (Inr (Eq (tmDecision t) (str ''none''))) (
   require (pre ''initial'' i ''rmState = [r1 |-> "working", r2 |-> "working"]'')
     (gbind all_working (\<lambda>w. Inr (Eq (rmState t) w))) (
   require (pre ''initial'' i ''actions = <<>>'')
     (Inr (Eq (actions t) (seq []))) (
   require (pre ''initial'' i ''outbox = [r1 |-> <<>>, r2 |-> <<>>, coordinator |-> <<>>]'')
     (gbind empty_boxes (\<lambda>b. Inr (Eq (outbox t) b))) (
   require (pre ''initial'' i ''inbox = [r1 |-> <<>>, r2 |-> <<>>, coordinator |-> <<>>]'')
     (gbind empty_boxes (\<lambda>b. Inr (Eq (inbox t) b))) (
   require (pre ''initial'' i ''who = "none"'')
     (Inr (Eq (who t) (str ''none''))) (
   require (pre ''initial'' i ''inflight = <<>>'')
     (Inr (Eq (inflight t) (seq []))) (
   Inr None)))))))))))\<close>

definition CheckCSendPrepare :: "TLA \<Rightarrow> nat \<Rightarrow> Event \<Rightarrow> Event \<Rightarrow> check" where
  \<open>CheckCSendPrepare r i prev this =
  (let p = estate prev; t = estate this in
   require (pre ''CSendPrepare'' i ''tmDecision = "none"'')
     (Inr (Eq (tmDecision p) (str ''none''))) (
   require (pre ''CSendPrepare'' i ''ToSet(tmPrepared) /= RM'')
     (gbind (all_prepared p) (\<lambda>b. Inr (tla_Not b))) (
   require (pre ''CSendPrepare'' i ''Send(["type" |-> "Prepare", "mdest" |-> r, "msource" |-> "coordinator"])'')
     (gbind (mk_msg ''Prepare'' r (str ''coordinator'')) (\<lambda>m. Send m p t)) (
   require (pre ''CSendPrepare'' i ''UNCHANGED(<<rmState>>)'')
     (Inr (Eq (rmState t) (rmState p))) (
   require (pre ''CSendPrepare'' i ''UNCHANGED(<<tmPrepared, tmCommitted, tmAborted, tmDecision>>)'')
     (Inr (And (And (And (Eq (tmPrepared t) (tmPrepared p)) (Eq (tmCommitted t) (tmCommitted p))) (Eq (tmAborted t) (tmAborted p))) (Eq (tmDecision t) (tmDecision p)))) (
   require (pre ''CSendPrepare'' i ''LogAction(<<"CSendPrepare", r>>)'')
     (LogAction [str ''CSendPrepare'', r] p t) (
   require (pre ''CSendPrepare'' i ''LogActor("coordinator")'')
     (LogActor (str ''coordinator'') t) (
   Inr None))))))))\<close>

text \<open>One disjunct of the transition of \<^verbatim>\<open>PHandlePrepare\<close>: the new state and the reply.\<close>

definition prepare_branch :: "string \<Rightarrow> string \<Rightarrow> TLA \<Rightarrow> State \<Rightarrow> State \<Rightarrow> bool go" where
  "prepare_branch newst reply r p t =
     gbind (as_Record (rmState p)) (\<lambda>rs.
     gbind (as_String r) (\<lambda>k.
     gbind (mk_msg reply (str ''coordinator'') r) (\<lambda>out.
     gbind (mk_msg ''Prepare'' r (str ''coordinator'')) (\<lambda>inn.
     gbind (Reply out inn p t) (\<lambda>b.
       Inr (And (Eq (rmState t) (TRecord (Except rs k (str newst)))) b))))))"

definition CheckPHandlePrepare :: "TLA \<Rightarrow> nat \<Rightarrow> Event \<Rightarrow> Event \<Rightarrow> check" where
  \<open>CheckPHandlePrepare r i prev this =
  (let p = estate prev; t = estate this in
   require (pre ''PHandlePrepare'' i ''rmState[r] = "working"'')
     (gbind (IndexInto (rmState p) r) (\<lambda>x. Inr (Eq x (str ''working'')))) (
   require (pre ''PHandlePrepare'' i ''((rmState' = [rmState EXCEPT ![r] = "prepared"], Prepared) or (rmState' = [rmState EXCEPT ![r] = "aborted"], Aborted))'')
     (gbind (prepare_branch ''prepared'' ''Prepared'' r p t) (\<lambda>b.
      if b then Inr True else prepare_branch ''aborted'' ''Aborted'' r p t)) (
   require (pre ''PHandlePrepare'' i ''UNCHANGED(<<tmPrepared, tmCommitted, tmAborted, tmDecision>>)'')
     (Inr (And (And (And (Eq (tmPrepared t) (tmPrepared p)) (Eq (tmCommitted t) (tmCommitted p))) (Eq (tmAborted t) (tmAborted p))) (Eq (tmDecision t) (tmDecision p)))) (
   require (pre ''PHandlePrepare'' i ''LogAction(<<"PHandlePrepare", r, rmState'[r]>>)'')
     (gbind (IndexInto (rmState t) r) (\<lambda>x. LogAction [str ''PHandlePrepare'', r, x] p t)) (
   require (pre ''PHandlePrepare'' i ''LogActor(r)'')
     (LogActor r t) (
   Inr None))))))\<close>

definition CheckCReceivePrepare :: "TLA \<Rightarrow> nat \<Rightarrow> Event \<Rightarrow> Event \<Rightarrow> check" where
  \<open>CheckCReceivePrepare r i prev this =
  (let p = estate prev; t = estate this in
   require (pre ''CReceivePrepare'' i ''r notin ToSet(tmPrepared)'')
     (tm_notin r (tmPrepared p)) (
   require (pre ''CReceivePrepare'' i ''Receive(["type" |-> "Prepared", "mdest" |-> "coordinator", "msource" |-> r])'')
     (gbind (mk_msg ''Prepared'' (str ''coordinator'') r) (\<lambda>m. Receive m p t)) (
   require (post ''CReceivePrepare'' i ''tmPrepared' = Append(tmPrepared, r)'')
     (tm_append (tmPrepared t) (tmPrepared p) r) (
   require (pre ''CReceivePrepare'' i ''UNCHANGED(<<rmState>>)'')
     (Inr (Eq (rmState t) (rmState p))) (
   require (pre ''CReceivePrepare'' i ''UNCHANGED(<<tmCommitted, tmAborted, tmDecision>>)'')
     (Inr (And (And (Eq (tmCommitted t) (tmCommitted p)) (Eq (tmAborted t) (tmAborted p))) (Eq (tmDecision t) (tmDecision p)))) (
   require (pre ''CReceivePrepare'' i ''LogAction(<<"CReceivePrepare", r>>)'')
     (LogAction [str ''CReceivePrepare'', r] p t) (
   require (pre ''CReceivePrepare'' i ''LogActor("coordinator")'')
     (LogActor (str ''coordinator'') t) (
   Inr None))))))))\<close>

definition CheckCReceiveAbort :: "TLA \<Rightarrow> nat \<Rightarrow> Event \<Rightarrow> Event \<Rightarrow> check" where
  \<open>CheckCReceiveAbort r i prev this =
  (let p = estate prev; t = estate this in
   require (pre ''CReceiveAbort'' i ''Receive(["type" |-> "Aborted", "msource" |-> r, "mdest" |-> "coordinator"])'')
     (gbind (mk_msg ''Aborted'' (str ''coordinator'') r) (\<lambda>m. Receive m p t)) (
   require (pre ''CReceiveAbort'' i ''r notin ToSet(tmAborted)'')
     (tm_notin r (tmAborted p)) (
   require (post ''CReceiveAbort'' i ''tmAborted' = Append(tmAborted, r)'')
     (tm_append (tmAborted t) (tmAborted p) r) (
   require (pre ''CReceiveAbort'' i ''UNCHANGED(<<rmState>>)'')
     (Inr (Eq (rmState t) (rmState p))) (
   require (pre ''CReceiveAbort'' i ''UNCHANGED(<<tmPrepared, tmCommitted, tmDecision>>)'')
     (Inr (And (And (Eq (tmPrepared t) (tmPrepared p)) (Eq (tmCommitted t) (tmCommitted p))) (Eq (tmDecision t) (tmDecision p)))) (
   require (pre ''CReceiveAbort'' i ''LogAction(<<"CReceiveAbort", r>>)'')
     (LogAction [str ''CReceiveAbort'', r] p t) (
   require (pre ''CReceiveAbort'' i ''LogActor("coordinator")'')
     (LogActor (str ''coordinator'') t) (
   Inr None))))))))\<close>

definition CheckCSendCommit :: "TLA \<Rightarrow> nat \<Rightarrow> Event \<Rightarrow> Event \<Rightarrow> check" where
  \<open>CheckCSendCommit r i prev this =
  (let p = estate prev; t = estate this in
   require (pre ''CSendCommit'' i ''ToSet(tmPrepared) = RM'')
     (all_prepared p) (
   require (pre ''CSendCommit'' i ''tmDecision /= "abort"'')
     (Inr (Neq (tmDecision p) (str ''abort''))) (
   require (post ''CSendCommit'' i ''tmDecision' = "commit"'')
     (Inr (Eq (tmDecision t) (str ''commit''))) (
   require (pre ''CSendCommit'' i ''Send(["type" |-> "Commit", "mdest" |-> r, "msource" |-> "coordinator"])'')
     (gbind (mk_msg ''Commit'' r (str ''coordinator'')) (\<lambda>m. Send m p t)) (
   require (pre ''CSendCommit'' i ''UNCHANGED(<<rmState>>)'')
     (Inr (Eq (rmState t) (rmState p))) (
   require (pre ''CSendCommit'' i ''UNCHANGED(<<tmPrepared, tmCommitted, tmAborted>>)'')
     (Inr (And (And (Eq (tmPrepared t) (tmPrepared p)) (Eq (tmCommitted t) (tmCommitted p))) (Eq (tmAborted t) (tmAborted p)))) (
   require (pre ''CSendCommit'' i ''LogAction(<<"CSendCommit", r>>)'')
     (LogAction [str ''CSendCommit'', r] p t) (
   require (pre ''CSendCommit'' i ''LogActor("coordinator")'')
     (LogActor (str ''coordinator'') t) (
   Inr None)))))))))\<close>

definition CheckCSendAbort :: "TLA \<Rightarrow> nat \<Rightarrow> Event \<Rightarrow> Event \<Rightarrow> check" where
  \<open>CheckCSendAbort r i prev this =
  (let p = estate prev; t = estate this in
   require (pre ''CSendAbort'' i ''Len(tmAborted) > 0'')
     (gbind (as_Seq (tmAborted p)) (\<lambda>xs. Inr (IntGt (Len xs) 0))) (
   require (pre ''CSendAbort'' i ''tmDecision /= "commit"'')
     (Inr (Neq (tmDecision p) (str ''commit''))) (
   require (post ''CSendAbort'' i ''tmDecision' = "abort"'')
     (Inr (Eq (tmDecision t) (str ''abort''))) (
   require (pre ''CSendAbort'' i ''r notin ToSet(tmAborted)'')
     (tm_notin r (tmAborted p)) (
   require (pre ''CSendAbort'' i ''Send(["type" |-> "Abort", "mdest" |-> r, "msource" |-> "coordinator"])'')
     (gbind (mk_msg ''Abort'' r (str ''coordinator'')) (\<lambda>m. Send m p t)) (
   require (pre ''CSendAbort'' i ''UNCHANGED(<<rmState>>)'')
     (Inr (Eq (rmState t) (rmState p))) (
   require (pre ''CSendAbort'' i ''UNCHANGED(<<tmPrepared, tmCommitted, tmAborted>>)'')
     (Inr (And (And (Eq (tmPrepared t) (tmPrepared p)) (Eq (tmCommitted t) (tmCommitted p))) (Eq (tmAborted t) (tmAborted p)))) (
   require (pre ''CSendAbort'' i ''LogAction(<<"CSendAbort", r>>)'')
     (LogAction [str ''CSendAbort'', r] p t) (
   require (pre ''CSendAbort'' i ''LogActor("coordinator")'')
     (LogActor (str ''coordinator'') t) (
   Inr None))))))))))\<close>

definition CheckPHandleCommit :: "TLA \<Rightarrow> nat \<Rightarrow> Event \<Rightarrow> Event \<Rightarrow> check" where
  \<open>CheckPHandleCommit r i prev this =
  (let p = estate prev; t = estate this in
   require (pre ''PHandleCommit'' i ''rmState[r] = "prepared"'')
     (gbind (IndexInto (rmState p) r) (\<lambda>x. Inr (Eq x (str ''prepared'')))) (
   require (post ''PHandleCommit'' i ''rmState' = [rmState EXCEPT ![r] = "committed"]'')
     (gbind (as_Record (rmState p)) (\<lambda>rs. gbind (as_String r) (\<lambda>k.
      Inr (Eq (rmState t) (TRecord (Except rs k (str ''committed''))))))) (
   require (pre ''PHandleCommit'' i ''Reply(["type" |-> "Committed", "msource" |-> r, "mdest" |-> "coordinator"], ["type" |-> "Commit", "mdest" |-> r, "msource" |-> "coordinator"])'')
     (gbind (mk_msg ''Committed'' (str ''coordinator'') r) (\<lambda>out.
      gbind (mk_msg ''Commit'' r (str ''coordinator'')) (\<lambda>inn. Reply out inn p t))) (
   require (pre ''PHandleCommit'' i ''UNCHANGED(<<tmPrepared, tmCommitted, tmAborted, tmDecision>>)'')
     (Inr (And (And (And (Eq (tmPrepared t) (tmPrepared p)) (Eq (tmCommitted t) (tmCommitted p))) (Eq (tmAborted t) (tmAborted p))) (Eq (tmDecision t) (tmDecision p)))) (
   require (pre ''PHandleCommit'' i ''LogAction(<<"PHandleCommit", r>>)'')
     (LogAction [str ''PHandleCommit'', r] p t) (
   require (pre ''PHandleCommit'' i ''LogActor(r)'')
     (LogActor r t) (
   Inr None)))))))\<close>

definition CheckCReceiveCommit :: "TLA \<Rightarrow> nat \<Rightarrow> Event \<Rightarrow> Event \<Rightarrow> check" where
  \<open>CheckCReceiveCommit r i prev this =
  (let p = estate prev; t = estate this in
   require (pre ''CReceiveCommit'' i ''Receive(["type" |-> "Committed", "msource" |-> r, "mdest" |-> "coordinator"])'')
     (gbind (mk_msg ''Committed'' (str ''coordinator'') r) (\<lambda>m. Receive m p t)) (
   require (pre ''CReceiveCommit'' i ''r notin ToSet(tmCommitted)'')
     (tm_notin r (tmCommitted p)) (
   require (post ''CReceiveCommit'' i ''tmCommitted' = Append(tmCommitted, r)'')
     (tm_append (tmCommitted t) (tmCommitted p) r) (
   require (pre ''CReceiveCommit'' i ''UNCHANGED(<<rmState>>)'')
     (Inr (Eq (rmState t) (rmState p))) (
   require (pre ''CReceiveCommit'' i ''UNCHANGED(<<tmPrepared, tmAborted, tmDecision>>)'')
     (Inr (And (And (Eq (tmPrepared t) (tmPrepared p)) (Eq (tmAborted t) (tmAborted p))) (Eq (tmDecision t) (tmDecision p)))) (
   require (pre ''CReceiveCommit'' i ''LogAction(<<"CReceiveCommit", r>>)'')
     (LogAction [str ''CReceiveCommit'', r] p t) (
   require (pre ''CReceiveCommit'' i ''LogActor("coordinator")'')
     (LogActor (str ''coordinator'') t) (
   Inr None))))))))\<close>

definition CheckPHandleAbort :: "TLA \<Rightarrow> nat \<Rightarrow> Event \<Rightarrow> Event \<Rightarrow> check" where
  \<open>CheckPHandleAbort r i prev this =
  (let p = estate prev; t = estate this in
   require (pre ''PHandleAbort'' i ''rmState[r] in {"working", "prepared"}'')
     (gbind (IndexInto (rmState p) r) (\<lambda>x.
      gbind (mk_set [str ''working'', str ''prepared'']) (SetIn x))) (
   require (post ''PHandleAbort'' i ''rmState' = [rmState EXCEPT ![r] = "aborted"]'')
     (gbind (as_Record (rmState p)) (\<lambda>rs. gbind (as_String r) (\<lambda>k.
      Inr (Eq (rmState t) (TRecord (Except rs k (str ''aborted''))))))) (
   require (pre ''PHandleAbort'' i ''Reply(["type" |-> "Aborted", "msource" |-> r, "mdest" |-> "coordinator"], ["type" |-> "Abort", "mdest" |-> r, "msource" |-> "coordinator"])'')
     (gbind (mk_msg ''Aborted'' (str ''coordinator'') r) (\<lambda>out.
      gbind (mk_msg ''Abort'' r (str ''coordinator'')) (\<lambda>inn. Reply out inn p t))) (
   require (pre ''PHandleAbort'' i ''UNCHANGED(<<tmPrepared, tmCommitted, tmAborted, tmDecision>>)'')
     (Inr (And (And (And (Eq (tmPrepared t) (tmPrepared p)) (Eq (tmCommitted t) (tmCommitted p))) (Eq (tmAborted t) (tmAborted p))) (Eq (tmDecision t) (tmDecision p)))) (
   require (pre ''PHandleAbort'' i ''LogAction(<<"PHandleAbort", r>>)'')
     (LogAction [str ''PHandleAbort'', r] p t) (
   require (pre ''PHandleAbort'' i ''LogActor(r)'')
     (LogActor r t) (
   Inr None)))))))\<close>

definition CheckNetworkTakeMessage :: "TLA \<Rightarrow> nat \<Rightarrow> Event \<Rightarrow> Event \<Rightarrow> check" where
  \<open>CheckNetworkTakeMessage msg i prev this =
  (let p = estate prev; t = estate this in
   require (pre ''NetworkTakeMessage'' i ''msg in ToSet(outbox[msg.msource])'')
     (box_has (outbox p) msg ''msource'') (
   require (pre ''NetworkTakeMessage'' i ''UNCHANGED(inflight)'')
     (Inr (Eq (inflight t) (inflight p))) (
   require (post ''NetworkTakeMessage'' i ''outbox' = [outbox EXCEPT ![msg.msource] = Remove(outbox[msg.msource], msg)]'')
     (gbind (box_remove (outbox p) msg ''msource'') (\<lambda>ob. Inr (Eq (outbox t) ob))) (
   require (pre ''NetworkTakeMessage'' i ''LogAction(<<"NetworkTakeMessage", msg>>)'')
     (LogAction [str ''NetworkTakeMessage'', msg] p t) (
   require (pre ''NetworkTakeMessage'' i ''LogActor("Network")'')
     (LogActor (str ''Network'') t) (
   require (pre ''NetworkTakeMessage'' i ''UNCHANGED(inbox)'')
     (Inr (Eq (inbox t) (inbox p))) (
   Inr None)))))))\<close>

definition CheckNetworkDeliverMessage :: "TLA \<Rightarrow> nat \<Rightarrow> Event \<Rightarrow> Event \<Rightarrow> check" where
  \<open>CheckNetworkDeliverMessage msg i prev this =
  (let p = estate prev; t = estate this in
   require (pre ''NetworkDeliverMessage'' i ''UNCHANGED(inflight)'')
     (Inr (Eq (inflight t) (inflight p))) (
   require (post ''NetworkDeliverMessage'' i ''inbox' = [inbox EXCEPT ![msg.mdest] = Append(inbox[msg.mdest], msg)]'')
     (gbind (box_append (inbox p) msg ''mdest'') (\<lambda>ib. Inr (Eq (inbox t) ib))) (
   require (pre ''NetworkDeliverMessage'' i ''LogAction(<<"NetworkDeliverMessage", msg>>)'')
     (LogAction [str ''NetworkDeliverMessage'', msg] p t) (
   require (pre ''NetworkDeliverMessage'' i ''LogActor("Network")'')
     (LogActor (str ''Network'') t) (
   require (pre ''NetworkDeliverMessage'' i ''UNCHANGED(outbox)'')
     (Inr (Eq (outbox t) (outbox p))) (
   Inr None))))))\<close>

section \<open>Checking a trace\<close>

text \<open>\<^verbatim>\<open>this.params[0]\<close>\<close>

definition param0 :: "Event \<Rightarrow> TLA go" where
  "param0 e = (case params e of [] \<Rightarrow> Inl IndexOutOfRange | x # _ \<Rightarrow> Inr x)"

definition CheckEvent :: "nat \<Rightarrow> Event \<Rightarrow> Event \<Rightarrow> check" where
  "CheckEvent i prev this =
     (case etyp this of
        Initial \<Rightarrow> CheckInitial i zero_event this
      | CSendPrepare \<Rightarrow> gbind (param0 this) (\<lambda>r. CheckCSendPrepare r i prev this)
      | PHandlePrepare \<Rightarrow> gbind (param0 this) (\<lambda>r. CheckPHandlePrepare r i prev this)
      | CReceivePrepare \<Rightarrow> gbind (param0 this) (\<lambda>r. CheckCReceivePrepare r i prev this)
      | CReceiveAbort \<Rightarrow> gbind (param0 this) (\<lambda>r. CheckCReceiveAbort r i prev this)
      | CSendCommit \<Rightarrow> gbind (param0 this) (\<lambda>r. CheckCSendCommit r i prev this)
      | CSendAbort \<Rightarrow> gbind (param0 this) (\<lambda>r. CheckCSendAbort r i prev this)
      | PHandleCommit \<Rightarrow> gbind (param0 this) (\<lambda>r. CheckPHandleCommit r i prev this)
      | CReceiveCommit \<Rightarrow> gbind (param0 this) (\<lambda>r. CheckCReceiveCommit r i prev this)
      | PHandleAbort \<Rightarrow> gbind (param0 this) (\<lambda>r. CheckPHandleAbort r i prev this)
      | NetworkTakeMessage \<Rightarrow> gbind (param0 this) (\<lambda>r. CheckNetworkTakeMessage r i prev this)
      | NetworkDeliverMessage \<Rightarrow> gbind (param0 this) (\<lambda>r. CheckNetworkDeliverMessage r i prev this)
      | InvalidEvent n \<Rightarrow> Inr None)"

text \<open>The loop of \<^verbatim>\<open>CheckTrace\<close>: \<open>i\<close> is the position, \<open>prev\<close> the event before it.\<close>

fun check_events :: "nat \<Rightarrow> Event \<Rightarrow> Event list \<Rightarrow> check" where
  "check_events i prev [] = Inr None"
| "check_events i prev (this # rest) =
     gbind (CheckEvent i (if i = 0 then this else prev) this) (\<lambda>e.
       case e of Some err \<Rightarrow> Inr (Some err) | None \<Rightarrow> check_events (Suc i) this rest)"

definition CheckTrace :: "Monitor \<Rightarrow> check" where
  "CheckTrace m = check_events 0 zero_event (events m)"

section \<open>Capturing states\<close>

definition CaptureVariable :: "Monitor \<Rightarrow> State \<Rightarrow> EventType \<Rightarrow> TLA list \<Rightarrow> Monitor" where
  "CaptureVariable m v typ args =
     m\<lparr>extra := extra m @ [\<lparr>etyp = typ, params = args, estate = v, efile = [], eline = 0\<rparr>]\<rparr>"

text \<open>
  Comparing two interface values: values of the same dynamic type panic when that type holds a
  slice or a map.
\<close>

fun iface_neq :: "TLA \<Rightarrow> TLA \<Rightarrow> bool go" where
  "iface_neq (TSeq _) (TSeq _) = Inl UncomparableTypes"
| "iface_neq (TRecord _) (TRecord _) = Inl UncomparableTypes"
| "iface_neq (TSet _) (TSet _) = Inl UncomparableTypes"
| "iface_neq a b = Inr (a \<noteq> b)"

text \<open>The position of the first captured argument that differs from the actual one.\<close>

fun args_mismatch :: "nat \<Rightarrow> TLA list \<Rightarrow> TLA list \<Rightarrow> nat option go" where
  "args_mismatch i [] args = Inr None"
| "args_mismatch i (p # ps) [] = Inl IndexOutOfRange"
| "args_mismatch i (p # ps) (a # as) =
     gbind (iface_neq p a) (\<lambda>ne. if ne then Inr (Some i) else args_mismatch (Suc i) ps as)"

definition unless_nil :: "TLA \<Rightarrow> TLA \<Rightarrow> TLA" where
  "unless_nil new old = (if new \<noteq> NilTLA then new else old)"

definition override_state :: "State \<Rightarrow> State \<Rightarrow> State" where
  "override_state c v =
     \<lparr>who = unless_nil (who v) (who c),
      actions = unless_nil (actions v) (actions c),
      tmCommitted = unless_nil (tmCommitted v) (tmCommitted c),
      outbox = unless_nil (outbox v) (outbox c),
      inflight = unless_nil (inflight v) (inflight c),
      tmPrepared = unless_nil (tmPrepared v) (tmPrepared c),
      tmDecision = unless_nil (tmDecision v) (tmDecision c),
      tmAborted = unless_nil (tmAborted v) (tmAborted c),
      rmState = unless_nil (rmState v) (rmState c),
      inbox = unless_nil (inbox v) (inbox c)\<rparr>"

text \<open>\<open>Inl e\<close> inside the monad is the error that \<^verbatim>\<open>CaptureState\<close> returns early.\<close>

fun apply_extra :: "Event list \<Rightarrow> EventType \<Rightarrow> TLA list \<Rightarrow> State \<Rightarrow> (string + State) go" where
  "apply_extra [] typ args c = Inr (Inr c)"
| "apply_extra (v # vs) typ args c =
     (if etyp v \<noteq> typ then Inr (Inl ''type did not match'')
      else gbind (args_mismatch 0 (params v) args) (\<lambda>r.
        case r of
          Some i \<Rightarrow> Inr (Inl (''arg '' @ itoa (int i) @ '' did not match''))
        | None \<Rightarrow> apply_extra vs typ args (override_state c (estate v))))"

text \<open>
  The call site, which \<^verbatim>\<open>getFileLine\<close> reads off the Go stack, is an argument. The result is the
  returned error and the monitor.
\<close>

definition CaptureState ::
    "string \<times> int \<Rightarrow> Monitor \<Rightarrow> State \<Rightarrow> EventType \<Rightarrow> TLA list \<Rightarrow> (string option \<times> Monitor) go" where
  "CaptureState site m c typ args =
     gbind (apply_extra (extra m) typ args c) (\<lambda>r.
       case r of
         Inl e \<Rightarrow> Inr (Some e, m)
       | Inr c' \<Rightarrow>
           Inr (None, m\<lparr>extra := [],
             events := events m @ [\<lparr>etyp = typ, params = args, estate = c',
               efile = fst site, eline = snd site\<rparr>]\<rparr>))"

section \<open>Evaluation rules\<close>

lemma require_True [simp, go_simps]: "require msg (Inr True) rest = rest"
  by (simp add: require_def)

lemma require_False [simp, go_simps]: "require msg (Inr False) rest = Inl (Panicked msg)"
  by (simp add: require_def fail_def crash_def)

lemma require_panic [simp, go_simps]: "require msg (Inl p) rest = Inl p"
  by (simp add: require_def)

lemma require_ok_iff:
  "require msg cond rest = Inr None \<longleftrightarrow> cond = Inr True \<and> rest = Inr None"
  by (cases cond) (auto simp: require_def fail_def crash_def)

text \<open>
  A check that does not panic accepts: \<open>fail\<close> never returns an error, since \<open>crash\<close> is set.
\<close>

lemma require_no_error: "rest \<noteq> Inr (Some e) \<Longrightarrow> require msg cond rest \<noteq> Inr (Some e)"
  by (cases cond) (auto simp: require_def fail_def crash_def)

lemma check_events_append:
  "check_events i prev (es @ fs) =
     gbind (check_events i prev es) (\<lambda>e.
       case e of
         Some err \<Rightarrow> Inr (Some err)
       | None \<Rightarrow> check_events (i + length es) (if es = [] then prev else last es) fs)"
proof (induction es arbitrary: i prev)
  case Nil
  then show ?case by (simp add: gbind_def)
next
  case (Cons e es)
  then show ?case
    by (cases "CheckEvent i (if i = 0 then e else prev) e") (auto split: option.splits)
qed

lemma check_events_snoc:
  assumes "check_events 0 zero_event es = Inr None" and "es \<noteq> []"
    and "CheckEvent (length es) (last es) e = Inr None"
  shows "check_events 0 zero_event (es @ [e]) = Inr None"
  using assms by (simp add: check_events_append)

text \<open>With nothing captured in advance, \<^verbatim>\<open>CaptureState\<close> records exactly the state it is given.\<close>

lemma CaptureState_plain:
  "extra m = [] \<Longrightarrow> CaptureState site m c typ args =
     Inr (None, m\<lparr>events := events m @ [\<lparr>etyp = typ, params = args, estate = c,
       efile = fst site, eline = snd site\<rparr>]\<rparr>)"
  by (cases m) (simp add: CaptureState_def)

end
