(* ===== verification/Refine.thy ===== *)
theory Refine
  imports Monitor
begin

text \<open>
  \<^verbatim>\<open>server/refine.go\<close>: how the coordinator's protocol messages and its starting point are
  written as TLA+ values for the monitor.
\<close>

definition RefineParty :: "nat \<Rightarrow> TLA" where
  "RefineParty pid = str (''r'' @ itoa (int pid + 1))"

definition RefineProposeMsg :: "nat \<Rightarrow> TLA go" where
  "RefineProposeMsg pid =
     gbind (mk_record [str ''type'', str ''Prepare'', str ''msource'', str ''coordinator'',
       str ''mdest'', RefineParty pid]) (\<lambda>m. Inr (TRecord m))"

definition RefineProposeReply :: "nat \<Rightarrow> TLA go" where
  "RefineProposeReply pid =
     gbind (mk_record [str ''type'', str ''Prepared'', str ''mdest'', str ''coordinator'',
       str ''msource'', RefineParty pid]) (\<lambda>m. Inr (TRecord m))"

definition RefineAbortedMsg :: "nat \<Rightarrow> TLA go" where
  "RefineAbortedMsg pid =
     gbind (mk_record [str ''type'', str ''Aborted'', str ''mdest'', str ''coordinator'',
       str ''msource'', RefineParty pid]) (\<lambda>m. Inr (TRecord m))"

definition RefineCommitMsg :: "nat \<Rightarrow> TLA go" where
  "RefineCommitMsg pid =
     gbind (mk_record [str ''type'', str ''Commit'', str ''msource'', str ''coordinator'',
       str ''mdest'', RefineParty pid]) (\<lambda>m. Inr (TRecord m))"

definition RefineCommittedMsg :: "nat \<Rightarrow> TLA go" where
  "RefineCommittedMsg pid =
     gbind (mk_record [str ''type'', str ''Committed'', str ''mdest'', str ''coordinator'',
       str ''msource'', RefineParty pid]) (\<lambda>m. Inr (TRecord m))"

definition Starting :: "State go" where
  "Starting =
     gbind (mk_record [str ''coordinator'', seq [], str ''r1'', seq [], str ''r2'', seq []]) (\<lambda>ib.
     gbind (mk_record [str ''coordinator'', seq [], str ''r1'', seq [], str ''r2'', seq []]) (\<lambda>ob.
     gbind (mk_record [str ''r1'', str ''working'', str ''r2'', str ''working'']) (\<lambda>rm.
       Inr \<lparr>who = str ''none'', actions = seq [], tmCommitted = seq [], outbox = TRecord ob,
         inflight = seq [], tmPrepared = seq [], tmDecision = str ''none'', tmAborted = seq [],
         rmState = TRecord rm, inbox = TRecord ib\<rparr>)))"

text \<open>The name of a participant, and a message as the canonical record.\<close>

definition party :: "nat \<Rightarrow> string" where
  "party pid = ''r'' @ itoa (int pid + 1)"

definition msg_rec :: "string \<Rightarrow> string \<Rightarrow> string \<Rightarrow> TLA" where
  "msg_rec typ dest src =
     TRecord [(''mdest'', TString dest), (''msource'', TString src), (''type'', TString typ)]"

section \<open>Evaluation\<close>

lemma RefineParty_eq [go_simps]: "RefineParty pid = TString (party pid)"
  by (simp add: RefineParty_def party_def str_def)

lemma party_inject [simp]: "party a = party b \<longleftrightarrow> a = b"
  by (simp add: party_def)

lemma mk_msg_str [go_simps]: "mk_msg typ (TString d) (TString s) = Inr (msg_rec typ d s)"
  by (simp add: mk_msg_def mk_record_def msg_rec_def str_def gm_empty_def)

lemma Refine_msgs [go_simps]:
  "RefineProposeMsg pid = Inr (msg_rec ''Prepare'' (party pid) ''coordinator'')"
  "RefineProposeReply pid = Inr (msg_rec ''Prepared'' ''coordinator'' (party pid))"
  "RefineAbortedMsg pid = Inr (msg_rec ''Aborted'' ''coordinator'' (party pid))"
  "RefineCommitMsg pid = Inr (msg_rec ''Commit'' (party pid) ''coordinator'')"
  "RefineCommittedMsg pid = Inr (msg_rec ''Committed'' ''coordinator'' (party pid))"
  by (simp_all add: RefineProposeMsg_def RefineProposeReply_def RefineAbortedMsg_def
      RefineCommitMsg_def RefineCommittedMsg_def mk_record_def msg_rec_def str_def gm_empty_def
      RefineParty_eq)

lemma hash_msg_rec [simp, go_simps]:
  "hash (msg_rec typ d s) =
     Inr (''[mdest |-> '' @ d @ '', msource |-> '' @ s @ '', type |-> '' @ typ @ '']'')"
  by (simp add: hash_def msg_rec_def)

lemma msg_rec_inject [simp]:
  "msg_rec t d s = msg_rec t' d' s' \<longleftrightarrow> t = t' \<and> d = d' \<and> s = s'"
  by (auto simp: msg_rec_def)

lemma IndexInto_msg_rec [simp, go_simps]:
  "IndexInto (msg_rec t d s) (TString ''mdest'') = Inr (TString d)"
  "IndexInto (msg_rec t d s) (TString ''msource'') = Inr (TString s)"
  by (simp_all add: msg_rec_def)

end
