(* ===== verification/Server.thy ===== *)
theory Server
  imports Proto Cache Database Config Refine
begin

text \<open>
  The node: \<^verbatim>\<open>server/committer.go\<close>, the request handlers of \<^verbatim>\<open>server/server.go\<close> other than
  \<^verbatim>\<open>Put\<close> (theory \<open>Coordinator\<close>), the default hooks (\<^verbatim>\<open>hooks/\<close>) and the construction of a
  server. A handler takes the server and returns the reply (message pointer and error) and the
  new server, in the panic monad. The methods of the database are the argument \<open>dbi\<close>; its
  state is the field \<open>DB\<close>.

  Handlers of one node run one at a time here. Locks are not modelled, except that each of the
  operations they protect is atomic.
\<close>

section \<open>The server\<close>

definition TWO_PHASE :: string where
  "TWO_PHASE = ''two-phase''"

definition THREE_PHASE :: string where
  "THREE_PHASE = ''three-phase''"

text \<open>
  The field \<open>timers\<close> is not in the Go struct: it lists, by the index they were started with,
  the goroutines that \<^verbatim>\<open>Precommit\<close> has started and whose timeout has not passed yet.
\<close>

record 'd Server =
  Addr :: string
  Followers :: "CommitClient list"
  srv_Config :: Config
  DB :: 'd
  DBPath :: string
  ProposeHook :: "(ProposeRequest \<Rightarrow> bool) option"
  CommitHook :: "(CommitRequest \<Rightarrow> bool) option"
  NodeCache :: Cache
  Height :: uint64
  cancelCommitOnHeight :: "(uint64, bool) gomap"
  Tracer :: bool
  mParts :: "(string, bool) gomap"
  monitor :: Monitor
  timers :: "uint64 list"

definition three_phase :: "'d Server \<Rightarrow> bool" where
  "three_phase s \<longleftrightarrow> cfg_CommitType (srv_Config s) = THREE_PHASE"

text \<open>\<^verbatim>\<open>time.Duration(s.Config.Timeout)*time.Millisecond\<close>, in nanoseconds\<close>

definition timeout_duration :: "Config \<Rightarrow> go_int" where
  "timeout_duration c = Timeout c * 1000000"

text \<open>\<^verbatim>\<open>atomic.AddUint64(&s.Height, 1)\<close>\<close>

definition incr_Height :: "'d Server \<Rightarrow> 'd Server" where
  "incr_Height s = s\<lparr>Height := Height s + 1\<rparr>"

definition rollback :: "'d Server \<Rightarrow> 'd Server" where
  "rollback s = s\<lparr>NodeCache := cache_Delete (NodeCache s) (Height s)\<rparr>"

definition SetProgressForCommitPhase :: "'d Server \<Rightarrow> uint64 \<Rightarrow> bool \<Rightarrow> 'd Server" where
  "SetProgressForCommitPhase s height docancel =
     s\<lparr>cancelCommitOnHeight := gm_update height docancel (cancelCommitOnHeight s)\<rparr>"

definition HasProgressForCommitPhase :: "'d Server \<Rightarrow> uint64 \<Rightarrow> bool" where
  "HasProgressForCommitPhase s height =
     (case gm_lookup (cancelCommitOnHeight s) height of None \<Rightarrow> False | Some b \<Rightarrow> b)"

text \<open>Calling a nil function value panics.\<close>

definition call_hook :: "('r \<Rightarrow> bool) option \<Rightarrow> 'r \<Rightarrow> bool go" where
  "call_hook hook req = (case hook of None \<Rightarrow> Inl NilDereference | Some h \<Rightarrow> Inr (h req))"

section \<open>Handlers (\<^verbatim>\<open>server/committer.go\<close>)\<close>

definition ack :: Response where
  "ack = \<lparr>rType = ACK, rIndex = 0\<rparr>"

definition nack :: Response where
  "nack = \<lparr>rType = NACK, rIndex = 0\<rparr>"

definition ProposeHandler ::
    "'d Server \<Rightarrow> ProposeRequest \<Rightarrow> (ProposeRequest \<Rightarrow> bool) option \<Rightarrow> (Response reply \<times> 'd Server) go" where
  "ProposeHandler s req hook =
     gbind (call_hook hook req) (\<lambda>ok.
       let (response, s') =
         (if ok
          then (\<lparr>rType = ACK, rIndex = pIndex req\<rparr>,
            s\<lparr>NodeCache := cache_Set (NodeCache s) (pIndex req) (pKey req) (pValue req)\<rparr>)
          else (\<lparr>rType = NACK, rIndex = pIndex req\<rparr>, s));
         response =
         (if Height s' > pIndex req then \<lparr>rType = NACK, rIndex = Height s'\<rparr> else response)
       in Inr ((Some response, None), s'))"

definition PrecommitHandler :: "'d Server \<Rightarrow> PrecommitRequest \<Rightarrow> (Response reply \<times> 'd Server) go" where
  "PrecommitHandler s req = Inr ((Some ack, None), s)"

definition no_value_error :: "uint64 \<Rightarrow> error" where
  "no_value_error index =
     PlainError (''no value in node cache on the index '' @ itoa (uint index))"

definition CommitHandler ::
    "'d Database \<Rightarrow> 'd Server \<Rightarrow> CommitRequest \<Rightarrow> (CommitRequest \<Rightarrow> bool) option \<Rightarrow>
       (Response reply \<times> 'd Server) go" where
  "CommitHandler dbi s req hook =
     gbind (call_hook hook req) (\<lambda>ok.
       if ok then
         (case cache_Get (NodeCache s) (cIndex req) of (key, val, present) \<Rightarrow>
           if \<not> present then
             Inr ((Some nack, Some (no_value_error (cIndex req))),
               s\<lparr>NodeCache := cache_Delete (NodeCache s) (cIndex req)\<rparr>)
           else
             (case DB_Put dbi key val (DB s) of
                (Some err, d) \<Rightarrow> Inr ((None, Some err), s\<lparr>DB := d\<rparr>)
              | (None, d) \<Rightarrow> Inr ((Some ack, None), s\<lparr>DB := d\<rparr>)))
       else
         Inr ((Some nack, None), s\<lparr>NodeCache := cache_Delete (NodeCache s) (cIndex req)\<rparr>))"

section \<open>RPC methods (\<^verbatim>\<open>server/server.go\<close>)\<close>

definition Propose :: "'d Server \<Rightarrow> Context \<Rightarrow> ProposeRequest \<Rightarrow> (Response reply \<times> 'd Server) go" where
  "Propose s ctx req =
     (let s' = SetProgressForCommitPhase s (pIndex req) False
      in ProposeHandler s' req (ProposeHook s'))"

text \<open>\<^verbatim>\<open>resp.Type == pb.Type_ACK\<close> on a pointer that may be nil, then the height.\<close>

definition after_commit :: "Response option \<Rightarrow> 'd Server \<Rightarrow> (Response reply \<times> 'd Server) go" where
  "after_commit resp s =
     (case resp of
        None \<Rightarrow> Inl NilDereference
      | Some r \<Rightarrow> Inr ((Some r, None), if rType r = ACK then incr_Height s else s))"

definition Commit ::
    "'d Database \<Rightarrow> 'd Server \<Rightarrow> Context \<Rightarrow> CommitRequest \<Rightarrow> (Response reply \<times> 'd Server) go" where
  "Commit dbi s ctx req =
     (if three_phase s then
        (case FromIncomingContext ctx of
           None \<Rightarrow> Inr ((None, Some (StatusError Internal ''no metadata'')), s)
         | Some md \<Rightarrow>
             (let meta = (case gm_lookup md ''mode'' of None \<Rightarrow> [] | Some vs \<Rightarrow> vs) in
              if meta = [] then
                (let s1 = SetProgressForCommitPhase s (Height s) True in
                 gbind (CommitHandler dbi s1 req (CommitHook s1)) (\<lambda>((resp, err), s2).
                   case err of Some e \<Rightarrow> Inr ((None, Some e), s2) | None \<Rightarrow> after_commit resp s2))
              else Inr ((None, None), if cIsRollback req then rollback s else s)))
      else
        gbind (CommitHandler dbi s req (CommitHook s)) (\<lambda>((resp, err), s2).
          case err of Some e \<Rightarrow> Inr ((resp, Some e), s2) | None \<Rightarrow> after_commit resp s2))"

text \<open>The call that the goroutine of \<^verbatim>\<open>Precommit\<close> makes when its timeout passes.\<close>

definition autocommit_context :: Context where
  "autocommit_context =
     NewOutgoingContext Background (gm_update ''mode'' [''autocommit''] gm_empty)"

definition precommit_timeout :: "'d Database \<Rightarrow> 'd Server \<Rightarrow> uint64 \<Rightarrow> 'd Server go" where
  "precommit_timeout dbi s index =
     (if \<not> HasProgressForCommitPhase s index then
        gbind (Commit dbi s autocommit_context \<lparr>cIndex = Height s, cIsRollback = False\<rparr>)
          (\<lambda>(_, s'). Inr s')
      else Inr s)"

definition Precommit :: "'d Server \<Rightarrow> Context \<Rightarrow> PrecommitRequest \<Rightarrow> (Response reply \<times> 'd Server) go" where
  "Precommit s ctx req =
     (let s' = (if three_phase s then s\<lparr>timers := timers s @ [pcIndex req]\<rparr> else s)
      in PrecommitHandler s' req)"

definition Get :: "'d Database \<Rightarrow> 'd Server \<Rightarrow> Context \<Rightarrow> Msg \<Rightarrow> Value reply" where
  "Get dbi s ctx req =
     (case DB_Get dbi (mKey req) (DB s) of
        Inl err \<Rightarrow> (None, Some err)
      | Inr val \<Rightarrow> (Some \<lparr>vValue = val\<rparr>, None))"

definition NodeInfo :: "'d Server \<Rightarrow> Context \<Rightarrow> Info reply" where
  "NodeInfo s ctx = (Some \<lparr>iHeight = Height s\<rparr>, None)"

section \<open>Hooks\<close>

definition hook_Propose :: "ProposeRequest \<Rightarrow> bool" where
  "hook_Propose req = True"

definition hook_Commit :: "CommitRequest \<Rightarrow> bool" where
  "hook_Commit req = True"

text \<open>The fields of a server under construction that an option may set.\<close>

record 'd ServerOpts =
  o_ProposeHook :: "(ProposeRequest \<Rightarrow> bool) option"
  o_CommitHook :: "(CommitRequest \<Rightarrow> bool) option"
  o_DB :: "'d option"

type_synonym 'd Option = "'d ServerOpts \<Rightarrow> error option \<times> 'd ServerOpts"

definition hooks_Get :: "'d Option list" where
  "hooks_Get =
     [\<lambda>srv. (None, srv\<lparr>o_ProposeHook := Some hook_Propose\<rparr>),
      \<lambda>srv. (None, srv\<lparr>o_CommitHook := Some hook_Commit\<rparr>)]"

definition WithBadgerDB :: "(string \<Rightarrow> error + 'd) \<Rightarrow> string \<Rightarrow> 'd Option" where
  "WithBadgerDB db_new path srv =
     (case db_new path of
        Inl err \<Rightarrow> (Some err, srv\<lparr>o_DB := None\<rparr>)
      | Inr d \<Rightarrow> (None, srv\<lparr>o_DB := Some d\<rparr>))"

section \<open>Construction\<close>

fun run_options :: "'d Option list \<Rightarrow> 'd ServerOpts \<Rightarrow> error + 'd ServerOpts" where
  "run_options [] srv = Inr srv"
| "run_options (opt # opts) srv =
     (case opt srv of (Some err, _) \<Rightarrow> Inl err | (None, srv') \<Rightarrow> run_options opts srv')"

fun connect_followers ::
    "(string \<Rightarrow> bool \<Rightarrow> error + conn) \<Rightarrow> bool \<Rightarrow> nat \<Rightarrow> string list \<Rightarrow>
       (string, bool) gomap \<times> CommitClient list \<Rightarrow> error + (string, bool) gomap \<times> CommitClient list" where
  "connect_followers dial tracer pid [] acc = Inr acc"
| "connect_followers dial tracer pid (node # nodes) acc =
     (case peer_New dial node tracer of
        Inl err \<Rightarrow> Inl err
      | Inr cli \<Rightarrow>
          connect_followers dial tracer (Suc pid) nodes
            (gm_update (itoa (int pid)) True (fst acc), snd acc @ [cli]))"

definition checkServerFields :: "'d option \<Rightarrow> error option" where
  "checkServerFields d =
     (case d of None \<Rightarrow> Some (PlainError ''database is not selected'') | Some _ \<Rightarrow> None)"

text \<open>
  \<^verbatim>\<open>trace.Tracer\<close>, \<^verbatim>\<open>grpc.Dial\<close> and \<^verbatim>\<open>badger.Open\<close> are the arguments \<open>mk_tracer\<close>,
  \<open>dial\<close> and, inside \<open>db_new\<close>, \<open>b_Open\<close>.
\<close>

definition NewCommitServer ::
    "(string \<Rightarrow> string \<Rightarrow> error option) \<Rightarrow> (string \<Rightarrow> bool \<Rightarrow> error + conn) \<Rightarrow> (string \<Rightarrow> error + 'd) \<Rightarrow>
       Config \<Rightarrow> 'd Option list \<Rightarrow> error + 'd Server" where
  "NewCommitServer mk_tracer dial db_new conf opts =
     (case run_options opts \<lparr>o_ProposeHook = None, o_CommitHook = None, o_DB = None\<rparr> of
        Inl err \<Rightarrow> Inl err
      | Inr srv \<Rightarrow>
     (case (if WithTrace conf
            then mk_tracer (Role conf @ '':'' @ Nodeaddr conf) (Nodeaddr conf) else None) of
        Some err \<Rightarrow> Inl err
      | None \<Rightarrow>
     (case connect_followers dial (WithTrace conf) 0 (cfg_Followers conf) (gm_empty, []) of
        Inl err \<Rightarrow> Inl err
      | Inr (mparts, clients) \<Rightarrow>
     (let conf' = (if Role conf = ''coordinator'' then conf\<lparr>Coordinator := Nodeaddr conf\<rparr> else conf)
      in case db_new (cfg_DBPath conf') of
        Inl err \<Rightarrow> Inl err
      | Inr d \<Rightarrow>
     (case checkServerFields (Some d) of
        Some err \<Rightarrow> Inl err
      | None \<Rightarrow>
         Inr \<lparr>Addr = Nodeaddr conf, Followers = clients, srv_Config = conf', DB = d,
           DBPath = cfg_DBPath conf, ProposeHook = o_ProposeHook srv, CommitHook = o_CommitHook srv,
           NodeCache = cache_New, Height = 0, cancelCommitOnHeight = gm_empty,
           Tracer = WithTrace conf, mParts = mparts, monitor = NewMonitor, timers = []\<rparr>)))))"

end
