(* ===== verification/Coordinator.thy ===== *)
theory Coordinator
  imports Server
begin

text \<open>
  \<^verbatim>\<open>Server.Put\<close> (\<^verbatim>\<open>server/server.go\<close>, lines 199 to 525): the coordinator's run of the commit
  protocol, with the monitor calls woven in. The transport \<open>g\<close> acts on a state \<open>'w\<close> of the
  world outside the coordinator.

  The loop that proposes to one follower ends only when the follower acknowledges, so it is a
  \<open>partial_function (option)\<close>: \<open>None\<close> is a run that never returns. The other loops are
  over the list of followers. A phase returns \<open>Some reply\<close> when the Go code returns from
  inside its loop and \<open>None\<close> when the loop runs to its end. The calls that measure the
  monitor's overhead touch only the counters of \<^verbatim>\<open>server/timing.go\<close>; they are in \<open>Timed_Put\<close>.
\<close>

section \<open>Monitor blocks\<close>

text \<open>
  \<^verbatim>\<open>s.monitor.CaptureState(gs, typ, args...)\<close> at a line of \<^verbatim>\<open>server.go\<close>, its error ignored.
\<close>

definition capture :: "'d Server \<Rightarrow> int \<Rightarrow> State \<Rightarrow> EventType \<Rightarrow> TLA list \<Rightarrow> 'd Server go" where
  "capture s line gs typ args =
     gbind (CaptureState (''server.go'', line) (monitor s) gs typ args) (\<lambda>(_, m).
       Inr (s\<lparr>monitor := m\<rparr>))"

text \<open>\<^verbatim>\<open>Except(box.(Record), str("coordinator"), seq(msgs...))\<close>\<close>

definition set_coordinator_box :: "TLA \<Rightarrow> TLA list \<Rightarrow> TLA go" where
  "set_coordinator_box box msgs =
     gbind (as_Record box) (\<lambda>b. Inr (TRecord (Except b ''coordinator'' (seq msgs))))"

text \<open>\<^verbatim>\<open>Append(a.(Seq), x)\<close>\<close>

definition append_to :: "TLA \<Rightarrow> TLA \<Rightarrow> TLA go" where
  "append_to a x = gbind (as_Seq a) (\<lambda>xs. Inr (TSeq (Append xs x)))"

text \<open>
  One captured step: the coordinator's outbox or inbox is set, the action is logged and the
  actor named, then the state is captured.
\<close>

definition outbox_step ::
    "'d Server \<Rightarrow> State \<Rightarrow> int \<Rightarrow> TLA list \<Rightarrow> TLA list \<Rightarrow> string \<Rightarrow> EventType \<Rightarrow> TLA \<Rightarrow> ('d Server \<times> State) go" where
  "outbox_step s gs line msgs entry actor typ arg =
     gbind (set_coordinator_box (outbox gs) msgs) (\<lambda>ob.
     gbind (append_to (actions gs) (seq entry)) (\<lambda>as.
       let gs' = gs\<lparr>outbox := ob, actions := as, who := str actor\<rparr> in
       gbind (capture s line gs' typ [arg]) (\<lambda>s'. Inr (s', gs'))))"

definition inbox_step ::
    "'d Server \<Rightarrow> State \<Rightarrow> int \<Rightarrow> TLA list \<Rightarrow> TLA list \<Rightarrow> string \<Rightarrow> EventType \<Rightarrow> TLA \<Rightarrow> ('d Server \<times> State) go" where
  "inbox_step s gs line msgs entry actor typ arg =
     gbind (set_coordinator_box (inbox gs) msgs) (\<lambda>ib.
     gbind (append_to (actions gs) (seq entry)) (\<lambda>as.
       let gs' = gs\<lparr>inbox := ib, actions := as, who := str actor\<rparr> in
       gbind (capture s line gs' typ [arg]) (\<lambda>s'. Inr (s', gs'))))"

text \<open>Lines 282 to 299: a proposal is sent and taken by the network.\<close>

definition mon_propose_sent :: "nat \<Rightarrow> 'd Server \<Rightarrow> State \<Rightarrow> ('d Server \<times> State) go" where
  "mon_propose_sent pid s gs =
     gbind (RefineProposeMsg pid) (\<lambda>m.
     gbind (outbox_step s gs 290 [m] [str ''CSendPrepare'', RefineParty pid] ''coordinator''
       CSendPrepare (RefineParty pid)) (\<lambda>(s1, gs1).
     outbox_step s1 gs1 297 [] [str ''NetworkTakeMessage'', m] ''Network'' NetworkTakeMessage m))"

text \<open>Lines 327 to 341: a proposal failed. The participant is appended to \<open>tmPrepared\<close>.\<close>

definition mon_aborted :: "nat \<Rightarrow> 'd Server \<Rightarrow> State \<Rightarrow> ('d Server \<times> State) go" where
  "mon_aborted pid s gs =
     gbind (RefineAbortedMsg pid) (\<lambda>m.
     gbind (inbox_step s gs 333 [m] [str ''NetworkDeliverMessage'', m] ''Network''
       NetworkDeliverMessage m) (\<lambda>(s1, gs1).
     gbind (append_to (tmPrepared gs1) (RefineParty pid)) (\<lambda>tp.
     inbox_step s1 (gs1\<lparr>tmPrepared := tp\<rparr>) 339 [] [str ''CReceiveAbort'', RefineParty pid]
       ''coordinator'' CReceiveAbort (RefineParty pid))))"

text \<open>Lines 354 to 368: an acknowledged proposal is delivered and received.\<close>

definition mon_prepared :: "nat \<Rightarrow> 'd Server \<Rightarrow> State \<Rightarrow> ('d Server \<times> State) go" where
  "mon_prepared pid s gs =
     gbind (RefineProposeReply pid) (\<lambda>m.
     gbind (inbox_step s gs 360 [m] [str ''NetworkDeliverMessage'', m] ''Network''
       NetworkDeliverMessage m) (\<lambda>(s1, gs1).
     gbind (append_to (tmPrepared gs1) (RefineParty pid)) (\<lambda>tp.
     inbox_step s1 (gs1\<lparr>tmPrepared := tp\<rparr>) 366 [] [str ''CReceivePrepare'', RefineParty pid]
       ''coordinator'' CReceivePrepare (RefineParty pid))))"

text \<open>Lines 452 to 466: a commit is sent and taken by the network.\<close>

definition mon_commit_sent :: "nat \<Rightarrow> 'd Server \<Rightarrow> State \<Rightarrow> ('d Server \<times> State) go" where
  "mon_commit_sent pid s gs =
     gbind (RefineCommitMsg pid) (\<lambda>m.
     gbind (outbox_step s (gs\<lparr>tmDecision := str ''commit''\<rparr>) 459 [m]
       [str ''CSendCommit'', RefineParty pid] ''coordinator'' CSendCommit (RefineParty pid)) (\<lambda>(s1, gs1).
     outbox_step s1 gs1 464 [] [str ''NetworkTakeMessage'', m] ''Network'' NetworkTakeMessage m))"

text \<open>Lines 480 to 494: an acknowledged commit is delivered and received.\<close>

definition mon_committed :: "nat \<Rightarrow> 'd Server \<Rightarrow> State \<Rightarrow> ('d Server \<times> State) go" where
  "mon_committed pid s gs =
     gbind (RefineCommittedMsg pid) (\<lambda>m.
     gbind (inbox_step s gs 486 [m] [str ''NetworkDeliverMessage'', m] ''Network''
       NetworkDeliverMessage m) (\<lambda>(s1, gs1).
     gbind (append_to (tmCommitted gs1) (RefineParty pid)) (\<lambda>tc.
     inbox_step s1 (gs1\<lparr>tmCommitted := tc\<rparr>) 492 [] [str ''CReceiveCommit'', RefineParty pid]
       ''coordinator'' CReceiveCommit (RefineParty pid))))"

section \<open>Propose\<close>

definition put_context :: "'d Server \<Rightarrow> Context \<Rightarrow> Context" where
  "put_context s ctx =
     (if three_phase s then WithTimeout ctx (timeout_duration (srv_Config s)) else ctx)"

text \<open>The condition of the retry loop: \<^verbatim>\<open>response == nil || response.Type == NACK\<close>.\<close>

definition propose_again :: "Response option \<Rightarrow> bool" where
  "propose_again response = (case response of None \<Rightarrow> True | Some r \<Rightarrow> rType r = NACK)"

text \<open>The body of the retry loop.\<close>

definition propose_once ::
    "'w grpc \<Rightarrow> nat \<Rightarrow> CommitClient \<Rightarrow> Context \<Rightarrow> CommitType \<Rightarrow> Entry \<Rightarrow> 'd Server \<Rightarrow> State \<Rightarrow> 'w \<Rightarrow>
       (Response reply \<times> 'd Server \<times> State \<times> 'w) go" where
  "propose_once g pid follower ctx ctype req s gs w =
     (let proposeReq = \<lparr>pKey = eKey req, pValue = eValue req, pCommitType = ctype, pIndex = Height s\<rparr>
      in gbind (mon_propose_sent pid s gs) (\<lambda>(s1, gs1).
        case peer_Propose g follower ctx proposeReq w of
          ((response, err), w1) \<Rightarrow>
            (let s2 = (case response of
                 Some r \<Rightarrow> if rIndex r > Height s1 then s1\<lparr>Height := rIndex r\<rparr> else s1
               | None \<Rightarrow> s1)
             in Inr ((response, err), s2, gs1, w1))))"

partial_function (option) propose_loop ::
    "'w grpc \<Rightarrow> nat \<Rightarrow> CommitClient \<Rightarrow> Context \<Rightarrow> CommitType \<Rightarrow> Entry \<Rightarrow> 'd Server \<Rightarrow> State \<Rightarrow> 'w \<Rightarrow>
       (Response reply \<times> 'd Server \<times> State \<times> 'w) go option" where
  "propose_loop g pid follower ctx ctype req s gs w =
     (case propose_once g pid follower ctx ctype req s gs w of
        Inl p \<Rightarrow> Some (Inl p)
      | Inr ((response, err), s1, gs1, w1) \<Rightarrow>
          if propose_again response then propose_loop g pid follower ctx ctype req s1 gs1 w1
          else Some (Inr ((response, err), s1, gs1, w1)))"

declare propose_loop.simps [code]

definition not_acknowledged :: "Response reply" where
  "not_acknowledged = (None, Some (StatusError Internal ''follower not acknowledged msg''))"

text \<open>Lines 319 to 368: what follows the retry loop.\<close>

definition propose_reply ::
    "nat \<Rightarrow> Entry \<Rightarrow> Response option \<Rightarrow> error option \<Rightarrow> 'd Server \<Rightarrow> State \<Rightarrow>
       (Response reply option \<times> 'd Server \<times> State) go" where
  "propose_reply pid req response err s gs =
     (case err of
        Some e \<Rightarrow>
          gbind (mon_aborted pid s gs) (\<lambda>(s', gs'). Inr (Some (Some nack, None), s', gs'))
      | None \<Rightarrow>
          (let s1 = s\<lparr>NodeCache := cache_Set (NodeCache s) (Height s) (eKey req) (eValue req)\<rparr>
           in case response of
                None \<Rightarrow> Inl NilDereference
              | Some r \<Rightarrow>
                  if rType r \<noteq> ACK then Inr (Some not_acknowledged, s1, gs)
                  else gbind (mon_prepared pid s1 gs) (\<lambda>(s2, gs2). Inr (None, s2, gs2))))"

fun propose_phase ::
    "'w grpc \<Rightarrow> CommitType \<Rightarrow> Entry \<Rightarrow> nat \<Rightarrow> CommitClient list \<Rightarrow> Context \<Rightarrow> 'd Server \<Rightarrow> State \<Rightarrow> 'w \<Rightarrow>
       (Response reply option \<times> 'd Server \<times> State \<times> Context \<times> 'w) go option" where
  "propose_phase g ctype req pid [] ctx s gs w = Some (Inr (None, s, gs, ctx, w))"
| "propose_phase g ctype req pid (follower # rest) ctx s gs w =
     (case propose_loop g pid follower (put_context s ctx) ctype req s gs w of
        None \<Rightarrow> None
      | Some (Inl p) \<Rightarrow> Some (Inl p)
      | Some (Inr ((response, err), s1, gs1, w1)) \<Rightarrow>
          (case propose_reply pid req response err s1 gs1 of
             Inl p \<Rightarrow> Some (Inl p)
           | Inr (Some r, s2, gs2) \<Rightarrow> Some (Inr (Some r, s2, gs2, put_context s ctx, w1))
           | Inr (None, s2, gs2) \<Rightarrow>
               propose_phase g ctype req (Suc pid) rest (put_context s ctx) s2 gs2 w1))"

section \<open>Precommit, persist, commit\<close>

text \<open>The check of a reply in the precommit and commit loops.\<close>

definition phase_reply :: "Response reply \<Rightarrow> Response reply option go" where
  "phase_reply r =
     (case r of
        (_, Some e) \<Rightarrow> Inr (Some (Some nack, None))
      | (None, None) \<Rightarrow> Inl NilDereference
      | (Some resp, None) \<Rightarrow> Inr (if rType resp \<noteq> ACK then Some not_acknowledged else None))"

fun precommit_phase ::
    "'w grpc \<Rightarrow> 'd Server \<Rightarrow> CommitClient list \<Rightarrow> Context \<Rightarrow> 'w \<Rightarrow>
       (Response reply option \<times> Context \<times> 'w) go" where
  "precommit_phase g s [] ctx w = Inr (None, ctx, w)"
| "precommit_phase g s (follower # rest) ctx w =
     (case peer_Precommit g follower (put_context s ctx) \<lparr>pcIndex = Height s\<rparr> w of
        (r, w1) \<Rightarrow>
          gbind (phase_reply r) (\<lambda>ret.
            case ret of
              Some reply \<Rightarrow> Inr (Some reply, put_context s ctx, w1)
            | None \<Rightarrow> precommit_phase g s rest (put_context s ctx) w1))"

fun commit_phase ::
    "'w grpc \<Rightarrow> nat \<Rightarrow> CommitClient list \<Rightarrow> Context \<Rightarrow> 'd Server \<Rightarrow> State \<Rightarrow> 'w \<Rightarrow>
       (Response reply option \<times> 'd Server \<times> State \<times> 'w) go" where
  "commit_phase g pid [] ctx s gs w = Inr (None, s, gs, w)"
| "commit_phase g pid (follower # rest) ctx s gs w =
     gbind (mon_commit_sent pid s gs) (\<lambda>(s1, gs1).
       case peer_Commit g follower ctx \<lparr>cIndex = Height s1, cIsRollback = False\<rparr> w of
         (r, w1) \<Rightarrow>
           gbind (phase_reply r) (\<lambda>ret.
             case ret of
               Some reply \<Rightarrow> Inr (Some reply, s1, gs1, w1)
             | None \<Rightarrow>
                 gbind (mon_committed pid s1 gs1) (\<lambda>(s2, gs2).
                   commit_phase g (Suc pid) rest ctx s2 gs2 w1)))"

text \<open>Lines 510 to 524.\<close>

definition put_finish :: "'d Server \<Rightarrow> 'w \<Rightarrow> (Response reply \<times> 'd Server \<times> 'w) go" where
  "put_finish s w =
     (let s1 = incr_Height s in
      gbind (CheckTrace (monitor s1)) (\<lambda>_.
        Inr ((Some ack, None), s1\<lparr>monitor := Reset (monitor s1)\<rparr>, w)))"

text \<open>Lines 393 to 509, then \<open>put_finish\<close>.\<close>

definition put_persist ::
    "'w grpc \<Rightarrow> 'd Database \<Rightarrow> 'd Server \<Rightarrow> State \<Rightarrow> Context \<Rightarrow> 'w \<Rightarrow> (Response reply \<times> 'd Server \<times> 'w) go" where
  "put_persist g dbi s gs ctx w =
     (case cache_Get (NodeCache s) (Height s) of (key, val, ok) \<Rightarrow>
        if \<not> ok then
          Inr ((None, Some (StatusError Internal ''can't to find msg in the coordinator's cache'')), s, w)
        else
          (case DB_Put dbi key val (DB s) of
             (Some err, d) \<Rightarrow>
               Inr ((Some nack, Some (StatusError Internal ''failed to save msg on coordinator'')),
                 s\<lparr>DB := d\<rparr>, w)
           | (None, d) \<Rightarrow>
               gbind (commit_phase g 0 (Followers s) ctx (s\<lparr>DB := d\<rparr>) gs w) (\<lambda>(ret, s1, gs1, w1).
                 case ret of Some reply \<Rightarrow> Inr (reply, s1, w1) | None \<Rightarrow> put_finish s1 w1)))"

definition put_decide ::
    "'w grpc \<Rightarrow> 'd Database \<Rightarrow> 'd Server \<Rightarrow> State \<Rightarrow> Context \<Rightarrow> 'w \<Rightarrow> (Response reply \<times> 'd Server \<times> 'w) go" where
  "put_decide g dbi s gs ctx w =
     gbind (precommit_phase g s (Followers s) ctx w) (\<lambda>(ret, ctx1, w1).
       case ret of
         Some reply \<Rightarrow> Inr (reply, s, w1)
       | None \<Rightarrow> put_persist g dbi s gs ctx1 w1)"

section \<open>Put\<close>

text \<open>Lines 229 to 233.\<close>

definition put_start :: "'d Server \<Rightarrow> ('d Server \<times> State) go" where
  "put_start s =
     gbind Starting (\<lambda>gs.
     gbind (capture s 231 gs Initial []) (\<lambda>s'. Inr (s', gs\<lparr>who := str ''coordinator''\<rparr>)))"

definition put_ctype :: "'d Server \<Rightarrow> CommitType" where
  "put_ctype s = (if three_phase s then THREE_PHASE_COMMIT else TWO_PHASE_COMMIT)"

definition Put ::
    "'w grpc \<Rightarrow> 'd Database \<Rightarrow> 'd Server \<Rightarrow> Context \<Rightarrow> Entry \<Rightarrow> 'w \<Rightarrow>
       (Response reply \<times> 'd Server \<times> 'w) go option" where
  "Put g dbi s ctx req w =
     (case put_start s of
        Inl p \<Rightarrow> Some (Inl p)
      | Inr (s1, gs) \<Rightarrow>
          (case propose_phase g (put_ctype s) req 0 (Followers s1) ctx s1 gs w of
             None \<Rightarrow> None
           | Some (Inl p) \<Rightarrow> Some (Inl p)
           | Some (Inr (Some reply, s2, gs2, ctx2, w2)) \<Rightarrow> Some (Inr (reply, s2, w2))
           | Some (Inr (None, s2, gs2, ctx2, w2)) \<Rightarrow> Some (put_decide g dbi s2 gs2 ctx2 w2)))"

end
