(* ===== verification/Examples.thy ===== *)
theory Examples
  imports Coordinator
begin

text \<open>
  Concrete transports and servers on which the definitions are evaluated: a transport that
  answers every call with the given replies, and a coordinator built by \<^verbatim>\<open>NewCommitServer\<close> from
  command line flags on the store in memory. They serve to show that the hypotheses of the
  theorems can be met and to give concrete runs of the code.
\<close>

definition const_grpc :: "error + Response \<Rightarrow> error + Response \<Rightarrow> error + Response \<Rightarrow> unit grpc" where
  "const_grpc propose precommit commit =
     \<lparr>invoke_Propose = (\<lambda>cc ctx req w. (propose, w)),
      invoke_Precommit = (\<lambda>cc ctx req w. (precommit, w)),
      invoke_Commit = (\<lambda>cc ctx req w. (commit, w)),
      invoke_Put = (\<lambda>cc ctx req w. (Inr ack, w)),
      invoke_Get = (\<lambda>cc ctx req w. (Inl (PlainError ''Key not found''), w)),
      invoke_NodeInfo = (\<lambda>cc ctx w. (Inr \<lparr>iHeight = 0\<rparr>, w))\<rparr>"

definition unavailable :: error where
  "unavailable = StatusError (OtherCode 14) ''connection refused''"

text \<open>A transport whose state is the number of proposals that still fail.\<close>

definition flaky_grpc :: "nat grpc" where
  "flaky_grpc =
     \<lparr>invoke_Propose = (\<lambda>cc ctx req n. if n = 0 then (Inr ack, 0) else (Inl unavailable, n - 1)),
      invoke_Precommit = (\<lambda>cc ctx req n. (Inr ack, n)),
      invoke_Commit = (\<lambda>cc ctx req n. (Inr ack, n)),
      invoke_Put = (\<lambda>cc ctx req n. (Inr ack, n)),
      invoke_Get = (\<lambda>cc ctx req n. (Inl unavailable, n)),
      invoke_NodeInfo = (\<lambda>cc ctx n. (Inl unavailable, n))\<rparr>"

definition mem_dbi :: "(string, bytes) gomap Database" where
  "mem_dbi = BadgerDB mem_badger"

definition example_config :: "string \<Rightarrow> string \<Rightarrow> string list \<Rightarrow> Config" where
  "example_config role ctype followers =
     config_Get (default_flags\<lparr>f_role := role, f_committype := ctype, f_followers := join '','' followers\<rparr>)"

definition new_server :: "Config \<Rightarrow> error + (string, bytes) gomap Server" where
  "new_server conf =
     NewCommitServer (\<lambda>_ _. None) (\<lambda>addr _. Inr addr) (db_New mem_badger) conf hooks_Get"

definition example_server :: "string \<Rightarrow> string \<Rightarrow> string list \<Rightarrow> (string, bytes) gomap Server" where
  "example_server role ctype followers =
     (case new_server (example_config role ctype followers) of
        Inr s \<Rightarrow> s
      | Inl e \<Rightarrow> \<lparr>Addr = [], Followers = [], srv_Config = example_config role ctype followers, DB = gm_empty,
          DBPath = [], ProposeHook = None, CommitHook = None, NodeCache = cache_New, Height = 0,
          cancelCommitOnHeight = gm_empty, Tracer = False, mParts = gm_empty, monitor = NewMonitor,
          timers = []\<rparr>)"

definition example_entry :: Entry where
  "example_entry = \<lparr>eKey = ''key1'', eValue = [118, 49]\<rparr>"

text \<open>The reply of a run that returns and does not panic.\<close>

definition run_reply :: "('r \<times> 's) go option \<Rightarrow> 'r go option" where
  "run_reply x = map_option (map_sum id fst) x"

lemma run_reply_Some: "run_reply x = Some (Inr r) \<Longrightarrow> \<exists>s. x = Some (Inr (r, s))"
  by (cases x; cases "the x") (auto simp: run_reply_def)

lemma example_server_new:
  "new_server (example_config ''coordinator'' TWO_PHASE [''a'', ''b'']) =
     Inr (example_server ''coordinator'' TWO_PHASE [''a'', ''b''])"
  by (simp add: example_server_def new_server_def example_config_def NewCommitServer_def hooks_Get_def
      config_Get_def default_flags_def db_New_def mem_badger_def peer_New_def checkServerFields_def)

end
