(* ===== verification/Monitored_Put.thy ===== *)
theory Monitored_Put
  imports Examples
begin

text \<open>
  The monitor calls inside \<^verbatim>\<open>Put\<close> (\<^verbatim>\<open>server/server.go\<close>) against the checks of the monitor
  (\<^verbatim>\<open>server/TwoPhaseCommitFull.go\<close>). The states that \<^verbatim>\<open>Put\<close> captures all have one shape,
  \<open>gs_of\<close>; on that shape each monitor block is evaluated once, and the relation \<open>status\<close>
  says of the events logged so far either that the checks accept them or that they already
  reject them. The relation is carried through the loops of \<^verbatim>\<open>Put\<close>, which gives when the final
  \<^verbatim>\<open>CheckTrace\<close> panics.
\<close>

section \<open>The captured states\<close>

definition boxes :: "TLA list \<Rightarrow> TLA" where
  "boxes q = TRecord [(''coordinator'', TSeq q), (''r1'', TSeq []), (''r2'', TSeq [])]"

definition gs_of ::
    "string \<Rightarrow> TLA list \<Rightarrow> nat list \<Rightarrow> nat list \<Rightarrow> string \<Rightarrow> TLA list \<Rightarrow> TLA list \<Rightarrow> State" where
  "gs_of actor acts ps cs decision oq iq =
     \<lparr>who = TString actor, actions = TSeq acts, tmCommitted = TSeq (map (\<lambda>p. TString (party p)) cs),
      outbox = boxes oq, inflight = TSeq [],
      tmPrepared = TSeq (map (\<lambda>p. TString (party p)) ps), tmDecision = TString decision,
      tmAborted = TSeq [],
      rmState = TRecord [(''r1'', TString ''working''), (''r2'', TString ''working'')],
      inbox = boxes iq\<rparr>"

lemma party_01: "party 0 = ''r1''" "party (Suc 0) = ''r2''"
  by code_simp+

lemma gs_of_sel [simp]:
  "who (gs_of a as ps cs d oq iq) = TString a"
  "actions (gs_of a as ps cs d oq iq) = TSeq as"
  "tmCommitted (gs_of a as ps cs d oq iq) = TSeq (map (\<lambda>p. TString (party p)) cs)"
  "outbox (gs_of a as ps cs d oq iq) = boxes oq"
  "inflight (gs_of a as ps cs d oq iq) = TSeq []"
  "tmPrepared (gs_of a as ps cs d oq iq) = TSeq (map (\<lambda>p. TString (party p)) ps)"
  "tmDecision (gs_of a as ps cs d oq iq) = TString d"
  "tmAborted (gs_of a as ps cs d oq iq) = TSeq []"
  "rmState (gs_of a as ps cs d oq iq) = TRecord [(''r1'', TString ''working''), (''r2'', TString ''working'')]"
  "inbox (gs_of a as ps cs d oq iq) = boxes iq"
  by (simp_all add: gs_of_def)

lemma gs_of_upd:
  "(gs_of a as ps cs d oq iq)\<lparr>outbox := boxes oq', actions := TSeq as', who := TString a'\<rparr> = gs_of a' as' ps cs d oq' iq"
  "(gs_of a as ps cs d oq iq)\<lparr>inbox := boxes iq', actions := TSeq as', who := TString a'\<rparr> = gs_of a' as' ps cs d oq iq'"
  "(gs_of a as ps cs d oq iq)\<lparr>tmDecision := TString d'\<rparr> = gs_of a as ps cs d' oq iq"
  "(gs_of a as ps cs d oq iq)\<lparr>who := TString a'\<rparr> = gs_of a' as ps cs d oq iq"
  "(gs_of a as ps cs d oq iq)\<lparr>tmPrepared := TSeq (map (\<lambda>p. TString (party p)) ps @ [TString (party q)])\<rparr> = gs_of a as (ps @ [q]) cs d oq iq"
  "(gs_of a as ps cs d oq iq)\<lparr>tmCommitted := TSeq (map (\<lambda>p. TString (party p)) cs @ [TString (party q)])\<rparr> = gs_of a as ps (cs @ [q]) d oq iq"
  by (simp_all add: gs_of_def)

lemma Starting_eq: "Starting = Inr (gs_of ''none'' [] [] [] ''none'' [] [])"
  by (simp add: Starting_def mk_record_def gm_empty_def gs_of_def boxes_def str_def seq_def)

lemma set_coordinator_box_boxes [simp]: "set_coordinator_box (boxes q) msgs = Inr (boxes msgs)"
  by (simp add: set_coordinator_box_def boxes_def Except_eq seq_def)

lemma boxes_eqs [simp]:
  "as_Record (boxes q) = Inr [(''coordinator'', TSeq q), (''r1'', TSeq []), (''r2'', TSeq [])]"
  "IndexInto (boxes q) (TString ''coordinator'') = Inr (TSeq q)"
  "boxes q = boxes q' \<longleftrightarrow> q = q'"
  by (simp_all add: boxes_def)

lemma party_set: "party ` A = {''r1'', ''r2''} \<longleftrightarrow> A = {0, Suc 0}"
proof -
  have "{''r1'', ''r2''} = party ` {0, Suc 0}" by (simp add: party_01)
  then show ?thesis by (metis inj_image_eq_iff inj_def party_inject)
qed

lemma ToSet_parties: "ToSet (map (\<lambda>p. TString (party p)) ps) = Inr (str_set (map party ps))"
  using ToSet_str [of "map party ps"] by (simp add: comp_def)

lemma all_prepared_gs [simp]:
  "all_prepared (gs_of a as ps cs d oq iq) = Inr (set ps = {0, Suc 0})"
  using mk_set_str [of "[''r1'', ''r2'']"]
  by (simp add: all_prepared_def ToSet_parties str_def Eq_def str_set_eq_iff party_set)

lemma tm_notin_parties [simp]:
  "tm_notin (TString (party q)) (TSeq (map (\<lambda>p. TString (party p)) ps)) = Inr (q \<notin> set ps)"
  by (auto simp: tm_notin_def ToSet_parties SetNotIn_def SetIn_str_set)

lemma box_append_coord [simp]:
  "box_append (boxes q) (msg_rec t d ''coordinator'') ''msource'' = Inr (boxes (q @ [msg_rec t d ''coordinator'']))"
  "box_append (boxes q) (msg_rec t ''coordinator'' d) ''mdest'' = Inr (boxes (q @ [msg_rec t ''coordinator'' d]))"
  by (simp_all add: box_append_def str_def Append_def boxes_def Except_eq)

lemma box_remove_coord [simp]:
  "box_remove (boxes [msg_rec t d ''coordinator'']) (msg_rec t d ''coordinator'') ''msource'' = Inr (boxes [])"
  "box_remove (boxes [msg_rec t ''coordinator'' d]) (msg_rec t ''coordinator'' d) ''mdest'' = Inr (boxes [])"
  by (simp_all add: box_remove_def str_def Remove_def Eq_def boxes_def Except_eq)

lemma box_has_coord [simp]:
  "box_has (boxes [msg_rec t d ''coordinator'']) (msg_rec t d ''coordinator'') ''msource'' = Inr True"
  "box_has (boxes [msg_rec t ''coordinator'' d]) (msg_rec t ''coordinator'' d) ''mdest'' = Inr True"
  by (simp_all add: box_has_def str_def ToSet_def set_put_def SetIn_def)

lemmas check_simps = require_def fail_def crash_def Let_def Eq_def Neq_def tla_Not_def And_def str_def seq_def
  mk_msg_str Send_def Receive_def LogAction_def LogActor_def tm_append_def Append_def

lemma check_CSendPrepare:
  assumes "estate prev = gs_of a as ps cs d [] iq" and "etyp e = CSendPrepare"
    and "params e = [TString (party pid)]"
    and "estate e = gs_of ''coordinator'' (as @ [TSeq [TString ''CSendPrepare'', TString (party pid)]])
      ps cs d [msg_rec ''Prepare'' (party pid) ''coordinator''] iq"
    and "d = ''none''"
  shows "CheckEvent i prev e =
    (if set ps = {0, Suc 0} then Inl (Panicked (pre ''CSendPrepare'' i ''ToSet(tmPrepared) /= RM'')) else Inr None)"
  using assms by (simp add: CheckEvent_def param0_def CheckCSendPrepare_def check_simps)

lemma check_NetworkTakeMessage:
  assumes "estate prev = gs_of a as ps cs d [msg_rec t (party pid) ''coordinator''] iq"
    and "etyp e = NetworkTakeMessage" and "params e = [msg_rec t (party pid) ''coordinator'']"
    and "estate e = gs_of ''Network'' (as @ [TSeq [TString ''NetworkTakeMessage'', msg_rec t (party pid) ''coordinator'']])
      ps cs d [] iq"
  shows "CheckEvent i prev e = Inr None"
  using assms by (simp add: CheckEvent_def param0_def CheckNetworkTakeMessage_def check_simps)

lemma check_NetworkDeliverMessage:
  assumes "estate prev = gs_of a as ps cs d oq []"
    and "etyp e = NetworkDeliverMessage" and "params e = [msg_rec t ''coordinator'' (party pid)]"
    and "estate e = gs_of ''Network'' (as @ [TSeq [TString ''NetworkDeliverMessage'', msg_rec t ''coordinator'' (party pid)]])
      ps cs d oq [msg_rec t ''coordinator'' (party pid)]"
  shows "CheckEvent i prev e = Inr None"
  using assms by (simp add: CheckEvent_def param0_def CheckNetworkDeliverMessage_def check_simps)

lemma check_CReceivePrepare:
  assumes "estate prev = gs_of a as ps cs d oq [msg_rec ''Prepared'' ''coordinator'' (party pid)]"
    and "etyp e = CReceivePrepare" and "params e = [TString (party pid)]"
    and "estate e = gs_of ''coordinator'' (as @ [TSeq [TString ''CReceivePrepare'', TString (party pid)]])
      (ps @ [pid]) cs d oq []"
    and "pid \<notin> set ps"
  shows "CheckEvent i prev e = Inr None"
  using assms by (simp add: CheckEvent_def param0_def CheckCReceivePrepare_def check_simps)

lemma check_CSendCommit:
  assumes "estate prev = gs_of a as ps cs d [] iq" and "etyp e = CSendCommit"
    and "params e = [TString (party pid)]"
    and "estate e = gs_of ''coordinator'' (as @ [TSeq [TString ''CSendCommit'', TString (party pid)]])
      ps cs ''commit'' [msg_rec ''Commit'' (party pid) ''coordinator''] iq"
    and "d \<noteq> ''abort''"
  shows "CheckEvent i prev e =
    (if set ps = {0, Suc 0} then Inr None else Inl (Panicked (pre ''CSendCommit'' i ''ToSet(tmPrepared) = RM'')))"
  using assms by (simp add: CheckEvent_def param0_def CheckCSendCommit_def check_simps)

lemma check_CReceiveCommit:
  assumes "estate prev = gs_of a as ps cs d oq [msg_rec ''Committed'' ''coordinator'' (party pid)]"
    and "etyp e = CReceiveCommit" and "params e = [TString (party pid)]"
    and "estate e = gs_of ''coordinator'' (as @ [TSeq [TString ''CReceiveCommit'', TString (party pid)]])
      ps (cs @ [pid]) d oq []"
    and "pid \<notin> set cs"
  shows "CheckEvent i prev e = Inr None"
  using assms by (simp add: CheckEvent_def param0_def CheckCReceiveCommit_def check_simps)

lemma check_Initial:
  assumes "etyp e = Initial" and "estate e = gs_of ''none'' [] [] [] ''none'' [] []"
  shows "CheckEvent i prev e = Inr None"
  using assms by (simp add: CheckEvent_def CheckInitial_def check_simps all_working_def empty_boxes_def mk_record_def gm_empty_def boxes_def)

definition mk_event :: "int \<Rightarrow> EventType \<Rightarrow> TLA list \<Rightarrow> State \<Rightarrow> Event" where
  "mk_event line typ args gs =
     \<lparr>etyp = typ, params = args, estate = gs, efile = ''server.go'', eline = line\<rparr>"

definition log_event :: "Event \<Rightarrow> Monitor \<Rightarrow> Monitor" where
  "log_event e m = m\<lparr>events := events m @ [e]\<rparr>"

definition accepts :: "Monitor \<Rightarrow> State \<Rightarrow> bool" where
  "accepts m st \<longleftrightarrow> extra m = [] \<and> events m \<noteq> [] \<and> CheckTrace m = Inr None \<and> estate (last (events m)) = st"

definition rejects :: "Monitor \<Rightarrow> bool" where
  "rejects m \<longleftrightarrow> extra m = [] \<and> (\<exists>p. CheckTrace m = Inl p)"

definition mon_ok :: "Monitor \<Rightarrow> bool" where
  "mon_ok m \<longleftrightarrow> extra m = [] \<and> CheckTrace m = Inr None"

definition shaped :: "State \<Rightarrow> nat list \<Rightarrow> nat list \<Rightarrow> string \<Rightarrow> bool" where
  "shaped gs ps cs d \<longleftrightarrow> (\<exists>a as. gs = gs_of a as ps cs d [] [])"

definition traced :: "Monitor \<Rightarrow> State \<Rightarrow> nat list \<Rightarrow> nat list \<Rightarrow> string \<Rightarrow> bool" where
  "traced m gs ps cs d \<longleftrightarrow>
     (\<exists>a a' as. gs = gs_of a' as ps cs d [] [] \<and> accepts m (gs_of a as ps cs d [] []))"

lemma mk_event_sel [simp]:
  "etyp (mk_event l t as gs) = t" "params (mk_event l t as gs) = as" "estate (mk_event l t as gs) = gs"
  by (simp_all add: mk_event_def)

lemma log_event_sel [simp]:
  "extra (log_event e m) = extra m" "events (log_event e m) = events m @ [e]"
  by (simp_all add: log_event_def)

lemma accepts_log:
  assumes "accepts m st" and "\<And>i prev. estate prev = st \<Longrightarrow> CheckEvent i prev e = Inr None"
  shows "accepts (log_event e m) (estate e)"
  using assms by (simp add: accepts_def CheckTrace_def check_events_append)

lemma rejects_log: "rejects m \<Longrightarrow> rejects (log_event e m)"
  by (auto simp: rejects_def CheckTrace_def check_events_append)

lemma accepts_log_bad:
  assumes "accepts m st" and "\<And>i prev. estate prev = st \<Longrightarrow> \<exists>p. CheckEvent i prev e = Inl p"
  shows "rejects (log_event e m)"
proof -
  obtain p where "CheckEvent (length (events m)) (last (events m)) e = Inl p"
    using assms(2) [of "last (events m)" "length (events m)"] assms(1) by (auto simp: accepts_def)
  then show ?thesis using assms(1) by (simp add: accepts_def rejects_def CheckTrace_def check_events_append)
qed

lemma outbox_step_gs:
  "extra (monitor s) = [] \<Longrightarrow> outbox_step s (gs_of a as ps cs d oq iq) line msgs entry actor typ arg =
     (let gs' = gs_of actor (as @ [TSeq entry]) ps cs d msgs iq
      in Inr (s\<lparr>monitor := log_event (mk_event line typ [arg] gs') (monitor s)\<rparr>, gs'))"
  by (simp add: outbox_step_def append_to_def capture_def CaptureState_plain Append_def str_def seq_def
      gs_of_upd Let_def log_event_def mk_event_def)

lemma inbox_step_gs:
  "extra (monitor s) = [] \<Longrightarrow> inbox_step s (gs_of a as ps cs d oq iq) line msgs entry actor typ arg =
     (let gs' = gs_of actor (as @ [TSeq entry]) ps cs d oq msgs
      in Inr (s\<lparr>monitor := log_event (mk_event line typ [arg] gs') (monitor s)\<rparr>, gs'))"
  by (simp add: inbox_step_def append_to_def capture_def CaptureState_plain Append_def str_def seq_def
      gs_of_upd Let_def log_event_def mk_event_def)

lemmas mon_block_simps = outbox_step_gs inbox_step_gs Refine_msgs RefineParty_eq append_to_def
  Append_def gs_of_upd Let_def str_def

lemma mon_propose_sent_gs:
  assumes "extra (monitor s) = []"
  obtains e1 e2 as' where
    "mon_propose_sent pid s (gs_of a as ps cs d [] []) =
      Inr (s\<lparr>monitor := log_event e2 (log_event e1 (monitor s))\<rparr>, gs_of ''Network'' as' ps cs d [] [])"
    "estate e2 = gs_of ''Network'' as' ps cs d [] []"
    "\<And>i prev a0. estate prev = gs_of a0 as ps cs d [] [] \<Longrightarrow> d = ''none'' \<Longrightarrow> CheckEvent i prev e1 =
       (if set ps = {0, Suc 0} then Inl (Panicked (pre ''CSendPrepare'' i ''ToSet(tmPrepared) /= RM'')) else Inr None)"
    "\<And>i prev. estate prev = estate e1 \<Longrightarrow> CheckEvent i prev e2 = Inr None"
  using assms
  by (auto simp: mon_propose_sent_def mon_block_simps check_CSendPrepare check_NetworkTakeMessage)

lemma mon_prepared_gs:
  assumes "extra (monitor s) = []"
  obtains e1 e2 as' where
    "mon_prepared pid s (gs_of a as ps cs d [] []) =
      Inr (s\<lparr>monitor := log_event e2 (log_event e1 (monitor s))\<rparr>, gs_of ''coordinator'' as' (ps @ [pid]) cs d [] [])"
    "estate e2 = gs_of ''coordinator'' as' (ps @ [pid]) cs d [] []"
    "\<And>i prev a0. estate prev = gs_of a0 as ps cs d [] [] \<Longrightarrow> CheckEvent i prev e1 = Inr None"
    "\<And>i prev. estate prev = estate e1 \<Longrightarrow> pid \<notin> set ps \<Longrightarrow> CheckEvent i prev e2 = Inr None"
  using assms
  by (auto simp: mon_prepared_def mon_block_simps check_NetworkDeliverMessage check_CReceivePrepare)

lemma mon_commit_sent_gs:
  assumes "extra (monitor s) = []"
  obtains e1 e2 as' where
    "mon_commit_sent pid s (gs_of a as ps cs d [] []) =
      Inr (s\<lparr>monitor := log_event e2 (log_event e1 (monitor s))\<rparr>, gs_of ''Network'' as' ps cs ''commit'' [] [])"
    "estate e2 = gs_of ''Network'' as' ps cs ''commit'' [] []"
    "\<And>i prev a0. estate prev = gs_of a0 as ps cs d [] [] \<Longrightarrow> d \<noteq> ''abort'' \<Longrightarrow> CheckEvent i prev e1 =
       (if set ps = {0, Suc 0} then Inr None else Inl (Panicked (pre ''CSendCommit'' i ''ToSet(tmPrepared) = RM'')))"
    "\<And>i prev. estate prev = estate e1 \<Longrightarrow> CheckEvent i prev e2 = Inr None"
  using assms
  by (auto simp: mon_commit_sent_def mon_block_simps check_CSendCommit check_NetworkTakeMessage)

lemma mon_committed_gs:
  assumes "extra (monitor s) = []"
  obtains e1 e2 as' where
    "mon_committed pid s (gs_of a as ps cs d [] []) =
      Inr (s\<lparr>monitor := log_event e2 (log_event e1 (monitor s))\<rparr>, gs_of ''coordinator'' as' ps (cs @ [pid]) d [] [])"
    "estate e2 = gs_of ''coordinator'' as' ps (cs @ [pid]) d [] []"
    "\<And>i prev a0. estate prev = gs_of a0 as ps cs d [] [] \<Longrightarrow> CheckEvent i prev e1 = Inr None"
    "\<And>i prev. estate prev = estate e1 \<Longrightarrow> pid \<notin> set cs \<Longrightarrow> CheckEvent i prev e2 = Inr None"
  using assms
  by (auto simp: mon_committed_def mon_block_simps check_NetworkDeliverMessage check_CReceiveCommit)

lemma traced_extra: "traced m gs ps cs d \<Longrightarrow> extra m = []"
  by (auto simp: traced_def accepts_def)

text \<open>Two logged events that check keep the trace accepted.\<close>

lemma traced_log2:
  assumes "accepts m st"
    and "\<And>i prev. estate prev = st \<Longrightarrow> CheckEvent i prev e1 = Inr None"
    and "\<And>i prev. estate prev = estate e1 \<Longrightarrow> CheckEvent i prev e2 = Inr None"
    and "estate e2 = gs_of a as ps cs d [] []"
  shows "traced (log_event e2 (log_event e1 m)) (gs_of a as ps cs d [] []) ps cs d"
  using accepts_log [OF accepts_log [OF assms(1,2)] assms(3)] assms(4)
  unfolding traced_def by auto

text \<open>A first event that fails its check makes the trace rejected.\<close>

lemma rejects_log2:
  assumes "accepts m st" and "\<And>i prev. estate prev = st \<Longrightarrow> \<exists>p. CheckEvent i prev e1 = Inl p"
  shows "rejects (log_event e2 (log_event e1 m))"
  by (rule rejects_log) (rule accepts_log_bad [OF assms])

lemma mon_propose_sent_traced:
  assumes "traced (monitor s) gs ps cs ''none''" and "set ps \<noteq> {0, Suc 0}"
  shows "\<exists>m gs'. mon_propose_sent pid s gs = Inr (s\<lparr>monitor := m\<rparr>, gs') \<and> traced m gs' ps cs ''none''"
proof -
  obtain a a' as where gs: "gs = gs_of a' as ps cs ''none'' [] []"
      and acc: "accepts (monitor s) (gs_of a as ps cs ''none'' [] [])"
    using assms(1) by (auto simp: traced_def)
  have ex: "extra (monitor s) = []" using assms(1) by (rule traced_extra)
  show ?thesis
    unfolding gs
    by (rule mon_propose_sent_gs [OF ex, of pid a' as ps cs "''none''"], intro exI conjI, assumption,
        rule traced_log2 [OF acc]) (simp_all add: assms(2-))
qed

lemma mon_prepared_traced:
  assumes "traced (monitor s) gs ps cs d" and "pid \<notin> set ps"
  shows "\<exists>m gs'. mon_prepared pid s gs = Inr (s\<lparr>monitor := m\<rparr>, gs') \<and> traced m gs' (ps @ [pid]) cs d"
proof -
  obtain a a' as where gs: "gs = gs_of a' as ps cs d [] []"
      and acc: "accepts (monitor s) (gs_of a as ps cs d [] [])"
    using assms(1) by (auto simp: traced_def)
  have ex: "extra (monitor s) = []" using assms(1) by (rule traced_extra)
  show ?thesis
    unfolding gs
    by (rule mon_prepared_gs [OF ex, of pid a' as ps cs d], intro exI conjI, assumption,
        rule traced_log2 [OF acc]) (simp_all add: assms(2-))
qed

lemma mon_commit_sent_traced:
  assumes "traced (monitor s) gs ps cs d" and "set ps = {0, Suc 0}" and "d \<noteq> ''abort''"
  shows "\<exists>m gs'. mon_commit_sent pid s gs = Inr (s\<lparr>monitor := m\<rparr>, gs') \<and> traced m gs' ps cs ''commit''"
proof -
  obtain a a' as where gs: "gs = gs_of a' as ps cs d [] []"
      and acc: "accepts (monitor s) (gs_of a as ps cs d [] [])"
    using assms(1) by (auto simp: traced_def)
  have ex: "extra (monitor s) = []" using assms(1) by (rule traced_extra)
  show ?thesis
    unfolding gs
    by (rule mon_commit_sent_gs [OF ex, of pid a' as ps cs d], intro exI conjI, assumption,
        rule traced_log2 [OF acc]) (simp_all add: assms(2-))
qed

lemma mon_committed_traced:
  assumes "traced (monitor s) gs ps cs d" and "pid \<notin> set cs"
  shows "\<exists>m gs'. mon_committed pid s gs = Inr (s\<lparr>monitor := m\<rparr>, gs') \<and> traced m gs' ps (cs @ [pid]) d"
proof -
  obtain a a' as where gs: "gs = gs_of a' as ps cs d [] []"
      and acc: "accepts (monitor s) (gs_of a as ps cs d [] [])"
    using assms(1) by (auto simp: traced_def)
  have ex: "extra (monitor s) = []" using assms(1) by (rule traced_extra)
  show ?thesis
    unfolding gs
    by (rule mon_committed_gs [OF ex, of pid a' as ps cs d], intro exI conjI, assumption,
        rule traced_log2 [OF acc]) (simp_all add: assms(2-))
qed

text \<open>The blocks at which the monitor rejects, and that a rejected trace stays rejected.\<close>

lemma mon_propose_sent_bad:
  assumes "traced (monitor s) gs ps cs ''none''" and "set ps = {0, Suc 0}"
  shows "\<exists>m gs'. mon_propose_sent pid s gs = Inr (s\<lparr>monitor := m\<rparr>, gs') \<and> rejects m \<and> shaped gs' ps cs ''none''"
proof -
  obtain a a' as where gs: "gs = gs_of a' as ps cs ''none'' [] []"
      and acc: "accepts (monitor s) (gs_of a as ps cs ''none'' [] [])"
    using assms(1) by (auto simp: traced_def)
  have ex: "extra (monitor s) = []" using assms(1) by (rule traced_extra)
  show ?thesis
    unfolding gs
    by (rule mon_propose_sent_gs [OF ex, of pid a' as ps cs "''none''"], intro exI conjI, assumption,
        rule rejects_log2 [OF acc]) (auto simp: assms(2-) shaped_def)
qed

lemma mon_commit_sent_bad:
  assumes "traced (monitor s) gs ps cs d" and "set ps \<noteq> {0, Suc 0}" and "d \<noteq> ''abort''"
  shows "\<exists>m gs'. mon_commit_sent pid s gs = Inr (s\<lparr>monitor := m\<rparr>, gs') \<and> rejects m \<and> shaped gs' ps cs ''commit''"
proof -
  obtain a a' as where gs: "gs = gs_of a' as ps cs d [] []"
      and acc: "accepts (monitor s) (gs_of a as ps cs d [] [])"
    using assms(1) by (auto simp: traced_def)
  have ex: "extra (monitor s) = []" using assms(1) by (rule traced_extra)
  show ?thesis
    unfolding gs
    by (rule mon_commit_sent_gs [OF ex, of pid a' as ps cs d], intro exI conjI, assumption,
        rule rejects_log2 [OF acc]) (auto simp: assms(2-) shaped_def)
qed

lemma rejects_extra: "rejects m \<Longrightarrow> extra m = []"
  by (simp add: rejects_def)

lemma mon_blocks_rejects:
  assumes "rejects (monitor s)" and "shaped gs ps cs d"
  shows "\<exists>m gs'. mon_propose_sent pid s gs = Inr (s\<lparr>monitor := m\<rparr>, gs') \<and> rejects m \<and> shaped gs' ps cs d"
    and "\<exists>m gs'. mon_prepared pid s gs = Inr (s\<lparr>monitor := m\<rparr>, gs') \<and> rejects m \<and> shaped gs' (ps @ [pid]) cs d"
    and "\<exists>m gs'. mon_commit_sent pid s gs = Inr (s\<lparr>monitor := m\<rparr>, gs') \<and> rejects m \<and> shaped gs' ps cs ''commit''"
    and "\<exists>m gs'. mon_committed pid s gs = Inr (s\<lparr>monitor := m\<rparr>, gs') \<and> rejects m \<and> shaped gs' ps (cs @ [pid]) d"
proof -
  obtain a as where gs: "gs = gs_of a as ps cs d [] []"
    using assms(2) by (auto simp: shaped_def)
  note ex = rejects_extra [OF assms(1)]
  show "\<exists>m gs'. mon_propose_sent pid s gs = Inr (s\<lparr>monitor := m\<rparr>, gs') \<and> rejects m \<and> shaped gs' ps cs d"
    unfolding gs
    by (rule mon_propose_sent_gs [OF ex, of pid a as ps cs d], intro exI conjI, assumption)
      (auto simp: shaped_def intro: rejects_log assms(1))
  show "\<exists>m gs'. mon_prepared pid s gs = Inr (s\<lparr>monitor := m\<rparr>, gs') \<and> rejects m \<and> shaped gs' (ps @ [pid]) cs d"
    unfolding gs
    by (rule mon_prepared_gs [OF ex, of pid a as ps cs d], intro exI conjI, assumption)
      (auto simp: shaped_def intro: rejects_log assms(1))
  show "\<exists>m gs'. mon_commit_sent pid s gs = Inr (s\<lparr>monitor := m\<rparr>, gs') \<and> rejects m \<and> shaped gs' ps cs ''commit''"
    unfolding gs
    by (rule mon_commit_sent_gs [OF ex, of pid a as ps cs d], intro exI conjI, assumption)
      (auto simp: shaped_def intro: rejects_log assms(1))
  show "\<exists>m gs'. mon_committed pid s gs = Inr (s\<lparr>monitor := m\<rparr>, gs') \<and> rejects m \<and> shaped gs' ps (cs @ [pid]) d"
    unfolding gs
    by (rule mon_committed_gs [OF ex, of pid a as ps cs d], intro exI conjI, assumption)
      (auto simp: shaped_def intro: rejects_log assms(1))
qed

section \<open>The coordinator under the monitor\<close>

text \<open>What the phases of \<^verbatim>\<open>Put\<close> never change of the coordinator.\<close>

definition same_setup :: "'d Server \<Rightarrow> 'd Server \<Rightarrow> bool" where
  "same_setup s s' \<longleftrightarrow> Followers s' = Followers s \<and> srv_Config s' = srv_Config s"

lemma same_setup_refl [simp]: "same_setup s s"
  by (simp add: same_setup_def)

lemma same_setup_trans [trans]: "same_setup s t \<Longrightarrow> same_setup t u \<Longrightarrow> same_setup s u"
  by (simp add: same_setup_def)

lemma same_setup_upd [simp]:
  "same_setup s (t\<lparr>monitor := m\<rparr>) \<longleftrightarrow> same_setup s t"
  "same_setup s (t\<lparr>Height := h\<rparr>) \<longleftrightarrow> same_setup s t"
  "same_setup s (t\<lparr>NodeCache := c\<rparr>) \<longleftrightarrow> same_setup s t"
  "same_setup s (t\<lparr>DB := d\<rparr>) \<longleftrightarrow> same_setup s t"
  "same_setup (s\<lparr>monitor := m\<rparr>) t \<longleftrightarrow> same_setup s t"
  "same_setup (s\<lparr>DB := d\<rparr>) t \<longleftrightarrow> same_setup s t"
  by (simp_all add: same_setup_def)

text \<open>An invariant rule for the retry loop.\<close>

lemma propose_loop_rule:
  assumes ret: "propose_loop g pid f ctx ct req s gs w = Some r"
    and init: "I s gs w"
    and step: "\<And>s gs w. I s gs w \<Longrightarrow>
      (case propose_once g pid f ctx ct req s gs w of
         Inl p \<Rightarrow> Q (Inl p)
       | Inr ((resp, err), s1, gs1, w1) \<Rightarrow>
           if propose_again resp then I s1 gs1 w1 else Q (Inr ((resp, err), s1, gs1, w1)))"
  shows "Q r"
proof -
  let ?P = "\<lambda>g' pid' f' ctx' ct' req' s gs w r.
    (g', pid', f', ctx', ct', req') = (g, pid, f, ctx, ct, req) \<and> I s gs w \<longrightarrow> Q r"
  have "?P g pid f ctx ct req s gs w r"
  proof (rule propose_loop.raw_induct [where P = ?P, OF _ ret])
    fix F g' pid' f' ctx' ct' req' s gs w r
    assume IH: "\<And>g' pid' f' ctx' ct' req' s gs w r.
        F g' pid' f' ctx' ct' req' s gs w = Some r \<Longrightarrow> ?P g' pid' f' ctx' ct' req' s gs w r"
      and eq: "(case propose_once g' pid' f' ctx' ct' req' s gs w of
         Inl p \<Rightarrow> Some (Inl p)
       | Inr ((resp, err), s1, gs1, w1) \<Rightarrow>
           if propose_again resp then F g' pid' f' ctx' ct' req' s1 gs1 w1
           else Some (Inr ((resp, err), s1, gs1, w1))) = Some r"
    show "?P g' pid' f' ctx' ct' req' s gs w r"
    proof (rule impI, erule conjE)
      assume "(g', pid', f', ctx', ct', req') = (g, pid, f, ctx, ct, req)" and "I s gs w"
      then show "Q r"
        using step [of s gs w] eq IH
        by (auto split: sum.splits prod.splits if_splits)
    qed
  qed
  then show ?thesis using init by simp
qed

text \<open>
  The status of the trace during \<^verbatim>\<open>Put\<close>: accepted so far, or rejected already; in both cases
  \<open>gs\<close> is the coordinator's copy of the monitored state.
\<close>

definition status :: "bool \<Rightarrow> Monitor \<Rightarrow> State \<Rightarrow> nat list \<Rightarrow> nat list \<Rightarrow> string \<Rightarrow> bool" where
  "status b m gs ps cs d \<longleftrightarrow>
     (if b then traced m gs ps cs d else rejects m \<and> shaped gs ps cs d)"

lemma status_propose_sent:
  assumes "status b (monitor s) gs ps cs ''none''"
  shows "\<exists>m gs'. mon_propose_sent pid s gs = Inr (s\<lparr>monitor := m\<rparr>, gs') \<and>
    status (b \<and> set ps \<noteq> {0, Suc 0}) m gs' ps cs ''none''"
  using assms mon_propose_sent_traced [of s gs ps cs pid] mon_propose_sent_bad [of s gs ps cs pid]
    mon_blocks_rejects(1) [of s gs ps cs "''none''" pid]
  unfolding status_def by (cases b; cases "set ps = {0, Suc 0}") (simp_all del: insert_iff)

lemma status_prepared:
  assumes "status b (monitor s) gs ps cs d" and "pid \<notin> set ps"
  shows "\<exists>m gs'. mon_prepared pid s gs = Inr (s\<lparr>monitor := m\<rparr>, gs') \<and>
    status b m gs' (ps @ [pid]) cs d"
  using assms mon_prepared_traced [of s gs ps cs d pid] mon_blocks_rejects(2) [of s gs ps cs d pid]
  unfolding status_def by (cases b) simp_all

lemma status_commit_sent:
  assumes "status b (monitor s) gs ps cs d" and "d \<noteq> ''abort''"
  shows "\<exists>m gs'. mon_commit_sent pid s gs = Inr (s\<lparr>monitor := m\<rparr>, gs') \<and>
    status (b \<and> set ps = {0, Suc 0}) m gs' ps cs ''commit''"
  using assms mon_commit_sent_traced [of s gs ps cs d pid] mon_commit_sent_bad [of s gs ps cs d pid]
    mon_blocks_rejects(3) [of s gs ps cs d pid]
  unfolding status_def by (cases b; cases "set ps = {0, Suc 0}") (simp_all del: insert_iff)

lemma status_committed:
  assumes "status b (monitor s) gs ps cs d" and "pid \<notin> set cs"
  shows "\<exists>m gs'. mon_committed pid s gs = Inr (s\<lparr>monitor := m\<rparr>, gs') \<and>
    status b m gs' ps (cs @ [pid]) d"
  using assms mon_committed_traced [of s gs ps cs d pid] mon_blocks_rejects(4) [of s gs ps cs d pid]
  unfolding status_def by (cases b) simp_all

lemma status_CheckTrace:
  assumes "status b m gs ps cs d"
  shows "extra m = []" and "b \<Longrightarrow> CheckTrace m = Inr None" and "\<not> b \<Longrightarrow> \<exists>p. CheckTrace m = Inl p"
  using assms by (auto simp: status_def traced_def accepts_def rejects_def split: if_splits)

lemma put_start_status:
  assumes "mon_ok (monitor s)"
  shows "\<exists>m gs. put_start s = Inr (s\<lparr>monitor := m\<rparr>, gs) \<and> status True m gs [] [] ''none''"
proof -
  let ?e = "mk_event 231 Initial [] (gs_of ''none'' [] [] [] ''none'' [] [])"
  have "accepts (log_event ?e (monitor s)) (gs_of ''none'' [] [] [] ''none'' [] [])"
    using assms check_Initial [of ?e] by (simp add: mon_ok_def accepts_def CheckTrace_def check_events_append)
  moreover have "put_start s =
      Inr (s\<lparr>monitor := log_event ?e (monitor s)\<rparr>, gs_of ''coordinator'' [] [] [] ''none'' [] [])"
    using assms by (simp add: put_start_def Starting_eq capture_def mon_ok_def CaptureState_plain
        log_event_def mk_event_def str_def gs_of_upd)
  ultimately show ?thesis
    unfolding status_def traced_def by auto
qed

lemma propose_once_status:
  assumes "status b (monitor s) gs ps cs ''none''"
  shows "\<exists>resp err s1 gs1 w1. propose_once g pid f ctx ct req s gs w = Inr ((resp, err), s1, gs1, w1) \<and>
    (resp = None \<longleftrightarrow> err \<noteq> None) \<and> same_setup s s1 \<and>
    status (b \<and> set ps \<noteq> {0, Suc 0}) (monitor s1) gs1 ps cs ''none''"
proof -
  obtain m gs' where m: "mon_propose_sent pid s gs = Inr (s\<lparr>monitor := m\<rparr>, gs')"
      and st: "status (b \<and> set ps \<noteq> {0, Suc 0}) m gs' ps cs ''none''"
    using status_propose_sent [OF assms] by blast
  obtain resp err w1 where r: "peer_Propose g f ctx \<lparr>pKey = eKey req, pValue = eValue req,
      pCommitType = ct, pIndex = Height s\<rparr> w = ((resp, err), w1)"
    by (metis prod.collapse)
  then have "resp = None \<longleftrightarrow> err \<noteq> None"
    unfolding peer_defs by (rule stub_nil_iff_error)
  then show ?thesis
    using m st r by (auto simp: propose_once_def split: option.splits)
qed

text \<open>
  Whatever the transport does, the retry loop can only end with a reply that is not a refusal,
  and with no error.
\<close>

lemma propose_loop_status:
  assumes ret: "propose_loop g pid f ctx ct req s gs w = Some r"
    and st: "status b (monitor s) gs ps cs ''none''"
  shows "\<exists>resp s1 gs1 w1. r = Inr ((Some resp, None), s1, gs1, w1) \<and> rType resp \<noteq> NACK \<and> same_setup s s1 \<and>
    status (b \<and> set ps \<noteq> {0, Suc 0}) (monitor s1) gs1 ps cs ''none''"
proof (rule propose_loop_rule [OF ret, where I = "\<lambda>s' gs' w'. same_setup s s' \<and>
      (\<exists>b'. status b' (monitor s') gs' ps cs ''none'' \<and>
        (b' \<and> set ps \<noteq> {0, Suc 0} \<longleftrightarrow> b \<and> set ps \<noteq> {0, Suc 0}))"])
  show "same_setup s s \<and> (\<exists>b'. status b' (monitor s) gs ps cs ''none'' \<and>
        (b' \<and> set ps \<noteq> {0, Suc 0} \<longleftrightarrow> b \<and> set ps \<noteq> {0, Suc 0}))"
    using st by auto
next
  fix s' gs' w'
  assume inv: "same_setup s s' \<and> (\<exists>b'. status b' (monitor s') gs' ps cs ''none'' \<and>
        (b' \<and> set ps \<noteq> {0, Suc 0} \<longleftrightarrow> b \<and> set ps \<noteq> {0, Suc 0}))"
  then obtain b' where b': "status b' (monitor s') gs' ps cs ''none''"
      "b' \<and> set ps \<noteq> {0, Suc 0} \<longleftrightarrow> b \<and> set ps \<noteq> {0, Suc 0}" by blast
  obtain resp err s1 gs1 w1 where *: "propose_once g pid f ctx ct req s' gs' w' = Inr ((resp, err), s1, gs1, w1)"
      "resp = None \<longleftrightarrow> err \<noteq> None" "same_setup s' s1"
      "status (b \<and> set ps \<noteq> {0, Suc 0}) (monitor s1) gs1 ps cs ''none''"
    using propose_once_status [OF b'(1), of g pid f ctx ct req w'] b'(2) by auto
  then show "case propose_once g pid f ctx ct req s' gs' w' of
         Inl p \<Rightarrow> \<exists>resp s1 gs1 w1. Inl p = Inr ((Some resp, None), s1, gs1, w1) \<and> rType resp \<noteq> NACK \<and>
           same_setup s s1 \<and> status (b \<and> set ps \<noteq> {0, Suc 0}) (monitor s1) gs1 ps cs ''none''
       | Inr ((resp, err), s1, gs1, w1) \<Rightarrow>
           if propose_again resp then same_setup s s1 \<and> (\<exists>b'. status b' (monitor s1) gs1 ps cs ''none'' \<and>
             (b' \<and> set ps \<noteq> {0, Suc 0} \<longleftrightarrow> b \<and> set ps \<noteq> {0, Suc 0}))
           else \<exists>resp' s1' gs1' w1'. Inr ((resp, err), s1, gs1, w1) = Inr ((Some resp', None), s1', gs1', w1') \<and>
             rType resp' \<noteq> NACK \<and> same_setup s s1' \<and>
             status (b \<and> set ps \<noteq> {0, Suc 0}) (monitor s1') gs1' ps cs ''none''"
    using inv by (auto simp: propose_again_def intro: same_setup_trans split: option.splits)
qed

lemma propose_reply_status:
  assumes "status b (monitor s) gs ps cs ''none''" and "pid \<notin> set ps" and "rType resp \<noteq> NACK"
  shows "\<exists>ret s1 gs1. propose_reply pid req (Some resp) None s gs = Inr (ret, s1, gs1) \<and> same_setup s s1 \<and>
    (if rType resp = ACK then ret = None \<and> status b (monitor s1) gs1 (ps @ [pid]) cs ''none''
     else ret = Some not_acknowledged \<and> status b (monitor s1) gs1 ps cs ''none'')"
proof -
  let ?s = "s\<lparr>NodeCache := cache_Set (NodeCache s) (Height s) (eKey req) (eValue req)\<rparr>"
  have "status b (monitor ?s) gs ps cs ''none''" using assms(1) by simp
  from status_prepared [OF this assms(2)] show ?thesis
    using assms by (cases "rType resp = ACK") (auto simp: propose_reply_def)
qed

lemma set_upt_two: "set [0..<k] = {0, Suc 0} \<longleftrightarrow> k = 2"
proof
  assume "set [0..<k] = {0, Suc 0}"
  then have "card {0..<k} = card {0, Suc 0}" by simp
  then show "k = 2" by simp
qed auto

text \<open>The phase on its first follower: it goes on with the next one after an ACK and ends otherwise.\<close>

lemma propose_phase_first:
  assumes "propose_phase g ct req pid (f # fs) ctx s gs w = Some r"
    and "status b (monitor s) gs [0..<pid] [] ''none''"
  obtains (acknowledged) s2 gs2 w1 where "same_setup s s2"
      "propose_phase g ct req (Suc pid) fs (put_context s ctx) s2 gs2 w1 = Some r"
      "status (b \<and> pid \<noteq> 2) (monitor s2) gs2 [0..<Suc pid] [] ''none''"
      "\<exists>resp s1 gs1. propose_loop g pid f (put_context s ctx) ct req s gs w = Some (Inr ((Some resp, None), s1, gs1, w1))"
  | (ended) s2 gs2 w1 where "same_setup s s2" "r = Inr (Some not_acknowledged, s2, gs2, put_context s ctx, w1)"
      "status (b \<and> pid \<noteq> 2) (monitor s2) gs2 [0..<pid] [] ''none''"
      "\<exists>resp s1 gs1. propose_loop g pid f (put_context s ctx) ct req s gs w = Some (Inr ((Some resp, None), s1, gs1, w1)) \<and>
         rType resp \<noteq> ACK"
proof -
  obtain r1 where r1: "propose_loop g pid f (put_context s ctx) ct req s gs w = Some r1"
    using assms(1) by (cases "propose_loop g pid f (put_context s ctx) ct req s gs w") auto
  from propose_loop_status [OF r1 assms(2), unfolded set_upt_two] obtain resp s1 gs1 w1
    where l: "r1 = Inr ((Some resp, None), s1, gs1, w1)" "rType resp \<noteq> NACK" "same_setup s s1"
      "status (b \<and> pid \<noteq> 2) (monitor s1) gs1 [0..<pid] [] ''none''"
    by blast
  from propose_reply_status [OF l(4) _ l(2), of pid req] obtain ret s2 gs2
    where q: "propose_reply pid req (Some resp) None s1 gs1 = Inr (ret, s2, gs2)" "same_setup s1 s2"
      "if rType resp = ACK then ret = None \<and> status (b \<and> pid \<noteq> 2) (monitor s2) gs2 [0..<Suc pid] [] ''none''
     else ret = Some not_acknowledged \<and> status (b \<and> pid \<noteq> 2) (monitor s2) gs2 [0..<pid] [] ''none''"
    by auto
  have same: "same_setup s s2" using l(3) q(2) by (rule same_setup_trans)
  show thesis
  proof (cases "rType resp = ACK")
    case True
    then show thesis using assms(1) r1 l(1) q(1,3) by (intro acknowledged [OF same, of gs2 w1]) simp_all
  next
    case False
    then show thesis using assms(1) r1 l(1) q(1,3) by (intro ended [OF same, of gs2 w1]) simp_all
  qed
qed

lemma propose_phase_status:
  assumes "propose_phase g ct req pid fs ctx s gs w = Some r"
    and "status b (monitor s) gs [0..<pid] [] ''none''"
  shows "\<exists>ret s1 gs1 ctx1 w1. r = Inr (ret, s1, gs1, ctx1, w1) \<and> same_setup s s1 \<and>
    (case ret of
       None \<Rightarrow> status (b \<and> 2 \<notin> {pid..<pid + length fs}) (monitor s1) gs1 [0..<pid + length fs] [] ''none''
     | Some reply \<Rightarrow> reply = not_acknowledged \<and> (\<exists>b' k. status b' (monitor s1) gs1 [0..<k] [] ''none'' \<and>
         (b \<and> 2 \<notin> {pid..<pid + length fs} \<longrightarrow> b')))"
  using assms
proof (induction fs arbitrary: pid ctx s gs w b)
  case Nil
  then show ?case by auto
next
  case (Cons f fs)
  have two: "(b \<and> pid \<noteq> 2) \<and> 2 \<notin> {Suc pid..<Suc pid + length fs} \<longleftrightarrow>
      b \<and> 2 \<notin> {pid..<pid + length (f # fs)}" by auto
  from Cons.prems show ?case
  proof (cases rule: propose_phase_first)
    case (acknowledged s2 gs2 w1)
    from Cons.IH [OF acknowledged(2,3), unfolded two] obtain ret s3 gs3 ctx3 w3
      where ih: "r = Inr (ret, s3, gs3, ctx3, w3)" "same_setup s2 s3"
        "case ret of None \<Rightarrow> status (b \<and> 2 \<notin> {pid..<pid + length (f # fs)}) (monitor s3) gs3
            [0..<Suc pid + length fs] [] ''none''
         | Some reply \<Rightarrow> reply = not_acknowledged \<and> (\<exists>b' k. status b' (monitor s3) gs3 [0..<k] [] ''none'' \<and>
           (b \<and> 2 \<notin> {pid..<pid + length (f # fs)} \<longrightarrow> b'))"
      by blast
    have "same_setup s s3" using acknowledged(1) ih(2) by (rule same_setup_trans)
    then show ?thesis using ih(1,3) by (auto split: option.splits)
  next
    case (ended s2 gs2 w1)
    have "\<exists>b' k. status b' (monitor s2) gs2 [0..<k] [] ''none'' \<and>
        (b \<and> 2 \<notin> {pid..<pid + length (f # fs)} \<longrightarrow> b')"
      by (rule exI [of _ "b \<and> pid \<noteq> 2"], rule exI [of _ pid]) (use ended(3) in auto)
    then show ?thesis using ended(1,2) by simp
  qed
qed

text \<open>The client stubs never give a nil reply without an error, so no phase panics on one.\<close>

definition gives_up :: "Response reply \<Rightarrow> bool" where
  "gives_up r \<longleftrightarrow> r = (Some nack, None) \<or> r = not_acknowledged"

lemma gives_up_not_ack: "gives_up r \<Longrightarrow> r \<noteq> (Some ack, None)"
  by (auto simp: gives_up_def nack_def ack_def not_acknowledged_def)

lemma phase_reply_total:
  "stub_result x = (r, w) \<Longrightarrow> \<exists>ret. phase_reply r = Inr ret \<and>
     (ret = None \<longrightarrow> (\<exists>resp. r = (Some resp, None) \<and> rType resp = ACK)) \<and>
     pred_option gives_up ret"
  by (auto simp: stub_result_def phase_reply_def gives_up_def split: prod.splits sum.splits)

lemma precommit_phase_total:
  "\<exists>ret ctx1 w1. precommit_phase g s fs ctx w = Inr (ret, ctx1, w1) \<and>
     pred_option gives_up ret"
proof (induction fs arbitrary: ctx w)
  case (Cons f fs)
  obtain r w1 where r: "stub_result (invoke_Precommit g (Connection f) (put_context s ctx) \<lparr>pcIndex = Height s\<rparr> w) = (r, w1)"
    by fastforce
  from phase_reply_total [OF r] show ?case
    using Cons.IH r by (auto simp: peer_defs split: option.splits)
qed simp

lemma commit_phase_status:
  assumes "status b (monitor s) gs ps [0..<pid] d" and "d \<noteq> ''abort''"
    and "b' \<longleftrightarrow> b \<and> (set ps = {0, Suc 0} \<or> fs = [])"
  shows "\<exists>ret s1 gs1 w1. commit_phase g pid fs ctx s gs w = Inr (ret, s1, gs1, w1) \<and> same_setup s s1 \<and>
    (\<exists>k d'. status b' (monitor s1) gs1 ps [0..<k] d') \<and>
    pred_option gives_up ret"
  using assms
proof (induction fs arbitrary: pid s gs w b d)
  case Nil
  then show ?case by auto
next
  case (Cons f fs)
  have b': "b' \<longleftrightarrow> b \<and> set ps = {0, Suc 0}" "b' \<longleftrightarrow> b' \<and> (set ps = {0, Suc 0} \<or> fs = [])"
    using Cons.prems(3) by auto
  obtain m gs1 where m: "mon_commit_sent pid s gs = Inr (s\<lparr>monitor := m\<rparr>, gs1)"
      and st: "status b' m gs1 ps [0..<pid] ''commit''"
    using status_commit_sent [OF Cons.prems(1,2)] b'(1) by blast
  let ?s = "s\<lparr>monitor := m\<rparr>"
  obtain r w1 where r: "stub_result (invoke_Commit g (Connection f) ctx
      \<lparr>cIndex = Height ?s, cIsRollback = False\<rparr> w) = (r, w1)"
    by fastforce
  obtain ret where ret: "phase_reply r = Inr ret"
      "pred_option gives_up ret"
    using phase_reply_total [OF r] by blast
  show ?case
  proof (cases ret)
    case None
    have "status b' (monitor ?s) gs1 ps [0..<pid] ''commit''" using st by simp
    from status_committed [OF this, of pid] obtain m2 gs2
      where m2: "mon_committed pid ?s gs1 = Inr (?s\<lparr>monitor := m2\<rparr>, gs2)"
        "status b' m2 gs2 ps [0..<Suc pid] ''commit''" by auto
    then have "status b' (monitor (?s\<lparr>monitor := m2\<rparr>)) gs2 ps [0..<Suc pid] ''commit''" by simp
    from Cons.IH [OF this _ b'(2), of w1] show ?thesis
      using m r ret None m2(1) by (simp add: peer_defs)
  next
    case (Some reply)
    have "\<exists>k d'. status b' m gs1 ps [0..<k] d'" using st by blast
    then show ?thesis using m r ret Some by (simp add: peer_defs)
  qed
qed

text \<open>
  The outcome of \<^verbatim>\<open>Put\<close> on a coordinator whose monitor is in order, whatever the transport,
  the database and the followers do.
\<close>

lemma put_finish_status:
  assumes "status b (monitor s) gs ps cs d"
  shows "if b then put_finish s w = Inr ((Some ack, None), (incr_Height s)\<lparr>monitor := Reset (monitor s)\<rparr>, w)
    else \<exists>p. put_finish s w = Inl p"
  using status_CheckTrace [OF assms] by (auto simp: put_finish_def Let_def incr_Height_def)

lemma mon_ok_Reset [simp]: "extra m = [] \<Longrightarrow> mon_ok (Reset m)"
  by (simp add: mon_ok_def Reset_def CheckTrace_def)

lemma status_mon_ok: "status True m gs ps cs d \<Longrightarrow> mon_ok m"
  by (simp add: status_def traced_def accepts_def mon_ok_def) blast

lemma put_decide_status:
  assumes st: "status b (monitor s) gs ps [] ''none''"
    and b': "b' \<longleftrightarrow> b \<and> (set ps = {0, Suc 0} \<or> Followers s = [])"
  shows "case put_decide g dbi s gs ctx w of
      Inl p \<Rightarrow> \<not> b'
    | Inr (reply, s1, w1) \<Rightarrow> same_setup s s1 \<and> (b' \<longrightarrow> mon_ok (monitor s1)) \<and>
        (reply = (Some ack, None) \<longrightarrow> b')"
proof -
  obtain ret ctx1 w1 where pc: "precommit_phase g s (Followers s) ctx w = Inr (ret, ctx1, w1)"
      "pred_option gives_up ret"
    using precommit_phase_total [of g s "Followers s" ctx w] by blast
  have ok: "b' \<Longrightarrow> mon_ok (monitor s)"
    using st b' status_mon_ok by (cases b) auto
  show ?thesis
  proof (cases ret)
    case (Some reply)
    then show ?thesis
      using pc ok gives_up_not_ack [of reply] by (simp add: put_decide_def split: prod.split)
  next
    case None
    obtain key val present where g: "cache_Get (NodeCache s) (Height s) = (key, val, present)"
      by (metis prod_cases3)
    obtain e d where p: "DB_Put dbi key val (DB s) = (e, d)" by fastforce
    obtain ret2 s2 gs2 w2 k d2 where cp:
        "commit_phase g 0 (Followers s) ctx1 (s\<lparr>DB := d\<rparr>) gs w1 = Inr (ret2, s2, gs2, w2)"
        "same_setup s s2" "status b' (monitor s2) gs2 ps [0..<k] d2"
        "pred_option gives_up ret2"
      using commit_phase_status [of b "s\<lparr>DB := d\<rparr>" gs ps 0 "''none''", OF _ _ b', of g ctx1 w1] st
      by (simp del: split_paired_All) blast
    have "b' \<Longrightarrow> mon_ok (monitor s2)" using cp(3) status_mon_ok by (cases b') auto
    moreover have "extra (monitor s2) = []" using cp(3) by (rule status_CheckTrace)
    moreover have "b' \<Longrightarrow> put_finish s2 w2 = Inr ((Some ack, None), (incr_Height s2)\<lparr>monitor := Reset (monitor s2)\<rparr>, w2)"
      "\<not> b' \<Longrightarrow> \<exists>p. put_finish s2 w2 = Inl p"
      using put_finish_status [OF cp(3), of w2] by simp_all
    ultimately show ?thesis
      using None pc g p cp(1,2,4) ok gives_up_not_ack
      by (cases b'; cases ret2; cases e; cases present)
        (auto simp: put_decide_def put_persist_def incr_Height_def same_setup_def nack_def ack_def)
  qed
qed

lemma put_status:
  assumes ok: "mon_ok (monitor s)" and ret: "Put g dbi s ctx req w = Some r"
  shows "case r of
      Inl p \<Rightarrow> length (Followers s) \<notin> {0, 2}
    | Inr (reply, s1, w1) \<Rightarrow> same_setup s s1 \<and>
        (length (Followers s) \<in> {0, 2} \<longrightarrow> mon_ok (monitor s1)) \<and>
        (reply = (Some ack, None) \<longrightarrow> length (Followers s) \<in> {0, 2})"
proof -
  obtain m gs where start: "put_start s = Inr (s\<lparr>monitor := m\<rparr>, gs)" "status True m gs [] [] ''none''"
    using put_start_status [OF ok] by blast
  let ?s = "s\<lparr>monitor := m\<rparr>" and ?n = "length (Followers s)"
  obtain r1 where r1: "propose_phase g (put_ctype s) req 0 (Followers ?s) ctx ?s gs w = Some r1"
    using ret start by (auto simp: Put_def split: option.splits)
  have st0: "status True (monitor ?s) gs [0..<0] [] ''none''" using start(2) by simp
  obtain ret1 s1 gs1 ctx1 w1 where p: "r1 = Inr (ret1, s1, gs1, ctx1, w1)" "same_setup s s1"
      "case ret1 of None \<Rightarrow> status (2 \<notin> {0..<?n}) (monitor s1) gs1 [0..<?n] [] ''none''
       | Some reply \<Rightarrow> reply = not_acknowledged \<and> (\<exists>b' k. status b' (monitor s1) gs1 [0..<k] [] ''none'' \<and>
           (2 \<notin> {0..<?n} \<longrightarrow> b'))"
    using propose_phase_status [OF r1 st0] by (simp add: same_setup_def cong: option.case_cong) blast
  show ?thesis
  proof (cases ret1)
    case None
    then have "r = put_decide g dbi s1 gs1 ctx1 w1"
      using ret start r1 p(1) by (simp add: Put_def)
    moreover have "?n \<in> {0, 2} \<longleftrightarrow> 2 \<notin> {0..<?n} \<and> (set [0..<?n] = {0, Suc 0} \<or> Followers s1 = [])"
      unfolding set_upt_two using p(2) by (auto simp: same_setup_def)
    moreover have "status (2 \<notin> {0..<?n}) (monitor s1) gs1 [0..<?n] [] ''none''"
      using p(3) None by simp
    ultimately have "case r of Inl p \<Rightarrow> ?n \<notin> {0, 2} | Inr (reply, s2, w2) \<Rightarrow> same_setup s1 s2 \<and>
        (?n \<in> {0, 2} \<longrightarrow> mon_ok (monitor s2)) \<and> (reply = (Some ack, None) \<longrightarrow> ?n \<in> {0, 2})"
      using put_decide_status [of "2 \<notin> {0..<?n}" s1 gs1 "[0..<?n]" "?n \<in> {0, 2}" g dbi ctx1 w1] by blast
    then show ?thesis
      using p(2) same_setup_trans by (cases r) (simp, fastforce simp del: insert_iff)
  next
    case (Some reply)
    then have r: "r = Inr (reply, s1, w1)" and na: "reply = not_acknowledged"
      using ret start r1 p(1,3) by (simp_all add: Put_def)
    have "mon_ok (monitor s1)" if "?n \<in> {0, 2}"
      using p(3) Some that status_mon_ok by fastforce
    then show ?thesis using r na p(2) by (simp add: not_acknowledged_def)
  qed
qed

section \<open>Runs of the retry loop\<close>

text \<open>What a call has to answer for the retry loop to end.\<close>

definition acked :: "error + Response \<Rightarrow> bool" where
  "acked r = (case r of Inl _ \<Rightarrow> False | Inr resp \<Rightarrow> rType resp \<noteq> NACK)"

definition acked_run :: "(Response reply \<times> 'd Server \<times> State \<times> 'w) go \<Rightarrow> bool" where
  "acked_run x = (case x of Inl _ \<Rightarrow> True
     | Inr ((response, err), _) \<Rightarrow> err = None \<and> (\<exists>r. response = Some r \<and> rType r \<noteq> NACK))"

text \<open>The request of one pass of the retry loop, and the height after its answer.\<close>

definition proposal :: "CommitType \<Rightarrow> Entry \<Rightarrow> uint64 \<Rightarrow> ProposeRequest" where
  "proposal ct req h = \<lparr>pKey = eKey req, pValue = eValue req, pCommitType = ct, pIndex = h\<rparr>"

definition bumped_height :: "uint64 \<Rightarrow> error + Response \<Rightarrow> uint64" where
  "bumped_height h r = (case r of Inl _ \<Rightarrow> h | Inr resp \<Rightarrow> max h (rIndex resp))"

lemma propose_once_total:
  assumes "status b (monitor s) gs ps [] ''none''"
  obtains b' m gs' where
    "propose_once g pid f ctx ct req s gs w =
       (case invoke_Propose g (Connection f) ctx (proposal ct req (Height s)) w of
        (r, w') \<Rightarrow> Inr (fst (stub_result (r, w')),
          s\<lparr>monitor := m, Height := bumped_height (Height s) r\<rparr>, gs', w'))"
    "status b' m gs' ps [] ''none''"
proof -
  obtain m gs' where m: "mon_propose_sent pid s gs = Inr (s\<lparr>monitor := m\<rparr>, gs')"
      "status (b \<and> set ps \<noteq> {0, Suc 0}) m gs' ps [] ''none''"
    using status_propose_sent [OF assms] by blast
  have "s\<lparr>monitor := m\<rparr> = s\<lparr>monitor := m, Height := Height s\<rparr>" by simp
  with m show thesis
    by (intro that [of m gs'])
      (auto simp: propose_once_def peer_defs proposal_def bumped_height_def max_def Let_def
        split: prod.split sum.split)
qed

lemma propose_loop_step:
  assumes "status b (monitor s) gs ps [] ''none''"
    and "invoke_Propose g (Connection f) ctx (proposal ct req (Height s)) w = (r, w')"
  obtains b' s' gs' where "status b' (monitor s') gs' ps [] ''none''" "same_setup s s'"
    "propose_once g pid f ctx ct req s gs w = Inr (fst (stub_result (r, w')), s', gs', w')"
    "propose_loop g pid f ctx ct req s gs w =
       (if acked r then Some (Inr (fst (stub_result (r, w')), s', gs', w'))
        else propose_loop g pid f ctx ct req s' gs' w')"
proof -
  from assms(1) obtain b' m gs' where o: "propose_once g pid f ctx ct req s gs w =
      (case invoke_Propose g (Connection f) ctx (proposal ct req (Height s)) w of
        (r, w') \<Rightarrow> Inr (fst (stub_result (r, w')),
          s\<lparr>monitor := m, Height := bumped_height (Height s) r\<rparr>, gs', w'))"
    "status b' m gs' ps [] ''none''"
    by (rule propose_once_total)
  show thesis
  proof (rule that)
    show "status b' (monitor (s\<lparr>monitor := m, Height := bumped_height (Height s) r\<rparr>)) gs' ps [] ''none''"
      using o(2) by simp
    show once: "propose_once g pid f ctx ct req s gs w = Inr (fst (stub_result (r, w')),
        s\<lparr>monitor := m, Height := bumped_height (Height s) r\<rparr>, gs', w')"
      using o(1) assms(2) by simp
    show "propose_loop g pid f ctx ct req s gs w =
       (if acked r then Some (Inr (fst (stub_result (r, w')),
          s\<lparr>monitor := m, Height := bumped_height (Height s) r\<rparr>, gs', w'))
        else propose_loop g pid f ctx ct req
          (s\<lparr>monitor := m, Height := bumped_height (Height s) r\<rparr>) gs' w')"
      by (subst propose_loop.simps, simp only: once) (cases r; simp add: acked_def propose_again_def)
  qed (simp add: same_setup_def)
qed

text \<open>
  \<open>dead\<close> is a condition on the outside world that no proposal ends. If it holds when the loop
  begins, it holds when the loop is left, and the reply was given under it.
\<close>

lemma propose_loop_dead:
  assumes st: "status b (monitor s) gs ps [] ''none''" and "dead w"
    and closed: "\<And>q w. dead w \<Longrightarrow> dead (snd (invoke_Propose g (Connection f) ctx q w))"
    and ret: "propose_loop g pid f ctx ct req s gs w = Some (Inr ((Some resp, err), s1, gs1, w1))"
  shows "dead w1 \<and> (\<exists>q w'. dead w' \<and> fst (invoke_Propose g (Connection f) ctx q w') = Inr resp \<and> rType resp \<noteq> NACK)"
proof -
  define Q where "Q x \<longleftrightarrow> (\<forall>resp err s1 gs1 w1. x = Inr ((Some resp, err), s1, gs1, w1) \<longrightarrow> dead w1 \<and>
      (\<exists>q w'. dead w' \<and> fst (invoke_Propose g (Connection f) ctx q w') = Inr resp \<and> rType resp \<noteq> NACK))"
    for x :: "(Response reply \<times> 'a Server \<times> State \<times> 'b) go"
  have "Q (Inr ((Some resp, err), s1, gs1, w1))"
  proof (rule propose_loop_rule [OF ret, where Q = Q and
        I = "\<lambda>s gs w. dead w \<and> (\<exists>b. status b (monitor s) gs ps [] ''none'')"])
    show "dead w \<and> (\<exists>b. status b (monitor s) gs ps [] ''none'')" using assms(1,2) by blast
  next
    fix s :: "'a Server" and gs w
    assume "dead w \<and> (\<exists>b. status b (monitor s) gs ps [] ''none'')"
    then obtain b where st: "status b (monitor s) gs ps [] ''none''" and "dead w" by blast
    obtain r w' where i: "invoke_Propose g (Connection f) ctx (proposal ct req (Height s)) w = (r, w')"
      by fastforce
    have d: "dead w'" using closed [OF \<open>dead w\<close>, of "proposal ct req (Height s)"] i by simp
    from st i obtain b' s' gs' where "status b' (monitor s') gs' ps [] ''none''"
        "propose_once g pid f ctx ct req s gs w = Inr (fst (stub_result (r, w')), s', gs', w')"
      by (rule propose_loop_step [where pid = pid]) blast
    moreover have "fst (invoke_Propose g (Connection f) ctx (proposal ct req (Height s)) w) = r" using i by simp
    ultimately show "case propose_once g pid f ctx ct req s gs w of Inl p \<Rightarrow> Q (Inl p)
      | Inr ((resp, err), s1, gs1, w1) \<Rightarrow>
          if propose_again resp then dead w1 \<and> (\<exists>b. status b (monitor s1) gs1 ps [] ''none'') else Q (Inr ((resp, err), s1, gs1, w1))"
      using d \<open>dead w\<close> by (cases r) (auto simp: Q_def propose_again_def)
  qed
  then show ?thesis by (simp add: Q_def)
qed

lemma propose_loop_diverges:
  assumes st: "status b (monitor s) gs ps [] ''none''" and "dead w"
    and "\<And>q w. dead w \<Longrightarrow> dead (snd (invoke_Propose g (Connection f) ctx q w))"
    and never: "\<And>q w. dead w \<Longrightarrow> \<not> acked (fst (invoke_Propose g (Connection f) ctx q w))"
  shows "propose_loop g pid f ctx ct req s gs w = None"
proof (cases "propose_loop g pid f ctx ct req s gs w")
  case (Some r)
  from propose_loop_status [OF Some st] obtain resp s1 gs1 w1 where r: "r = Inr ((Some resp, None), s1, gs1, w1)" by blast
  from st \<open>dead w\<close> assms(3) Some [unfolded r]
  have "\<exists>q w'. dead w' \<and> fst (invoke_Propose g (Connection f) ctx q w') = Inr resp \<and> rType resp \<noteq> NACK"
    by (rule propose_loop_dead [where dead = dead, THEN conjunct2])
  then obtain q w' where "dead w'" "fst (invoke_Propose g (Connection f) ctx q w') = Inr resp" "rType resp \<noteq> NACK" by blast
  then show ?thesis using never [of w' q] by (simp add: acked_def)
qed simp

lemma same_setup_put_context: "same_setup s s' \<Longrightarrow> put_context s' = put_context s"
  by (simp add: fun_eq_iff same_setup_def put_context_def three_phase_def)

text \<open>
  The phase does not end when the world is dead for one of the followers: the followers before it
  answer with ACK or NACK, so that its turn comes. \<open>bad\<close> is a condition on the contexts of the calls.
\<close>

lemma propose_phase_diverges:
  assumes closed: "\<And>cc ctx q w. dead w \<Longrightarrow> dead (snd (invoke_Propose g cc ctx q w))"
    and never: "\<And>ctx q w. dead w \<Longrightarrow> bad ctx \<Longrightarrow> \<not> acked (fst (invoke_Propose g (Connection f) ctx q w))"
    and binary: "\<And>x ctx q w r. x \<in> set xs \<Longrightarrow> fst (invoke_Propose g (Connection x) ctx q w) = Inr r \<Longrightarrow> rType r \<in> {ACK, NACK}"
    and "status b (monitor s) gs [0..<pid] [] ''none''" and "dead w" and "\<And>ctx. bad (put_context s ctx)"
  shows "propose_phase g ct req pid (xs @ f # ys) ctx s gs w = None"
  using assms(3-)
proof (induction xs arbitrary: pid ctx s gs w b)
  case Nil
  from propose_loop_diverges [OF Nil.prems(2,3) closed never] Nil.prems(4) show ?case by simp
next
  case (Cons x xs)
  show ?case
  proof (cases "propose_phase g ct req pid ((x # xs) @ f # ys) ctx s gs w")
    case (Some r)
    from Some [unfolded append_Cons] Cons.prems(2) show ?thesis
    proof (cases rule: propose_phase_first)
      case (acknowledged s2 gs2 w1)
      have "dead w1" using propose_loop_dead [where dead = dead, OF Cons.prems(2,3) closed] acknowledged(4) by blast
      moreover have "bad (put_context s2 ctx)" for ctx
        using Cons.prems(4) same_setup_put_context [OF acknowledged(1)] by simp
      ultimately have "propose_phase g ct req (Suc pid) (xs @ f # ys) (put_context s ctx) s2 gs2 w1 = None"
        by (intro Cons.IH [OF _ acknowledged(3)]) (auto dest: Cons.prems(1) [rotated] simp del: insert_iff)
      then show ?thesis using acknowledged(2) by simp
    next
      case (ended s2 gs2 w1)
      then show ?thesis
        using propose_loop_dead [where dead = dead, OF Cons.prems(2,3) closed] Cons.prems(1) by fastforce
    qed
  qed simp
qed

lemma Put_hangs:
  assumes "Followers s = xs @ f # ys" and "mon_ok (monitor s)" and "dead w" and "\<And>ctx. bad (put_context s ctx)"
    and "\<And>cc ctx q w. dead w \<Longrightarrow> dead (snd (invoke_Propose g cc ctx q w))"
    and "\<And>ctx q w. dead w \<Longrightarrow> bad ctx \<Longrightarrow> \<not> acked (fst (invoke_Propose g (Connection f) ctx q w))"
    and "\<And>x ctx q w r. x \<in> set xs \<Longrightarrow> fst (invoke_Propose g (Connection x) ctx q w) = Inr r \<Longrightarrow> rType r \<in> {ACK, NACK}"
  shows "Put g dbi s ctx req w = None"
proof -
  obtain m gs where start: "put_start s = Inr (s\<lparr>monitor := m\<rparr>, gs)" "status True m gs [] [] ''none''"
    using put_start_status [OF assms(2)] by blast
  let ?s = "s\<lparr>monitor := m\<rparr>"
  have "status True (monitor ?s) gs [0..<0] [] ''none''" using start(2) by simp
  moreover have "put_context ?s = put_context s" by (rule same_setup_put_context) (simp add: same_setup_def)
  ultimately have "propose_phase g (put_ctype s) req 0 (xs @ f # ys) ctx ?s gs w = None"
    using assms(3,4) by (intro propose_phase_diverges [where dead = dead and bad = bad, OF assms(5-7)]) simp_all
  then show ?thesis using start(1) assms(1) by (simp add: Put_def)
qed

text \<open>A transport on which only finitely many proposals in a row are refused or fail.\<close>

definition answers :: "'w grpc \<Rightarrow> ('w \<Rightarrow> nat) \<Rightarrow> bool" where
  "answers g left \<longleftrightarrow>
     (\<forall>cc ctx req w. case invoke_Propose g cc ctx req w of (r, w') \<Rightarrow> acked r \<or> left w' < left w)"

lemma propose_loop_returns:
  assumes "answers g left" and "status b (monitor s) gs ps [] ''none''"
  shows "\<exists>r. propose_loop g pid f ctx ct req s gs w = Some r"
  using assms(2)
proof (induction "left w" arbitrary: b s gs w rule: less_induct)
  case less
  obtain r w' where i: "invoke_Propose g (Connection f) ctx (proposal ct req (Height s)) w = (r, w')"
    by fastforce
  then have dec: "acked r \<or> left w' < left w" using assms(1) unfolding answers_def by (metis case_prod_conv)
  from less.prems i obtain b' s' gs' where "status b' (monitor s') gs' ps [] ''none''"
      "propose_loop g pid f ctx ct req s gs w =
       (if acked r then Some (Inr (fst (stub_result (r, w')), s', gs', w'))
        else propose_loop g pid f ctx ct req s' gs' w')"
    by (rule propose_loop_step [where pid = pid])
  then show ?case using dec less.hyps by (cases "acked r") auto
qed

lemma propose_phase_returns:
  assumes "answers g left" and "status b (monitor s) gs [0..<pid] [] ''none''"
  shows "\<exists>r. propose_phase g ct req pid fs ctx s gs w = Some r"
  using assms(2)
proof (induction fs arbitrary: pid ctx s gs w b)
  case (Cons f fs)
  obtain r1 where r1: "propose_loop g pid f (put_context s ctx) ct req s gs w = Some r1"
    using propose_loop_returns [OF assms(1) Cons.prems] by blast
  from propose_loop_status [OF r1 Cons.prems] obtain resp s1 gs1 w1 b1
    where l: "r1 = Inr ((Some resp, None), s1, gs1, w1)" "rType resp \<noteq> NACK"
      "status b1 (monitor s1) gs1 [0..<pid] [] ''none''" by blast
  from propose_reply_status [OF l(3) _ l(2), of pid req] obtain ret s2 gs2
    where q: "propose_reply pid req (Some resp) None s1 gs1 = Inr (ret, s2, gs2)"
      "ret = None \<longrightarrow> status b1 (monitor s2) gs2 [0..<Suc pid] [] ''none''"
    by (auto split: if_splits)
  show ?case using r1 l(1) q Cons.IH by (cases ret) auto
qed simp

section \<open>What the monitor calls make of \<^verbatim>\<open>Put\<close>\<close>

text \<open>
  C4. With two followers a call of \<^verbatim>\<open>Put\<close> that returns does not panic, whatever the transport
  answers and whatever the database does: the monitor accepts every trace the call logs, at the
  final \<^verbatim>\<open>CheckTrace\<close> and when the call gives up early, so the next call starts from a trace that
  is accepted too.
\<close>

theorem Put_two_followers_safe:
  assumes "length (Followers s) = 2" and "mon_ok (monitor s)" and "Put g dbi s ctx req w = Some r"
  shows "\<exists>reply s' w'. r = Inr (reply, s', w') \<and> Followers s' = Followers s \<and> mon_ok (monitor s')"
  using put_status [OF assms(2,3)] assms(1)
  by (auto simp: same_setup_def split: sum.splits prod.splits)

theorem Put_two_followers_safe_witness:
  "\<exists>s reply s' w'. length (Followers s) = 2 \<and> mon_ok (monitor s) \<and>
     Put (const_grpc (Inr ack) (Inr ack) (Inl unavailable)) mem_dbi s Background example_entry () =
       Some (Inr (reply, s', w')) \<and> reply = (Some nack, None) \<and> mon_ok (monitor s')"
proof -
  let ?s = "example_server ''coordinator'' TWO_PHASE [''a'', ''b'']"
  let ?P = "Put (const_grpc (Inr ack) (Inr ack) (Inl unavailable)) mem_dbi ?s Background example_entry ()"
  have n: "length (Followers ?s) = 2" "mon_ok (monitor ?s)" by code_simp+
  have "run_reply ?P = Some (Inr (Some nack, None))" by code_simp
  then obtain s' w' where e: "?P = Some (Inr ((Some nack, None), s', w'))"
    using run_reply_Some by (metis surj_pair)
  from Put_two_followers_safe [OF n e] e n show ?thesis by blast
qed

text \<open>
  C22. The error branch after the retry loop of the propose phase (lines 319 to 344) is never
  taken: the loop is left only with a reply that is not a refusal and a nil error.
\<close>

theorem propose_loop_no_error:
  fixes s :: "'d Server" and g :: "'w grpc"
  assumes "propose_loop g pid f ctx ct req s gs w = Some (Inr ((response, err), s', gs', w'))"
  shows "err = None \<and> (\<exists>r. response = Some r \<and> rType r \<noteq> NACK)"
proof -
  have "acked_run (Inr ((response, err), s', gs', w'))"
  proof (rule propose_loop_rule [OF assms, where I = "\<lambda>_ _ _. True" and Q = acked_run])
    fix s :: "'d Server" and gs and w :: 'w
    show "case propose_once g pid f ctx ct req s gs w of Inl p \<Rightarrow> acked_run (Inl p)
      | Inr ((resp, err), s1, gs1, w1) \<Rightarrow>
          if propose_again resp then True else acked_run (Inr ((resp, err), s1, gs1, w1))"
      by (auto simp: acked_run_def propose_once_def propose_again_def Let_def peer_defs gbind_def
          dest!: stub_nil_iff_error split: sum.splits prod.splits option.splits)
  qed simp
  then show ?thesis by (simp add: acked_run_def)
qed

theorem propose_loop_no_error_witness:
  "\<exists>response err s' gs' w'.
     propose_loop (const_grpc (Inr ack) (Inr ack) (Inr ack)) 0 \<lparr>Connection = ''a'', client_traced = False\<rparr>
       Background TWO_PHASE_COMMIT example_entry (example_server ''coordinator'' TWO_PHASE [''a'', ''b''])
       (gs_of ''none'' [] [] [] ''none'' [] []) () = Some (Inr ((response, err), s', gs', w')) \<and>
     err = None \<and> (\<exists>r. response = Some r \<and> rType r \<noteq> NACK)"
proof -
  let ?l = "propose_loop (const_grpc (Inr ack) (Inr ack) (Inr ack)) 0 \<lparr>Connection = ''a'', client_traced = False\<rparr>
       Background TWO_PHASE_COMMIT example_entry (example_server ''coordinator'' TWO_PHASE [''a'', ''b''])
       (gs_of ''none'' [] [] [] ''none'' [] []) ()"
  have "run_reply ?l = Some (Inr (Some ack, None))" by code_simp
  then obtain s' gs' w' where e: "?l = Some (Inr ((Some ack, None), s', gs', w'))"
    using run_reply_Some by (metis surj_pair)
  from propose_loop_no_error [OF e] e show ?thesis by blast
qed

text \<open>
  C16. One follower that never acknowledges a proposal keeps \<^verbatim>\<open>Put\<close> from returning. \<open>dead\<close> is any
  condition that proposals do not end and under which every \<^verbatim>\<open>Propose\<close> call to that follower fails
  (the follower is down, the deadline has passed) or is refused (a hook rejects the value); the
  other followers may answer as they like, with ACK or NACK. The retry loop has no way out.
\<close>

theorem Put_diverges:
  assumes "f \<in> set (Followers s)" and "mon_ok (monitor s)" and "dead w"
    and "\<And>cc ctx q w. dead w \<Longrightarrow> dead (snd (invoke_Propose g cc ctx q w))"
    and "\<And>ctx q w. dead w \<Longrightarrow> \<not> acked (fst (invoke_Propose g (Connection f) ctx q w))"
    and "\<And>cc ctx q w r. fst (invoke_Propose g cc ctx q w) = Inr r \<Longrightarrow> rType r \<in> {ACK, NACK}"
  shows "Put g dbi s ctx req w = None"
proof -
  obtain xs ys where "Followers s = xs @ f # ys" using assms(1) by (meson split_list)
  from Put_hangs [where bad = "\<lambda>_. True" and dead = dead, OF this assms(2,3)] assms(4-6) show ?thesis by simp
qed

theorem Put_diverges_witness:
  "Put ((const_grpc (Inr ack) (Inr ack) (Inr ack))\<lparr>invoke_Propose := \<lambda>cc ctx req w. (if cc = ''b'' then Inl unavailable else Inr ack, w)\<rparr>)
     mem_dbi (example_server ''coordinator'' THREE_PHASE [''a'', ''b'']) Background example_entry () = None"
proof -
  let ?s = "example_server ''coordinator'' THREE_PHASE [''a'', ''b'']"
  have "\<lparr>Connection = ''b'', client_traced = False\<rparr> \<in> set (Followers ?s)" "mon_ok (monitor ?s)" by code_simp+
  then show ?thesis
    by (rule Put_diverges [where dead = "\<lambda>_. True"]) (auto simp: acked_def ack_def split: if_splits)
qed

text \<open>
  C15. When only finitely many proposals in a row can fail or be refused, \<^verbatim>\<open>Put\<close> returns.
\<close>

theorem Put_returns:
  assumes "answers g left" and "mon_ok (monitor s)"
  shows "\<exists>r. Put g dbi s ctx req w = Some r"
proof -
  obtain m gs where start: "put_start s = Inr (s\<lparr>monitor := m\<rparr>, gs)" "status True m gs [] [] ''none''"
    using put_start_status [OF assms(2)] by blast
  have "status True (monitor (s\<lparr>monitor := m\<rparr>)) gs [0..<0] [] ''none''" using start(2) by simp
  from propose_phase_returns [OF assms(1) this, of "put_ctype s" req "Followers s" ctx w] start(1)
  show ?thesis by (auto simp: Put_def split: sum.splits option.splits)
qed

theorem Put_returns_witness:
  "answers flaky_grpc (\<lambda>n. n) \<and> mon_ok (monitor (example_server ''coordinator'' TWO_PHASE [''a'', ''b''])) \<and>
   (\<exists>r. Put flaky_grpc mem_dbi (example_server ''coordinator'' TWO_PHASE [''a'', ''b'']) Background
     example_entry 3 = Some r)"
proof -
  have "answers flaky_grpc (\<lambda>n. n)" by (auto simp: answers_def flaky_grpc_def acked_def ack_def)
  moreover have "mon_ok (monitor (example_server ''coordinator'' TWO_PHASE [''a'', ''b'']))" by code_simp
  ultimately show ?thesis using Put_returns [of flaky_grpc "\<lambda>n. n"] by blast
qed

end
