(* ===== verification/Dispatch.thy ===== *)
theory Dispatch
  imports Examples
begin

text \<open>
  The server side of a call: the handlers generated in \<^verbatim>\<open>proto/schema_grpc.pb.go\<close>, which decode
  the request and pass it through an interceptor to the method of the server, and the
  interceptors of \<^verbatim>\<open>server/interceptors.go\<close>. \<^verbatim>\<open>net.SplitHostPort\<close> of the standard library is
  written out. The decoder is a parameter; it gives the request or an error.

  A call runs on the server and the world outside it. It may fail to return, like \<^verbatim>\<open>Put\<close>, and
  may panic. \<^verbatim>\<open>time.Sleep\<close> is the parameter \<open>sleep\<close>, an effect on the world.
\<close>

section \<open>Host and port\<close>

datatype split_error = MissingPort | TooManyColons | MissingBracket | UnexpectedOpen | UnexpectedClose

text \<open>\<^verbatim>\<open>strings.LastIndexByte\<close> and \<^verbatim>\<open>strings.IndexByte\<close>, \<open>None\<close> for \<^verbatim>\<open>-1\<close>\<close>

fun index_byte :: "string \<Rightarrow> char \<Rightarrow> nat option" where
  "index_byte [] c = None"
| "index_byte (x # xs) c = (if x = c then Some 0 else map_option Suc (index_byte xs c))"

fun last_byte :: "string \<Rightarrow> char \<Rightarrow> nat option" where
  "last_byte [] c = None"
| "last_byte (x # xs) c =
     (case last_byte xs c of Some i \<Rightarrow> Some (Suc i) | None \<Rightarrow> if x = c then Some 0 else None)"

definition split_bare :: "string \<Rightarrow> nat \<Rightarrow> split_error + (string \<times> nat \<times> nat)" where
  "split_bare hostport i =
     (let host = take i hostport in
      if index_byte host CHR '':'' \<noteq> None then Inl TooManyColons else Inr (host, 0, 0))"

definition split_bracket :: "string \<Rightarrow> nat \<Rightarrow> split_error + (string \<times> nat \<times> nat)" where
  "split_bracket hostport i =
     (case index_byte hostport CHR '']'' of
        None \<Rightarrow> Inl MissingBracket
      | Some close \<Rightarrow>
          if Suc close = length hostport then Inl MissingPort
          else if Suc close = i then Inr (drop 1 (take close hostport), 1, Suc close)
          else if hostport ! Suc close = CHR '':'' then Inl TooManyColons
          else Inl MissingPort)"

definition SplitHostPort :: "string \<Rightarrow> split_error + (string \<times> string)" where
  "SplitHostPort hostport =
     (case last_byte hostport CHR '':'' of
        None \<Rightarrow> Inl MissingPort
      | Some i \<Rightarrow>
          (case (if hd hostport = CHR ''['' then split_bracket hostport i else split_bare hostport i) of
             Inl e \<Rightarrow> Inl e
           | Inr (host, j, k) \<Rightarrow>
               if index_byte (drop j hostport) CHR ''['' \<noteq> None then Inl UnexpectedOpen
               else if index_byte (drop k hostport) CHR '']'' \<noteq> None then Inl UnexpectedClose
               else Inr (host, drop (Suc i) hostport)))"

definition split_error_text :: "string \<Rightarrow> split_error \<Rightarrow> string" where
  "split_error_text addr e =
     (if addr = [] then [] else ''address '' @ addr @ '': '') @
     (case e of
        MissingPort \<Rightarrow> ''missing port in address''
      | TooManyColons \<Rightarrow> ''too many colons in address''
      | MissingBracket \<Rightarrow> ''missing ']' in address''
      | UnexpectedOpen \<Rightarrow> ''unexpected '[' in address''
      | UnexpectedClose \<Rightarrow> ''unexpected ']' in address'')"

section \<open>Interceptors\<close>

type_synonym ('d, 'w, 'r) rpc = "'d Server \<times> 'w \<Rightarrow> ('r reply \<times> 'd Server \<times> 'w) go option"

type_synonym ('d, 'w, 'q, 'r) handler = "Context \<Rightarrow> 'q \<Rightarrow> ('d, 'w, 'r) rpc"

type_synonym ('d, 'w, 'q, 'r) interceptor =
  "Context \<Rightarrow> 'q \<Rightarrow> string \<Rightarrow> ('d, 'w, 'q, 'r) handler \<Rightarrow> ('d, 'w, 'r) rpc"

definition rpc_error :: "error \<Rightarrow> ('d, 'w, 'r) rpc" where
  "rpc_error e sw = Some (Inr ((None, Some e), sw))"

definition WhiteListChecker :: "('d, 'w, 'q, 'r) interceptor" where
  "WhiteListChecker ctx req FullMethod handler sw =
     (case ctx_peer ctx of
        None \<Rightarrow> rpc_error (StatusError Internal ''failed to retrieve peer info'') sw
      | Some addr \<Rightarrow>
          (case SplitHostPort addr of
             Inl e \<Rightarrow> rpc_error (StatusError Internal (split_error_text addr e)) sw
           | Inr (host, _) \<Rightarrow>
               if \<not> Includes (Whitelist (srv_Config (fst sw))) host then
                 rpc_error (StatusError PermissionDenied
                   (''host '' @ host @ '' is not in whitelist'')) sw
               else handler ctx req sw))"

definition precommit_method :: string where
  "precommit_method = ''/schema.Commit/Precommit''"

definition PrecommitBlockALL :: "(go_int \<Rightarrow> 'w \<Rightarrow> 'w) \<Rightarrow> ('d, 'w, 'q, 'r) interceptor" where
  "PrecommitBlockALL sleep ctx req FullMethod handler sw =
     handler ctx req
       (if FullMethod = precommit_method then map_prod id (sleep 10000000000) sw else sw)"

definition PrecommitBlockCoordinator :: "(go_int \<Rightarrow> 'w \<Rightarrow> 'w) \<Rightarrow> ('d, 'w, 'q, 'r) interceptor" where
  "PrecommitBlockCoordinator sleep ctx req FullMethod handler sw =
     handler ctx req
       (if Role (srv_Config (fst sw)) = ''coordinator'' \<and> FullMethod = precommit_method
        then map_prod id (sleep 10000000000) sw else sw)"

section \<open>Generated handlers\<close>

text \<open>The methods of the server as calls.\<close>

definition local_call :: "('d Server \<Rightarrow> ('r reply \<times> 'd Server) go) \<Rightarrow> ('d, 'w, 'r) rpc" where
  "local_call f sw =
     Some (gbind (f (fst sw)) (\<lambda>(reply, s'). Inr (reply, s', snd sw)))"

text \<open>The body that the six generated handlers share.\<close>

definition unary_handler ::
    "string \<Rightarrow> ('d, 'w, 'q, 'r) handler \<Rightarrow> Context \<Rightarrow> error + 'q \<Rightarrow> ('d, 'w, 'q, 'r) interceptor option \<Rightarrow>
       ('d, 'w, 'r) rpc" where
  "unary_handler FullMethod srv ctx dec interceptor =
     (case dec of
        Inl err \<Rightarrow> rpc_error err
      | Inr inn \<Rightarrow>
          (case interceptor of
             None \<Rightarrow> srv ctx inn
           | Some ic \<Rightarrow> ic ctx inn FullMethod srv))"

definition Commit_Propose_Handler where
  "Commit_Propose_Handler =
     unary_handler ''/schema.Commit/Propose'' (\<lambda>ctx req. local_call (\<lambda>s. Propose s ctx req))"

definition Commit_Precommit_Handler where
  "Commit_Precommit_Handler =
     unary_handler ''/schema.Commit/Precommit'' (\<lambda>ctx req. local_call (\<lambda>s. Precommit s ctx req))"

definition Commit_Commit_Handler where
  "Commit_Commit_Handler dbi =
     unary_handler ''/schema.Commit/Commit'' (\<lambda>ctx req. local_call (\<lambda>s. Commit dbi s ctx req))"

definition Commit_Put_Handler where
  "Commit_Put_Handler g dbi =
     unary_handler ''/schema.Commit/Put'' (\<lambda>ctx req sw. Put g dbi (fst sw) ctx req (snd sw))"

definition Commit_Get_Handler where
  "Commit_Get_Handler dbi =
     unary_handler ''/schema.Commit/Get'' (\<lambda>ctx req. local_call (\<lambda>s. Inr (Get dbi s ctx req, s)))"

definition Commit_NodeInfo_Handler where
  "Commit_NodeInfo_Handler =
     unary_handler ''/schema.Commit/NodeInfo'' (\<lambda>ctx (req :: unit). local_call (\<lambda>s. Inr (NodeInfo s ctx, s)))"

section \<open>Addresses\<close>

lemma index_byte_None [simp]: "index_byte xs c = None \<longleftrightarrow> c \<notin> set xs"
  by (induction xs) auto

lemma index_byte_append: "c \<notin> set xs \<Longrightarrow> index_byte (xs @ c # ys) c = Some (length xs)"
  by (induction xs) auto

lemma last_byte_None [simp]: "last_byte xs c = None \<longleftrightarrow> c \<notin> set xs"
  by (induction xs) (auto split: option.splits)

lemma last_byte_append: "c \<notin> set ys \<Longrightarrow> last_byte (xs @ c # ys) c = Some (length xs)"
proof (induction xs)
  case Nil
  then have "last_byte ys c = None" by simp
  then show ?case by (simp del: last_byte_None)
qed simp

text \<open>The two forms of an address that \<^verbatim>\<open>net.JoinHostPort\<close> builds.\<close>

definition JoinHostPort :: "string \<Rightarrow> string \<Rightarrow> string" where
  "JoinHostPort host port =
     (if CHR '':'' \<in> set host then ''['' @ host @ '']:'' @ port else host @ '':'' @ port)"

lemma split_bare_join:
  assumes "CHR '':'' \<notin> set port" and "{CHR ''['', CHR '']''} \<inter> (set host \<union> set port) = {}"
    and "CHR '':'' \<notin> set host"
  shows "SplitHostPort (host @ CHR '':'' # port) = Inr (host, port)"
  using assms last_byte_append [of "CHR '':''" port host]
  by (cases host) (auto simp: SplitHostPort_def split_bare_def)

lemma split_bracket_join:
  assumes "CHR '':'' \<notin> set port" and "{CHR ''['', CHR '']''} \<inter> (set host \<union> set port) = {}"
  shows "SplitHostPort (CHR ''['' # host @ CHR '']'' # CHR '':'' # port) = Inr (host, port)"
proof -
  let ?h = "CHR ''['' # host @ CHR '']'' # CHR '':'' # port"
  have "last_byte ?h CHR '':'' = Some (Suc (Suc (length host)))"
    using last_byte_append [of "CHR '':''" port "CHR ''['' # host @ [CHR '']'']"] assms(1) by simp
  moreover have "index_byte ?h CHR '']'' = Some (Suc (length host))"
    using index_byte_append [of "CHR '']''" "CHR ''['' # host" "CHR '':'' # port"] assms(2) by simp
  ultimately show ?thesis using assms by (auto simp: SplitHostPort_def split_bracket_def)
qed

lemma SplitHostPort_Join:
  assumes "CHR '':'' \<notin> set port" and "{CHR ''['', CHR '']''} \<inter> (set host \<union> set port) = {}"
  shows "SplitHostPort (JoinHostPort host port) = Inr (host, port)"
  using assms split_bare_join [of port host] split_bracket_join [of port host]
  by (simp add: JoinHostPort_def)

text \<open>A call that does not come from a host of the whitelist.\<close>

definition whitelisted :: "'d Server \<Rightarrow> Context \<Rightarrow> bool" where
  "whitelisted s ctx =
     (case ctx_peer ctx of
        None \<Rightarrow> False
      | Some addr \<Rightarrow> (case SplitHostPort addr of Inl _ \<Rightarrow> False | Inr (host, _) \<Rightarrow> host \<in> set (Whitelist (srv_Config s))))"

lemma WhiteListChecker_pass: "whitelisted (fst sw) ctx \<Longrightarrow> WhiteListChecker ctx req m h sw = h ctx req sw"
  by (auto simp: WhiteListChecker_def whitelisted_def split: option.splits sum.splits)

lemma WhiteListChecker_block:
  "\<not> whitelisted (fst sw) ctx \<Longrightarrow> \<exists>e. WhiteListChecker ctx req m h sw = Some (Inr ((None, Some e), sw))"
  by (auto simp: WhiteListChecker_def whitelisted_def rpc_error_def split: option.splits sum.splits)

text \<open>
  C25. The whitelist: a call from the address of a whitelisted host reaches the method, and any
  other call is answered with an error, without running the method and without touching the
  state of the node, for an IPv4 and for a bracketed IPv6 address.
\<close>

theorem WhiteListChecker_correct:
  assumes "ctx_peer ctx = Some (JoinHostPort host port)"
    and "CHR '':'' \<notin> set port" and "{CHR ''['', CHR '']''} \<inter> (set host \<union> set port) = {}"
  shows "if host \<in> set (Whitelist (srv_Config (fst sw)))
    then WhiteListChecker ctx req m h sw = h ctx req sw
    else WhiteListChecker ctx req m h sw =
      Some (Inr ((None, Some (StatusError PermissionDenied (''host '' @ host @ '' is not in whitelist''))), sw))"
  using assms(1) SplitHostPort_Join [OF assms(2,3)] by (simp add: WhiteListChecker_def rpc_error_def)

theorem WhiteListChecker_correct_witness:
  "WhiteListChecker (Background\<lparr>ctx_peer := Some (JoinHostPort ''::1'' ''3000'')\<rparr>) () precommit_method
     (\<lambda>_ _ sw. Some (Inr ((Some ack, None), sw))) (example_server ''follower'' TWO_PHASE [], ()) =
   Some (Inr ((None, Some (StatusError PermissionDenied ''host ::1 is not in whitelist'')),
     example_server ''follower'' TWO_PHASE [], ()))"
proof -
  let ?sw = "(example_server ''follower'' TWO_PHASE [], ())"
  have "''::1'' \<notin> set (Whitelist (srv_Config (fst ?sw)))" by code_simp
  with WhiteListChecker_correct [of "Background\<lparr>ctx_peer := Some (JoinHostPort ''::1'' ''3000'')\<rparr>"
      "''::1''" "''3000''" ?sw "()" precommit_method "\<lambda>_ _ sw. Some (Inr ((Some ack, None), sw))"]
  show ?thesis by simp
qed

end
