(* ===== verification/Cluster.thy ===== *)
theory Cluster
  imports Monitored_Put Dispatch
begin

text \<open>
  A coordinator and the nodes it calls. What \<^verbatim>\<open>Put\<close> relies on from gRPC is the locale
  \<open>network\<close>: a call runs the handler of the node at most once; a reply is the one the handler
  returned; when the caller gets an error the handler has run or has not. Messages may be lost
  in either direction. The concrete transport \<open>cluster_grpc\<close> has these laws: it passes a call
  to the generated handler of the node, behind the whitelist, and follows a list of fates.
\<close>

section \<open>The network\<close>

definition outcome ::
    "('w \<Rightarrow> conn \<Rightarrow> 'd Server) \<Rightarrow> ('d Server \<Rightarrow> ('r reply \<times> 'd Server) go) \<Rightarrow> conn \<Rightarrow> 'w \<Rightarrow>
       (error + 'r) \<times> 'w \<Rightarrow> bool" where
  "outcome view h a w x =
     (case x of
        (Inr resp, w') \<Rightarrow> \<exists>s'. h (view w a) = Inr ((Some resp, None), s') \<and> view w' = (view w)(a := s')
      | (Inl e, w') \<Rightarrow> view w' = view w \<or>
          (\<exists>reply s'. h (view w a) = Inr (reply, s') \<and> view w' = (view w)(a := s')))"

locale network =
  fixes g :: "'w grpc" and dbi :: "'d Database" and view :: "'w \<Rightarrow> conn \<Rightarrow> 'd Server"
  assumes propose: "\<exists>ictx. outcome view (\<lambda>s. Propose s ictx req) a w (invoke_Propose g a ctx req w)"
    and precommit: "\<exists>ictx. outcome view (\<lambda>s. Precommit s ictx pc) a w (invoke_Precommit g a ctx pc w)"
    and commit: "\<exists>ictx. outcome view (\<lambda>s. Commit dbi s ictx cr) a w (invoke_Commit g a ctx cr w)"

section \<open>What a handler does to the cache and the database\<close>

text \<open>\<open>node_cache s i\<close> is the pair that node \<open>s\<close> has cached for index \<open>i\<close>.\<close>

definition node_cache :: "'d Server \<Rightarrow> uint64 \<Rightarrow> (string \<times> bytes) option" where
  "node_cache s i = cache_lookup (NodeCache s) i"

lemma Propose_cases:
  assumes "Propose s ctx req = Inr (reply, s')"
  shows "DB s' = DB s \<and> Height s' = Height s \<and>
    (node_cache s' = node_cache s \<or> node_cache s' = (node_cache s)(pIndex req := Some (pKey req, pValue req))) \<and>
    (\<forall>r. reply = (Some r, None) \<longrightarrow> rType r \<noteq> NACK \<longrightarrow> rType r = ACK \<and> rIndex r = pIndex req \<and>
       node_cache s' = (node_cache s)(pIndex req := Some (pKey req, pValue req)))"
  using assms
  by (auto simp: Propose_def ProposeHandler_def SetProgressForCommitPhase_def Let_def call_hook_def
      node_cache_def fun_eq_iff split: option.splits if_splits)

lemma Precommit_cases:
  "Precommit s ctx req = Inr (reply, s') \<Longrightarrow>
     DB s' = DB s \<and> Height s' = Height s \<and> node_cache s' = node_cache s"
  by (auto simp: Precommit_def PrecommitHandler_def node_cache_def fun_eq_iff split: if_splits)

lemma CommitHandler_cases:
  assumes "CommitHandler dbi s req hook = Inr ((resp, err), s')"
  shows "Height s' = Height s \<and> (\<forall>i. node_cache s' i = node_cache s i \<or> node_cache s' i = None) \<and>
    (DB s' = DB s \<or> (\<exists>k v. node_cache s (cIndex req) = Some (k, v) \<and> DB s' = snd (DB_Put dbi k v (DB s)))) \<and>
    (err = None \<longrightarrow> (\<exists>r. resp = Some r \<and> (rType r = ACK \<longrightarrow>
       (\<exists>k v. node_cache s (cIndex req) = Some (k, v) \<and> DB_Put dbi k v (DB s) = (None, DB s')))))"
proof (cases "cache_lookup (NodeCache s) (cIndex req)")
  case None
  then show ?thesis using assms
    by (auto simp: CommitHandler_def cache_Get_None node_cache_def call_hook_def gbind_def nack_def
        split: sum.splits option.splits if_splits)
next
  case (Some kv)
  then obtain k v where "cache_lookup (NodeCache s) (cIndex req) = Some (k, v)" by (cases kv) auto
  then show ?thesis using assms
    by (auto simp: CommitHandler_def cache_Get_Some node_cache_def call_hook_def gbind_def nack_def
        split: sum.splits option.splits if_splits prod.splits)
qed

text \<open>What a call that runs \<^verbatim>\<open>CommitHandler\<close> leaves, in both modes.\<close>

definition commit_effect ::
    "'d Database \<Rightarrow> uint64 \<Rightarrow> 'd Server \<Rightarrow> Response reply \<Rightarrow> 'd Server \<Rightarrow> bool" where
  "commit_effect dbi i s reply s' \<longleftrightarrow>
     (\<forall>j. node_cache s' j = node_cache s j \<or> node_cache s' j = None) \<and>
     (DB s' = DB s \<or> (\<exists>k v. node_cache s i = Some (k, v) \<and> DB s' = snd (DB_Put dbi k v (DB s)))) \<and>
     (\<forall>r. reply = (Some r, None) \<longrightarrow> rType r = ACK \<longrightarrow> Height s' = Height s + 1 \<and>
        (\<exists>k v. node_cache s i = Some (k, v) \<and> DB_Put dbi k v (DB s) = (None, DB s')))"

lemma commit_finish:
  assumes "gbind (CommitHandler dbi s req hook) (\<lambda>((resp, err), s2).
      case err of Some e \<Rightarrow> Inr ((h resp, Some e), s2) | None \<Rightarrow> after_commit resp s2) = Inr (reply, s')"
  shows "commit_effect dbi (cIndex req) s reply s'"
proof -
  obtain resp err s2 where c: "CommitHandler dbi s req hook = Inr ((resp, err), s2)"
      "(case err of Some e \<Rightarrow> Inr ((h resp, Some e), s2) | None \<Rightarrow> after_commit resp s2) = Inr (reply, s')"
    using assms by (cases "CommitHandler dbi s req hook") auto
  show ?thesis
  proof (cases err)
    case (Some e)
    then show ?thesis using c(2) CommitHandler_cases [OF c(1)] by (auto simp: commit_effect_def)
  next
    case None
    then obtain r where r: "resp = Some r" using CommitHandler_cases [OF c(1)] by blast
    then have "reply = (Some r, None)" "s' = (if rType r = ACK then incr_Height s2 else s2)"
      using c(2) None by (auto simp: after_commit_def)
    then show ?thesis using CommitHandler_cases [OF c(1)] None r
      by (auto simp: commit_effect_def incr_Height_def node_cache_def)
  qed
qed

lemma commit_effect_progress:
  "commit_effect dbi i (SetProgressForCommitPhase s h b) reply s' = commit_effect dbi i s reply s'"
  by (simp add: commit_effect_def SetProgressForCommitPhase_def node_cache_def)

lemma Commit_cases:
  assumes "Commit dbi s ctx req = Inr (reply, s')"
  shows "commit_effect dbi (cIndex req) s reply s'"
proof (cases "three_phase s")
  case False
  then show ?thesis using assms commit_finish [of dbi s req "CommitHook s" "\<lambda>x. x"] by (simp add: Commit_def)
next
  case True
  let ?s = "SetProgressForCommitPhase s (Height s) True"
  show ?thesis
  proof (cases "\<exists>md. FromIncomingContext ctx = Some md \<and> gm_lookup md ''mode'' \<in> {None, Some []}")
    case True
    then have "gbind (CommitHandler dbi ?s req (CommitHook ?s)) (\<lambda>((resp, err), s2).
        case err of Some e \<Rightarrow> Inr ((None, Some e), s2) | None \<Rightarrow> after_commit resp s2) = Inr (reply, s')"
      using assms \<open>three_phase s\<close> by (auto simp: Commit_def Let_def)
    then show ?thesis
      using commit_finish [of dbi ?s req "CommitHook ?s" "\<lambda>_. None" reply s'] commit_effect_progress
      by fastforce
  next
    case False
    then have "fst reply = None" "s' = s \<or> s' = rollback s"
      using assms \<open>three_phase s\<close> by (auto simp: Commit_def Let_def split: option.splits if_splits)
    then show ?thesis by (auto simp: commit_effect_def rollback_def node_cache_def split: if_splits)
  qed
qed

section \<open>Monitor blocks touch only the monitor\<close>

definition monitor_only :: "'d Server \<Rightarrow> 'd Server \<Rightarrow> bool" where
  "monitor_only s s' \<longleftrightarrow> (\<exists>m. s' = s\<lparr>monitor := m\<rparr>)"

lemma monitor_only_sel:
  "monitor_only s s' \<Longrightarrow> Height s' = Height s \<and> DB s' = DB s \<and> NodeCache s' = NodeCache s \<and>
     Followers s' = Followers s \<and> srv_Config s' = srv_Config s"
  by (auto simp: monitor_only_def)

lemma monitor_only_trans: "monitor_only s t \<Longrightarrow> monitor_only t u \<Longrightarrow> monitor_only s u"
  by (auto simp: monitor_only_def)

lemma gbind_InrE: "gbind x f = Inr y \<Longrightarrow> (\<And>a. x = Inr a \<Longrightarrow> f a = Inr y \<Longrightarrow> P) \<Longrightarrow> P"
  by (cases x) auto

lemma capture_monitor_only: "capture s l gs t as = Inr s' \<Longrightarrow> monitor_only s s'"
  unfolding capture_def monitor_only_def by (auto elim!: gbind_InrE)

lemma step_monitor_only:
  "outbox_step s gs l ms e a t x = Inr (s', gs') \<Longrightarrow> monitor_only s s'"
  "inbox_step s gs l ms e a t x = Inr (s', gs') \<Longrightarrow> monitor_only s s'"
  unfolding outbox_step_def inbox_step_def Let_def
  by (auto elim!: gbind_InrE dest!: capture_monitor_only)

lemma mon_monitor_only:
  "mon_propose_sent pid s gs = Inr (s', gs') \<Longrightarrow> monitor_only s s'"
  "mon_prepared pid s gs = Inr (s', gs') \<Longrightarrow> monitor_only s s'"
  "mon_commit_sent pid s gs = Inr (s', gs') \<Longrightarrow> monitor_only s s'"
  "mon_committed pid s gs = Inr (s', gs') \<Longrightarrow> monitor_only s s'"
  unfolding mon_propose_sent_def mon_prepared_def mon_commit_sent_def mon_committed_def
  by (auto elim!: gbind_InrE dest!: step_monitor_only intro: monitor_only_trans)

lemma put_start_monitor_only: "put_start s = Inr (s', gs) \<Longrightarrow> monitor_only s s'"
  unfolding put_start_def by (auto elim!: gbind_InrE dest!: capture_monitor_only)

lemma commit_phase_gives_up:
  "commit_phase g pid fs ctx s gs w = Inr (Some reply, s1, gs1, w1) \<Longrightarrow> gives_up reply"
proof (induction fs arbitrary: pid s gs w)
  case (Cons f fs)
  obtain s2 gs2 where m: "mon_commit_sent pid s gs = Inr (s2, gs2)"
    using Cons.prems(1) by (auto elim!: gbind_InrE)
  obtain r w2 where i: "peer_Commit g f ctx \<lparr>cIndex = Height s2, cIsRollback = False\<rparr> w = (r, w2)"
    by fastforce
  from phase_reply_total [OF i [unfolded peer_defs]] obtain ret where
    ret: "phase_reply r = Inr ret" "pred_option gives_up ret" by blast
  show ?case using Cons.prems m i ret Cons.IH by (cases ret) (auto elim!: gbind_InrE)
qed simp

section \<open>The invariant of the nodes\<close>

text \<open>
  No node has cached a value for an index above the coordinator's height, and the nodes of
  \<open>D\<close> have at that height nothing or the value under way.
\<close>

definition no_future :: "uint64 \<Rightarrow> (conn \<Rightarrow> 'd Server) \<Rightarrow> bool" where
  "no_future h nodes \<longleftrightarrow> (\<forall>a i. h < i \<longrightarrow> node_cache (nodes a) i = None)"

definition clean :: "uint64 \<Rightarrow> string \<times> bytes \<Rightarrow> conn set \<Rightarrow> (conn \<Rightarrow> 'd Server) \<Rightarrow> bool" where
  "clean h kv D nodes \<longleftrightarrow> no_future h nodes \<and> (\<forall>a\<in>D. node_cache (nodes a) h \<in> {None, Some kv})"

lemma no_future_mono: "no_future h nodes \<Longrightarrow> h \<le> h' \<Longrightarrow> no_future h' nodes"
  by (auto simp: no_future_def)

lemma clean_mono: "clean h kv D nodes \<Longrightarrow> h \<le> h' \<Longrightarrow> clean h' kv D nodes"
  by (cases "h = h'") (auto simp: clean_def no_future_def)

lemma clean_insert:
  "clean h kv D nodes \<Longrightarrow> node_cache (nodes a) h \<in> {None, Some kv} \<Longrightarrow> clean h kv (insert a D) nodes"
  by (auto simp: clean_def)

lemma clean_upd:
  assumes "clean h kv D nodes"
    and "\<And>i. node_cache s' i = node_cache (nodes a) i \<or> node_cache s' i = None \<or> i = h \<and> node_cache s' i = Some kv"
  shows "clean h kv D (nodes(a := s'))"
  unfolding clean_def no_future_def
proof (intro conjI allI impI ballI)
  fix b i assume "h < i"
  then show "node_cache ((nodes(a := s')) b) i = None"
    using assms(1) assms(2) [of i] by (auto simp: clean_def no_future_def)
next
  fix b assume "b \<in> D"
  then have "node_cache (nodes b) h \<in> {None, Some kv}" using assms(1) by (simp add: clean_def)
  then show "node_cache ((nodes(a := s')) b) h \<in> {None, Some kv}"
    using assms(2) [of h] by auto
qed

text \<open>A proposal at the coordinator's height keeps the invariant.\<close>

lemma propose_outcome:
  assumes "outcome view (\<lambda>s. Propose s ictx (proposal ct req h)) a w (r, w')"
    and "clean h (eKey req, eValue req) D (view w)"
  shows "clean h (eKey req, eValue req) D (view w')"
    and "acked r \<Longrightarrow> node_cache (view w' a) h = Some (eKey req, eValue req) \<and> bumped_height h r = h \<and>
      (\<exists>resp. r = Inr resp \<and> rType resp = ACK)"
    and "\<forall>b. DB (view w' b) = DB (view w b) \<and> Height (view w' b) = Height (view w b)"
proof -
  have step: "clean h (eKey req, eValue req) D ((view w)(a := s')) \<and> DB s' = DB (view w a) \<and>
      Height s' = Height (view w a)"
    if "Propose (view w a) ictx (proposal ct req h) = Inr (reply, s')" for reply s'
    using Propose_cases [OF that] assms(2) clean_upd [OF assms(2), of s' a] by (auto simp: proposal_def)
  show "clean h (eKey req, eValue req) D (view w')"
    and "\<forall>b. DB (view w' b) = DB (view w b) \<and> Height (view w' b) = Height (view w b)"
    using assms step by (auto simp: outcome_def split: sum.splits)
  show "node_cache (view w' a) h = Some (eKey req, eValue req) \<and> bumped_height h r = h \<and>
      (\<exists>resp. r = Inr resp \<and> rType resp = ACK)" if "acked r"
  proof -
    from that obtain resp where resp: "r = Inr resp" "rType resp \<noteq> NACK"
      by (auto simp: acked_def split: sum.splits)
    with assms(1) obtain s' where p: "Propose (view w a) ictx (proposal ct req h) = Inr ((Some resp, None), s')"
        "view w' = (view w)(a := s')" by (auto simp: outcome_def)
    from Propose_cases [OF p(1)] resp show ?thesis
      by (auto simp: p(2) proposal_def bumped_height_def)
  qed
qed

section \<open>The phases of \<^verbatim>\<open>Put\<close> on a network\<close>

definition same_data :: "(conn \<Rightarrow> 'd Server) \<Rightarrow> (conn \<Rightarrow> 'd Server) \<Rightarrow> bool" where
  "same_data nodes nodes' \<longleftrightarrow> (\<forall>b. DB (nodes' b) = DB (nodes b) \<and> Height (nodes' b) = Height (nodes b))"

definition kept :: "'d Server \<Rightarrow> 'd Server \<Rightarrow> bool" where
  "kept s s' \<longleftrightarrow> DB s' = DB s \<and> Followers s' = Followers s \<and> srv_Config s' = srv_Config s \<and> Height s \<le> Height s'"

lemma same_data_refl [simp]: "same_data nodes nodes"
  by (simp add: same_data_def)

lemma same_data_trans: "same_data n1 n2 \<Longrightarrow> same_data n2 n3 \<Longrightarrow> same_data n1 n3"
  by (simp add: same_data_def)

lemma kept_refl [simp]: "kept s s"
  by (simp add: kept_def)

lemma kept_trans: "kept s1 s2 \<Longrightarrow> kept s2 s3 \<Longrightarrow> kept s1 s3"
  by (auto simp: kept_def)

lemma kept_monitor_only: "monitor_only s s' \<Longrightarrow> kept s s' \<and> NodeCache s' = NodeCache s \<and> Height s' = Height s"
  by (auto simp: monitor_only_def kept_def)

lemma propose_once_cases:
  assumes "propose_once g pid f ctx ct req s gs w = Inr (reply, s1, gs1, w1)"
  obtains r where "invoke_Propose g (Connection f) ctx (proposal ct req (Height s)) w = (r, w1)"
    "reply = fst (stub_result (r, w1))" "Height s1 = bumped_height (Height s) r" "kept s s1"
    "NodeCache s1 = NodeCache s"
proof -
  obtain s' gs' where m: "mon_propose_sent pid s gs = Inr (s', gs')"
    using assms by (auto simp: propose_once_def Let_def elim!: gbind_InrE)
  obtain r w' where i: "invoke_Propose g (Connection f) ctx (proposal ct req (Height s)) w = (r, w')"
    by fastforce
  show thesis
    using assms m kept_monitor_only [OF mon_monitor_only(1) [OF m]] i
    by (intro that [of r]; cases r)
      (auto simp: propose_once_def Let_def peer_defs proposal_def bumped_height_def kept_def max_def
        split: sum.splits if_splits)
qed

context network
begin

text \<open>One round of the retry loop.\<close>

lemma propose_once_clean:
  assumes "propose_once g pid f ctx ct req s gs w = Inr ((resp, err), s1, gs1, w1)"
    and "clean (Height s) (eKey req, eValue req) D (view w)"
  shows "kept s s1 \<and> NodeCache s1 = NodeCache s \<and> same_data (view w) (view w1) \<and>
    (if propose_again resp then clean (Height s1) (eKey req, eValue req) D (view w1)
     else clean (Height s1) (eKey req, eValue req) (insert (Connection f) D) (view w1) \<and>
       err = None \<and> (\<exists>r. resp = Some r \<and> rType r = ACK))"
proof -
  let ?kv = "(eKey req, eValue req)"
  obtain r where r: "invoke_Propose g (Connection f) ctx (proposal ct req (Height s)) w = (r, w1)"
      "(resp, err) = fst (stub_result (r, w1))" "Height s1 = bumped_height (Height s) r" "kept s s1"
      "NodeCache s1 = NodeCache s"
    by (rule propose_once_cases [OF assms(1)])
  obtain ictx where o: "outcome view (\<lambda>s'. Propose s' ictx (proposal ct req (Height s))) (Connection f) w (r, w1)"
    using propose [of "proposal ct req (Height s)" "Connection f" w ctx] r(1) by auto
  note po = propose_outcome [OF o assms(2)]
  have le: "Height s \<le> Height s1" using r(4) by (simp add: kept_def)
  have same: "same_data (view w) (view w1)" using po(3) by (simp add: same_data_def)
  show ?thesis
  proof (cases "acked r")
    case True
    then obtain resp' where "r = Inr resp'" "rType resp' = ACK" "Height s1 = Height s"
        "node_cache (view w1 (Connection f)) (Height s) = Some ?kv"
      using po(2) r(3) by auto
    then show ?thesis using same clean_insert [OF po(1), of "Connection f"] r(2,4,5)
      by (simp add: propose_again_def)
  next
    case False
    then have "propose_again resp" using r(2) by (cases r) (auto simp: propose_again_def acked_def)
    then show ?thesis using same r(4,5) clean_mono [OF po(1) le] by simp
  qed
qed

lemma propose_loop_clean:
  assumes "propose_loop g pid f ctx ct req s gs w = Some (Inr ((resp, err), s1, gs1, w1))"
    and "clean (Height s) (eKey req, eValue req) D (view w)"
  shows "kept s s1 \<and> NodeCache s1 = NodeCache s \<and> same_data (view w) (view w1) \<and>
    clean (Height s1) (eKey req, eValue req) (insert (Connection f) D) (view w1) \<and>
    err = None \<and> (\<exists>r. resp = Some r \<and> rType r = ACK)"
proof -
  let ?kv = "(eKey req, eValue req)"
  define I where "I s' gs w' \<longleftrightarrow> kept s s' \<and> NodeCache s' = NodeCache s \<and> same_data (view w) (view w') \<and>
    clean (Height s') ?kv D (view w')" for s' and gs :: State and w'
  define Q where "Q x \<longleftrightarrow> (\<forall>resp err s1 gs1 w1. x = Inr ((resp, err), s1, gs1, w1) \<longrightarrow>
    kept s s1 \<and> NodeCache s1 = NodeCache s \<and> same_data (view w) (view w1) \<and>
    clean (Height s1) ?kv (insert (Connection f) D) (view w1) \<and>
    err = None \<and> (\<exists>r. resp = Some r \<and> rType r = ACK))"
    for x :: "(Response reply \<times> _ \<times> State \<times> _) go"
  have "Q (Inr ((resp, err), s1, gs1, w1))"
  proof (rule propose_loop_rule [OF assms(1), where I = I and Q = Q])
    show "I s gs w" using assms(2) by (simp add: I_def)
    fix s' gs' w'
    assume inv: "I s' gs' w'"
    then have "clean (Height s') ?kv D (view w')" by (simp add: I_def)
    note once = propose_once_clean [OF _ this]
    show "case propose_once g pid f ctx ct req s' gs' w' of Inl p \<Rightarrow> Q (Inl p)
      | Inr ((resp, err), s1, gs1, w1) \<Rightarrow>
          if propose_again resp then I s1 gs1 w1 else Q (Inr ((resp, err), s1, gs1, w1))"
    proof (cases "propose_once g pid f ctx ct req s' gs' w'")
      case (Inr x)
      obtain resp err s2 gs2 w2 where x: "x = ((resp, err), s2, gs2, w2)" by (metis prod.collapse)
      have "kept s s2" "same_data (view w) (view w2)"
        using once [OF Inr [unfolded x]] inv by (auto simp: I_def same_data_def intro: kept_trans)
      then show ?thesis using once [OF Inr [unfolded x]] inv Inr x by (simp add: I_def Q_def split: if_splits)
    qed (simp add: Q_def)
  qed
  then show ?thesis by (simp add: Q_def)
qed

lemma propose_phase_clean:
  assumes "propose_phase g ct req pid fs ctx s gs w = Some (Inr (ret, s1, gs1, ctx1, w1))"
    and "clean (Height s) (eKey req, eValue req) D (view w)"
  shows "ret = None \<and> kept s s1 \<and> same_data (view w) (view w1) \<and>
    clean (Height s1) (eKey req, eValue req) (D \<union> Connection ` set fs) (view w1) \<and>
    (fs \<noteq> [] \<longrightarrow> cache_lookup (NodeCache s1) (Height s1) = Some (eKey req, eValue req))"
  using assms
proof (induction fs arbitrary: pid ctx s gs w D)
  case (Cons f fs)
  let ?kv = "(eKey req, eValue req)"
  from Cons.prems(1) obtain resp err s2 gs2 w2 where
    l: "propose_loop g pid f (put_context s ctx) ct req s gs w = Some (Inr ((resp, err), s2, gs2, w2))"
    by (auto split: option.splits sum.splits)
  from propose_loop_clean [OF l Cons.prems(2)] obtain r where
    p: "kept s s2" "same_data (view w) (view w2)" "clean (Height s2) ?kv (insert (Connection f) D) (view w2)"
      "err = None" "resp = Some r" "rType r = ACK" by blast
  let ?s2 = "s2\<lparr>NodeCache := cache_Set (NodeCache s2) (Height s2) (eKey req) (eValue req)\<rparr>"
  obtain s3 gs3 where m: "mon_prepared pid ?s2 gs2 = Inr (s3, gs3)"
      and rest: "propose_phase g ct req (Suc pid) fs (put_context s ctx) s3 gs3 w2 = Some (Inr (ret, s1, gs1, ctx1, w1))"
    using Cons.prems(1) l p(4,5,6) by (auto simp: propose_reply_def Let_def gbind_def split: sum.splits prod.splits)
  have s3: "kept s2 s3" "Height s3 = Height s2" "NodeCache s3 = NodeCache ?s2"
    using kept_monitor_only [OF mon_monitor_only(2) [OF m]] by (auto simp: kept_def)
  have c3: "clean (Height s3) ?kv (insert (Connection f) D) (view w2)" using p(3) s3(2) by simp
  note ih = Cons.IH [OF rest c3]
  have "cache_lookup (NodeCache s1) (Height s1) = Some ?kv"
  proof (cases "fs = []")
    case True
    then show ?thesis using rest s3 by simp
  qed (use ih in simp)
  then show ?case using ih p(1,2) s3(1) by (auto intro: kept_trans same_data_trans)
qed simp

lemma precommit_phase_clean:
  assumes "precommit_phase g s fs ctx w = Inr (ret, ctx1, w1)" and "clean h kv D (view w)"
  shows "clean h kv D (view w1) \<and> same_data (view w) (view w1)"
  using assms
proof (induction fs arbitrary: ctx w)
  case (Cons f fs)
  obtain r w2 where i: "invoke_Precommit g (Connection f) (put_context s ctx) \<lparr>pcIndex = Height s\<rparr> w = (r, w2)"
    by fastforce
  obtain ictx where o: "outcome view (\<lambda>x. Precommit x ictx \<lparr>pcIndex = Height s\<rparr>) (Connection f) w (r, w2)"
    using precommit [of "\<lparr>pcIndex = Height s\<rparr>" "Connection f" w "put_context s ctx"] i by auto
  have keep: "clean h kv D ((view w)(Connection f := s')) \<and> same_data (view w) ((view w)(Connection f := s'))"
    if "Precommit (view w (Connection f)) ictx \<lparr>pcIndex = Height s\<rparr> = Inr (reply, s')" for reply s'
    using Precommit_cases [OF that] clean_upd [OF Cons.prems(2), of s' "Connection f"] by (auto simp: same_data_def)
  have n: "clean h kv D (view w2)" "same_data (view w) (view w2)"
    using o keep Cons.prems(2) by (auto simp: outcome_def split: sum.splits)
  obtain ret' where "phase_reply (fst (stub_result (r, w2))) = Inr ret'"
    using Cons.prems(1) i by (cases r) (auto simp: peer_defs elim!: gbind_InrE)
  then show ?case
    using Cons.prems(1) i n Cons.IH [OF _ n(1)]
    by (cases r; cases ret') (auto simp: peer_defs intro: same_data_trans)
qed simp

end

section \<open>Replicas\<close>

definition holds :: "'d Database \<Rightarrow> string \<times> bytes \<Rightarrow> 'd Server \<Rightarrow> bool" where
  "holds dbi kv s \<longleftrightarrow> DB_Get dbi (fst kv) (DB s) = Inr (snd kv)"

text \<open>Every key of every node is as it was, or it is the key under way with its new value.\<close>

definition touches :: "'d Database \<Rightarrow> string \<times> bytes \<Rightarrow> (conn \<Rightarrow> 'd Server) \<Rightarrow> (conn \<Rightarrow> 'd Server) \<Rightarrow> bool" where
  "touches dbi kv nodes nodes' \<longleftrightarrow>
     (\<forall>a k. DB_Get dbi k (DB (nodes' a)) = DB_Get dbi k (DB (nodes a)) \<or> k = fst kv \<and> holds dbi kv (nodes' a))"

lemma touches_same_data: "same_data nodes nodes' \<Longrightarrow> touches dbi kv nodes nodes'"
  by (simp add: same_data_def touches_def)

lemma touches_refl [simp]: "touches dbi kv nodes nodes"
  by (simp add: touches_def)

lemma touches_trans: "touches dbi kv n1 n2 \<Longrightarrow> touches dbi kv n2 n3 \<Longrightarrow> touches dbi kv n1 n3"
  unfolding touches_def holds_def by metis

lemma holds_touches: "holds dbi kv (nodes a) \<Longrightarrow> touches dbi kv nodes nodes' \<Longrightarrow> holds dbi kv (nodes' a)"
  unfolding touches_def holds_def by metis

text \<open>The last index that the call proposed.\<close>

definition last_index :: "Response reply \<Rightarrow> 'd Server \<Rightarrow> uint64" where
  "last_index reply s' = (if reply = (Some ack, None) then Height s' - 1 else Height s')"

text \<open>What \<^verbatim>\<open>Put\<close> leaves on the nodes and on the coordinator, for any reply.\<close>

definition put_result ::
    "'d Database \<Rightarrow> ('w \<Rightarrow> conn \<Rightarrow> 'd Server) \<Rightarrow> string \<times> bytes \<Rightarrow> 'd Server \<Rightarrow> 'w \<Rightarrow> Response reply \<times> 'd Server \<times> 'w \<Rightarrow> bool" where
  "put_result dbi view kv s w x = (case x of (reply, s1, w1) \<Rightarrow>
     touches dbi kv (view w) (view w1) \<and> touches dbi kv (\<lambda>_. s) (\<lambda>_. s1) \<and>
     Followers s1 = Followers s \<and>
     Height s \<le> last_index reply s1 \<and> no_future (last_index reply s1) (view w1) \<and>
     (reply = (Some ack, None) \<longrightarrow> holds dbi kv s1 \<and>
        (\<forall>f\<in>set (Followers s). holds dbi kv (view w1 (Connection f))) \<and>
        (distinct (map Connection (Followers s)) \<longrightarrow> (\<forall>a. Height (view w1 a) =
           Height (view w a) + (if a \<in> Connection ` set (Followers s) then 1 else 0)))))"

lemma put_result_before:
  assumes "put_result dbi view kv s2 w2 x" and "same_data (view w) (view w2)"
    and "Followers s2 = Followers s" and "DB s2 = DB s" and "Height s \<le> Height s2"
  shows "put_result dbi view kv s w x"
  using assms touches_trans [OF touches_same_data [OF assms(2)]]
  by (auto simp: put_result_def same_data_def touches_def)

locale replicated = network g dbi view + database "DB_Put dbi" "DB_Get dbi"
  for g :: "'w grpc" and dbi :: "'d Database" and view :: "'w \<Rightarrow> conn \<Rightarrow> 'd Server"
begin

lemma put_touches:
  assumes "DB_Put dbi k v d = (r, d')"
  shows "DB_Get dbi k' d' = DB_Get dbi k' d \<or> k' = k \<and> DB_Get dbi k d' = Inr v"
  using assms put_get put_other put_error by (cases r; cases "k' = k") auto

lemma commit_touches:
  assumes "commit_effect dbi h (nodes a) reply s'" and "node_cache (nodes a) h \<in> {None, Some kv}"
  shows "touches dbi kv nodes (nodes(a := s'))"
proof -
  have "DB_Get dbi k (DB s') = DB_Get dbi k (DB (nodes a)) \<or> k = fst kv \<and> holds dbi kv s'" for k
  proof (cases "DB s' = DB (nodes a)")
    case False
    then obtain r where "DB_Put dbi (fst kv) (snd kv) (DB (nodes a)) = (r, DB s')"
      using assms by (auto simp: commit_effect_def) (metis prod.collapse)
    then show ?thesis using put_touches by (auto simp: holds_def)
  qed simp
  then show ?thesis by (auto simp: touches_def)
qed

lemma commit_outcome:
  assumes "outcome view (\<lambda>s. Commit dbi s ictx \<lparr>cIndex = h, cIsRollback = b\<rparr>) a w (r, w')"
    and "clean h kv D (view w)" and "a \<in> D"
  shows "clean h kv D (view w')" and "touches dbi kv (view w) (view w')"
    and "r = Inr resp \<Longrightarrow> rType resp = ACK \<Longrightarrow> holds dbi kv (view w' a) \<and>
      (\<forall>c. Height (view w' c) = Height (view w c) + (if c = a then 1 else 0))"
proof -
  have at: "node_cache (view w a) h \<in> {None, Some kv}" using assms(2,3) by (simp add: clean_def)
  have step: "clean h kv D ((view w)(a := s')) \<and> touches dbi kv (view w) ((view w)(a := s'))"
    if "commit_effect dbi h (view w a) reply s'" for reply s'
    using that clean_upd [OF assms(2), of s' a] commit_touches [of h "view w" a reply s' kv, OF that at]
    by (auto simp: commit_effect_def)
  show "clean h kv D (view w')" and "touches dbi kv (view w) (view w')"
    using assms(1,2) step
    by (auto simp: outcome_def dest!: Commit_cases split: sum.splits)
  assume "r = Inr resp" and ack: "rType resp = ACK"
  with assms(1) obtain s' where s': "Commit dbi (view w a) ictx \<lparr>cIndex = h, cIsRollback = b\<rparr> = Inr ((Some resp, None), s')"
      "view w' = (view w)(a := s')" by (auto simp: outcome_def)
  from Commit_cases [OF s'(1)] ack obtain k v where
      "Height s' = Height (view w a) + 1" "node_cache (view w a) h = Some (k, v)"
      "DB_Put dbi k v (DB (view w a)) = (None, DB s')" unfolding commit_effect_def by auto
  moreover from this at have "kv = (k, v)" by simp
  ultimately show "holds dbi kv (view w' a) \<and> (\<forall>c. Height (view w' c) = Height (view w c) + (if c = a then 1 else 0))"
    using put_get by (simp add: s'(2) holds_def)
qed

text \<open>The commit of one follower: the phase ends with a refusal, or goes on after an acknowledgement.\<close>

lemma commit_phase_next:
  assumes "commit_phase g pid (f # fs) ctx s gs w = Inr (ret, s1, gs1, w1)"
    and "clean (Height s) kv D (view w)" and "Connection f \<in> D"
  obtains (refused) reply where "ret = Some reply" "kept s s1" "Height s1 = Height s"
      "clean (Height s) kv D (view w1)" "touches dbi kv (view w) (view w1)"
  | (acknowledged) s2 gs2 w2 where "commit_phase g (Suc pid) fs ctx s2 gs2 w2 = Inr (ret, s1, gs1, w1)"
      "kept s s2" "Height s2 = Height s" "clean (Height s) kv D (view w2)" "touches dbi kv (view w) (view w2)"
      "holds dbi kv (view w2 (Connection f))"
      "\<And>a. Height (view w2 a) = Height (view w a) + (if a = Connection f then 1 else 0)"
proof -
  obtain s2 gs2 where m: "mon_commit_sent pid s gs = Inr (s2, gs2)"
    using assms(1) by (auto elim!: gbind_InrE)
  have s2: "kept s s2" "Height s2 = Height s" using kept_monitor_only [OF mon_monitor_only(3) [OF m]] by auto
  let ?q = "\<lparr>cIndex = Height s, cIsRollback = False\<rparr>"
  obtain r w2 where i: "invoke_Commit g (Connection f) ctx ?q w = (r, w2)" by fastforce
  obtain ictx where o: "outcome view (\<lambda>x. Commit dbi x ictx ?q) (Connection f) w (r, w2)"
    using commit [of ?q "Connection f" w ctx] i by auto
  note co = commit_outcome [OF o assms(2,3)]
  obtain ret' where pr: "phase_reply (fst (stub_result (r, w2))) = Inr ret'"
    using phase_reply_total [of "(r, w2)"] by (metis prod.collapse)
  show thesis
  proof (cases ret')
    case (Some reply)
    then have "ret = Some reply \<and> s1 = s2 \<and> w1 = w2"
      using assms(1) m s2(2) i pr by (cases r) (auto simp: peer_defs)
    then show thesis using s2 co(1,2) by (intro refused) simp_all
  next
    case None
    then obtain resp where resp: "r = Inr resp" "rType resp = ACK"
      using pr by (cases r) (auto simp: phase_reply_def split: if_splits)
    obtain s3 gs3 where m3: "mon_committed pid s2 gs2 = Inr (s3, gs3)"
        and rest: "commit_phase g (Suc pid) fs ctx s3 gs3 w2 = Inr (ret, s1, gs1, w1)"
      using assms(1) m s2(2) i pr None resp by (auto simp: peer_defs elim!: gbind_InrE)
    have "kept s s3" "Height s3 = Height s"
      using kept_monitor_only [OF mon_monitor_only(4) [OF m3]] s2 by (auto intro: kept_trans)
    then show thesis using rest co(1,2) co(3) [OF resp] by (intro acknowledged [of s3 gs3 w2]) auto
  qed
qed

lemma commit_phase_clean:
  assumes "commit_phase g pid fs ctx s gs w = Inr (ret, s1, gs1, w1)"
    and "clean (Height s) kv D (view w)" and "Connection ` set fs \<subseteq> D"
  shows "kept s s1 \<and> Height s1 = Height s \<and> clean (Height s) kv D (view w1) \<and>
    touches dbi kv (view w) (view w1) \<and>
    (ret = None \<longrightarrow> (\<forall>f\<in>set fs. holds dbi kv (view w1 (Connection f)))) \<and>
    (ret = None \<longrightarrow> distinct (map Connection fs) \<longrightarrow> (\<forall>a. Height (view w1 a) =
       Height (view w a) + (if a \<in> Connection ` set fs then 1 else 0)))"
  using assms
proof (induction fs arbitrary: pid s gs w)
  case Nil
  then show ?case by auto
next
  case (Cons f fs)
  have f: "Connection f \<in> D" using Cons.prems(3) by simp
  from Cons.prems(1,2) f show ?case
  proof (cases rule: commit_phase_next)
    case (refused reply)
    then show ?thesis by simp
  next
    case (acknowledged s2 gs2 w2)
    have "clean (Height s2) kv D (view w2)" "Connection ` set fs \<subseteq> D" using acknowledged Cons.prems(3) by auto
    note ih = Cons.IH [OF acknowledged(1) this]
    have "holds dbi kv (view w1 (Connection f))" using ih acknowledged(6) holds_touches by blast
    moreover have "kept s s1" "touches dbi kv (view w) (view w1)"
      using ih acknowledged(2,5) by (auto intro: kept_trans touches_trans)
    moreover have "ret = None \<longrightarrow> distinct (map Connection (f # fs)) \<longrightarrow> (\<forall>a. Height (view w1 a) =
       Height (view w a) + (if a \<in> Connection ` set (f # fs) then 1 else 0))"
      using ih acknowledged(7) by auto
    ultimately show ?thesis using ih acknowledged(3) by auto
  qed
qed

lemma put_persist_result:
  assumes "put_persist g dbi s gs ctx w = Inr x"
    and "clean (Height s) kv (Connection ` set (Followers s)) (view w)"
    and "cache_lookup (NodeCache s) (Height s) = Some kv"
  shows "put_result dbi view kv s w x"
proof -
  obtain k v where kv: "kv = (k, v)" by (cases kv)
  obtain r d where d: "DB_Put dbi k v (DB s) = (r, d)" by (cases "DB_Put dbi k v (DB s)")
  let ?s = "s\<lparr>DB := d\<rparr>"
  have own: "touches dbi kv (\<lambda>_. s) (\<lambda>_. ?s)"
    using put_touches [OF d] by (auto simp: touches_def holds_def kv)
  show ?thesis
  proof (cases r)
    case (Some e)
    then have "x = ((Some nack, Some (StatusError Internal ''failed to save msg on coordinator'')), ?s, w)"
      using assms(1) d assms(3) by (simp add: put_persist_def cache_Get_Some kv)
    then show ?thesis using own assms(2) by (auto simp: put_result_def last_index_def clean_def)
  next
    case None
    then have hold: "holds dbi kv ?s" using put_get d by (simp add: holds_def kv)
    obtain ret s1 gs1 w1 where c: "commit_phase g 0 (Followers s) ctx ?s gs w = Inr (ret, s1, gs1, w1)"
        "(case ret of Some reply \<Rightarrow> Inr (reply, s1, w1) | None \<Rightarrow> put_finish s1 w1) = Inr x"
      using assms(1,3) d None by (auto simp: put_persist_def cache_Get_Some kv elim!: gbind_InrE)
    have "clean (Height ?s) kv (Connection ` set (Followers s)) (view w)" using assms(2) by simp
    note cp = commit_phase_clean [OF c(1) this order_refl]
    show ?thesis
    proof (cases ret)
      case (Some reply)
      then have "x = (reply, s1, w1)" "reply \<noteq> (Some ack, None)"
        using c(2) gives_up_not_ack [OF commit_phase_gives_up [OF c(1) [unfolded Some]]] by simp_all
      then show ?thesis using cp own by (auto simp: put_result_def last_index_def clean_def kept_def touches_def holds_def)
    next
      case None
      then have "x = ((Some ack, None), (incr_Height s1)\<lparr>monitor := Reset (monitor s1)\<rparr>, w1)"
        using c(2) by (auto simp: put_finish_def incr_Height_def Let_def elim!: gbind_InrE)
      then show ?thesis using cp own hold None
        by (auto simp: put_result_def last_index_def clean_def kept_def touches_def holds_def incr_Height_def)
    qed
  qed
qed

lemma put_decide_result:
  assumes "put_decide g dbi s gs ctx w = Inr x"
    and "clean (Height s) kv (Connection ` set (Followers s)) (view w)"
    and "cache_lookup (NodeCache s) (Height s) = Some kv"
  shows "put_result dbi view kv s w x"
proof -
  obtain ret ctx1 w1 where p: "precommit_phase g s (Followers s) ctx w = Inr (ret, ctx1, w1)"
      "pred_option gives_up ret"
    using precommit_phase_total [of g s "Followers s" ctx w] by blast
  note pc = precommit_phase_clean [OF p(1) assms(2)]
  show ?thesis
  proof (cases ret)
    case (Some reply)
    then have "x = (reply, s, w1)" "reply \<noteq> (Some ack, None)"
      using assms(1) p gives_up_not_ack by (auto simp: put_decide_def)
    then show ?thesis using pc by (auto simp: put_result_def last_index_def clean_def intro: touches_same_data)
  next
    case None
    then have "put_persist g dbi s gs ctx1 w1 = Inr x" using assms(1) p(1) by (simp add: put_decide_def)
    from put_persist_result [OF this _ assms(3)] pc
    have "put_result dbi view kv s w1 x" by blast
    then show ?thesis by (rule put_result_before) (use pc in auto)
  qed
qed

lemma Put_result:
  assumes "Coordinator.Put g dbi s ctx req w = Some (Inr x)" and "Followers s \<noteq> []"
    and "no_future (Height s) (view w)"
  shows "put_result dbi view (eKey req, eValue req) s w x"
proof -
  let ?kv = "(eKey req, eValue req)"
  obtain s1 gs where st: "put_start s = Inr (s1, gs)"
    using assms(1) by (auto simp: Put_def split: sum.splits)
  have s1: "kept s s1" "Height s1 = Height s"
    using kept_monitor_only [OF put_start_monitor_only [OF st]] by auto
  obtain y where y: "propose_phase g (put_ctype s) req 0 (Followers s1) ctx s1 gs w = Some (Inr y)"
    using assms(1) st by (auto simp: Put_def split: option.splits sum.splits)
  obtain ret s2 gs2 ctx2 w2 where yy: "y = (ret, s2, gs2, ctx2, w2)" by (cases y)
  have "clean (Height s1) ?kv {} (view w)" using assms(3) s1 by (simp add: clean_def)
  from propose_phase_clean [OF y [unfolded yy] this] have
    p: "ret = None" "kept s1 s2" "same_data (view w) (view w2)"
      "clean (Height s2) ?kv (Connection ` set (Followers s)) (view w2)"
      "cache_lookup (NodeCache s2) (Height s2) = Some ?kv"
    using s1 assms(2) by (auto simp: kept_def)
  have "put_decide g dbi s2 gs2 ctx2 w2 = Inr x" using assms(1) st y yy p(1) by (simp add: Put_def)
  moreover have f: "Followers s2 = Followers s" "DB s2 = DB s" "Height s \<le> Height s2"
    using p(2) s1 by (auto simp: kept_def)
  ultimately have "put_result dbi view ?kv s2 w2 x" using put_decide_result p(4,5) by metis
  then show ?thesis using p(3) f by (rule put_result_before)
qed

end

section \<open>A transport with the laws\<close>

datatype fate = Delivered | LostRequest | LostReply

record 'd world =
  members :: "(conn, 'd Server) gomap"
  stranger :: "'d Server"
  fates :: "fate list"

definition nodes :: "'d world \<Rightarrow> conn \<Rightarrow> 'd Server" where
  "nodes w a = (case gm_lookup (members w) a of None \<Rightarrow> stranger w | Some s \<Rightarrow> s)"

definition rpc_reply :: "'r reply \<Rightarrow> error + 'r" where
  "rpc_reply r =
     (case r of
        (_, Some e) \<Rightarrow> Inl e
      | (None, None) \<Rightarrow> Inl (StatusError Internal ''grpc: error while marshaling: proto: Marshal called with nil'')
      | (Some resp, None) \<Rightarrow> Inr resp)"

definition deliver :: "('d, unit, 'r) rpc \<Rightarrow> conn \<Rightarrow> 'd world \<Rightarrow> (error + 'r) \<times> 'd world" where
  "deliver call a w =
     (case (case fates w of [] \<Rightarrow> (Delivered, []) | x # xs \<Rightarrow> (x, xs)) of (fate, rest) \<Rightarrow>
        if fate = LostRequest then (Inl unavailable, w\<lparr>fates := rest\<rparr>)
        else (case call (nodes w a, ()) of
            Some (Inr (reply, s', _)) \<Rightarrow>
              (if fate = LostReply then Inl unavailable else rpc_reply reply,
               w\<lparr>members := gm_update a s' (members w), fates := rest\<rparr>)
          | _ \<Rightarrow> (Inl unavailable, w\<lparr>fates := rest\<rparr>)))"

text \<open>The context of the handler: the caller's outgoing metadata and its address.\<close>

definition incoming :: "Context \<Rightarrow> Context" where
  "incoming ctx =
     \<lparr>ctx_incoming = Some (case ctx_outgoing ctx of None \<Rightarrow> gm_empty | Some md \<Rightarrow> md), ctx_outgoing = None,
      ctx_peer = Some ''127.0.0.1:40000'', ctx_timeouts = ctx_timeouts ctx\<rparr>"

definition cluster_grpc :: "'d Database \<Rightarrow> 'd world grpc" where
  "cluster_grpc dbi =
     \<lparr>invoke_Propose = (\<lambda>a ctx req. deliver
        (Commit_Propose_Handler (incoming ctx) (Inr req) (Some WhiteListChecker)) a),
      invoke_Precommit = (\<lambda>a ctx req. deliver
        (Commit_Precommit_Handler (incoming ctx) (Inr req) (Some WhiteListChecker)) a),
      invoke_Commit = (\<lambda>a ctx req. deliver
        (Commit_Commit_Handler dbi (incoming ctx) (Inr req) (Some WhiteListChecker)) a),
      invoke_Put = (\<lambda>a ctx req w. (Inl unavailable, w)),
      invoke_Get = (\<lambda>a ctx req. deliver
        (Commit_Get_Handler dbi (incoming ctx) (Inr req) (Some WhiteListChecker)) a),
      invoke_NodeInfo = (\<lambda>a ctx. deliver
        (Commit_NodeInfo_Handler (incoming ctx) (Inr ()) (Some WhiteListChecker)) a)\<rparr>"

lemma rpc_reply_Inr: "rpc_reply r = Inr resp \<longleftrightarrow> r = (Some resp, None)"
  by (auto simp: rpc_reply_def split: prod.splits option.splits)

lemma nodes_upd [simp]:
  "nodes (w\<lparr>members := gm_update a s' (members w), fates := fs\<rparr>) = (nodes w)(a := s')"
  "nodes (w\<lparr>fates := fs\<rparr>) = nodes w"
  "nodes (w\<lparr>members := gm_update a s' (members w)\<rparr>) = (nodes w)(a := s')"
  by (auto simp: nodes_def fun_eq_iff split: option.split)

lemma deliver_outcome:
  assumes "\<And>s. call (s, ()) = local_call h (s, ()) \<or> (\<exists>e. call (s, ()) = Some (Inr ((None, Some e), s, ())))"
  shows "outcome nodes h a w (deliver call a w)"
  using assms [of "nodes w a"]
  by (auto simp: deliver_def outcome_def local_call_def rpc_reply_Inr gbind_def fun_upd_idem
      split: list.splits sum.splits prod.splits option.splits)

lemma checked_call:
  "unary_handler m (\<lambda>ctx req. local_call (h ctx req)) ctx (Inr req) (Some WhiteListChecker) sw =
     local_call (h ctx req) sw \<or>
   (\<exists>e. unary_handler m (\<lambda>ctx req. local_call (h ctx req)) ctx (Inr req) (Some WhiteListChecker) sw =
      Some (Inr ((None, Some e), sw)))"
  unfolding unary_handler_def sum.case option.case
  by (cases "whitelisted (fst sw) ctx")
    (rule disjI1, erule WhiteListChecker_pass, rule disjI2, erule WhiteListChecker_block)

lemma cluster_network: "network (cluster_grpc dbi) dbi nodes"
proof
  show "\<exists>ictx. outcome nodes (\<lambda>s. Propose s ictx req) a w (invoke_Propose (cluster_grpc dbi) a ctx req w)"
    for req a w ctx
    unfolding cluster_grpc_def grpc.simps Commit_Propose_Handler_def
    by (rule exI [of _ "incoming ctx"], rule deliver_outcome, rule checked_call [where h = "\<lambda>c q s. Propose s c q"])
  show "\<exists>ictx. outcome nodes (\<lambda>s. Precommit s ictx req) a w (invoke_Precommit (cluster_grpc dbi) a ctx req w)"
    for req a w ctx
    unfolding cluster_grpc_def grpc.simps Commit_Precommit_Handler_def
    by (rule exI [of _ "incoming ctx"], rule deliver_outcome, rule checked_call [where h = "\<lambda>c q s. Precommit s c q"])
  show "\<exists>ictx. outcome nodes (\<lambda>s. Commit dbi s ictx req) a w (invoke_Commit (cluster_grpc dbi) a ctx req w)"
    for req a w ctx
    unfolding cluster_grpc_def grpc.simps Commit_Commit_Handler_def
    by (rule exI [of _ "incoming ctx"], rule deliver_outcome, rule checked_call [where h = "\<lambda>c q s. Commit dbi s c q"])
qed

lemma cluster_replicated:
  "database (DB_Put dbi) (DB_Get dbi) \<Longrightarrow> replicated (cluster_grpc dbi) dbi nodes"
  by (intro replicated.intro cluster_network)

lemma mem_database: "database (DB_Put mem_dbi) (DB_Get mem_dbi)"
  unfolding mem_dbi_def by (rule badger_database) (rule mem_badger_laws)

interpretation mem_cluster: replicated "cluster_grpc mem_dbi" mem_dbi nodes
  by (rule cluster_replicated) (rule mem_database)

section \<open>Runs\<close>

text \<open>
  A run of the coordinator: calls of \<^verbatim>\<open>Put\<close> one after the other, each of which returns, until
  just before the height wraps around.
\<close>

inductive put_steps :: "'w grpc \<Rightarrow> 'd Database \<Rightarrow> 'd Server \<Rightarrow> 'w \<Rightarrow> 'd Server \<Rightarrow> 'w \<Rightarrow> bool"
  for g dbi s w where
  no_puts: "put_steps g dbi s w s w"
| one_more: "put_steps g dbi s w s1 w1 \<Longrightarrow> Put g dbi s1 ctx req w1 = Some (Inr (reply, s2, w2)) \<Longrightarrow>
    Height s2 \<noteq> 0 \<or> reply \<noteq> (Some ack, None) \<Longrightarrow> put_steps g dbi s w s2 w2"

lemma last_index_le: "Height s' \<noteq> 0 \<or> reply \<noteq> (Some ack, None) \<Longrightarrow> last_index reply s' \<le> Height s'"
  by (auto simp: last_index_def) (metis measure_unat order_less_imp_le word_less_nat_alt)

lemma Put_keeps_no_future:
  assumes "replicated g dbi view" and "Put g dbi s ctx req w = Some (Inr (reply, s', w'))"
    and "Followers s \<noteq> []" and "no_future (Height s) (view w)"
    and "Height s' \<noteq> 0 \<or> reply \<noteq> (Some ack, None)"
  shows "no_future (Height s') (view w') \<and> Followers s' = Followers s"
proof -
  have r: "put_result dbi view (eKey req, eValue req) s w (reply, s', w')"
    using assms(1,2,3,4) by (rule replicated.Put_result)
  then have "no_future (last_index reply s') (view w')" by (simp add: put_result_def)
  then have "no_future (Height s') (view w')" using last_index_le [OF assms(5)] by (rule no_future_mono)
  with r show ?thesis by (simp add: put_result_def)
qed

lemma put_steps_invariant:
  assumes "put_steps g dbi s w s' w'" and "replicated g dbi view"
    and "Followers s \<noteq> []" and "no_future (Height s) (view w)"
  shows "no_future (Height s') (view w') \<and> Followers s' = Followers s"
  using assms(1)
proof induction
  case (one_more s1 w1 ctx req reply s2 w2)
  then show ?case using Put_keeps_no_future [OF assms(2) one_more.hyps(2)] assms(3) by simp
qed (simp add: assms)

section \<open>Concrete clusters\<close>

text \<open>Followers at two addresses, and a coordinator that knows them in the given order.\<close>

definition example_world :: "string \<Rightarrow> fate list \<Rightarrow> (string, bytes) gomap world" where
  "example_world ctype fs =
     (let s = example_server ''follower'' ctype [''c'']
      in \<lparr>members = [(''a'', s), (''b'', s)], stranger = s, fates = fs\<rparr>)"

definition example_put ::
    "(string, bytes) gomap Server \<Rightarrow> (string, bytes) gomap world \<Rightarrow> Entry \<Rightarrow>
       (Response reply \<times> (string, bytes) gomap Server \<times> (string, bytes) gomap world) go option" where
  "example_put s w req = Put (cluster_grpc mem_dbi) mem_dbi s Background req w"

lemma example_no_future: "no_future h (nodes (example_world ctype fs))"
proof -
  have "NodeCache (example_server r c f) = cache_New" for r c f
    by (auto simp: example_server_def new_server_def NewCommitServer_def Let_def split: sum.splits option.splits if_splits)
  then show ?thesis by (simp add: no_future_def example_world_def Let_def nodes_def node_cache_def split: option.splits)
qed

end
