(* ===== verification/Reliable.thy ===== *)
theory Reliable
  imports Cluster
begin

text \<open>
  Runs without losses. The locale \<open>reliable\<close> says what a transport does for the nodes that are
  \<open>up\<close>: the reply of a handler that returns one reaches the caller. On such a transport, when
  the hooks and the databases of two followers accept the value and no follower is ahead of the
  coordinator, \<^verbatim>\<open>Put\<close> returns an acknowledgement.
\<close>

definition served ::
    "('w \<Rightarrow> conn \<Rightarrow> 'd Server) \<Rightarrow> ('w \<Rightarrow> conn \<Rightarrow> bool) \<Rightarrow> conn \<Rightarrow> 'w \<Rightarrow> (error + Response) \<times> 'w \<Rightarrow>
       Response \<Rightarrow> 'd Server \<Rightarrow> bool" where
  "served view up a w x resp s' \<longleftrightarrow>
     (\<exists>w'. x = (Inr resp, w') \<and> view w' = (view w)(a := s') \<and> up w' = up w)"

locale reliable = replicated g dbi view
  for g :: "'w grpc" and dbi :: "'d Database" and view :: "'w \<Rightarrow> conn \<Rightarrow> 'd Server" +
  fixes up :: "'w \<Rightarrow> conn \<Rightarrow> bool" and inc :: "Context \<Rightarrow> Context"
  assumes inc_mode: "ctx_outgoing ctx = None \<Longrightarrow> \<exists>md. FromIncomingContext (inc ctx) = Some md \<and> gm_lookup md ''mode'' = None"
    and propose_served: "up w a \<Longrightarrow> Propose (view w a) (inc ctx) p = Inr ((Some resp, None), s') \<Longrightarrow>
      srv_Config s' = srv_Config (view w a) \<Longrightarrow> served view up a w (invoke_Propose g a ctx p w) resp s'"
    and precommit_served: "up w a \<Longrightarrow> Precommit (view w a) (inc ctx) pc = Inr ((Some resp, None), s') \<Longrightarrow>
      srv_Config s' = srv_Config (view w a) \<Longrightarrow> served view up a w (invoke_Precommit g a ctx pc w) resp s'"
    and commit_served: "up w a \<Longrightarrow> Commit dbi (view w a) (inc ctx) c = Inr ((Some resp, None), s') \<Longrightarrow>
      srv_Config s' = srv_Config (view w a) \<Longrightarrow> served view up a w (invoke_Commit g a ctx c w) resp s'"

text \<open>A node whose hooks accept everything.\<close>

definition willing :: "'d Server \<Rightarrow> bool" where
  "willing s \<longleftrightarrow> (\<exists>p. ProposeHook s = Some p \<and> (\<forall>q. p q)) \<and> (\<exists>c. CommitHook s = Some c \<and> (\<forall>q. c q))"

definition takes :: "'d Database \<Rightarrow> string \<times> bytes \<Rightarrow> bool" where
  "takes dbi kv \<longleftrightarrow> (\<forall>d. fst (DB_Put dbi (fst kv) (snd kv) d) = None)"

lemma willing_Propose:
  assumes "willing s" and "Height s \<le> h"
  obtains s' where "Propose s ctx (proposal ct req h) = Inr ((Some \<lparr>rType = ACK, rIndex = h\<rparr>, None), s')"
    "willing s'" "Height s' = Height s" "srv_Config s' = srv_Config s"
    "node_cache s' = (node_cache s)(h := Some (eKey req, eValue req))"
proof -
  let ?s = "(SetProgressForCommitPhase s h False)\<lparr>NodeCache := cache_Set (NodeCache s) h (eKey req) (eValue req)\<rparr>"
  show thesis
  proof (rule that [of ?s])
    show "Propose s ctx (proposal ct req h) = Inr ((Some \<lparr>rType = ACK, rIndex = h\<rparr>, None), ?s)"
      using assms by (auto simp: willing_def Propose_def ProposeHandler_def SetProgressForCommitPhase_def
          Let_def call_hook_def proposal_def)
    show "willing ?s" using assms(1) by (simp add: willing_def SetProgressForCommitPhase_def)
  qed (auto simp: SetProgressForCommitPhase_def node_cache_def)
qed

lemma willing_Precommit:
  assumes "willing s"
  obtains s' where "Precommit s ctx pc = Inr ((Some ack, None), s')" "willing s'" "Height s' = Height s"
    "srv_Config s' = srv_Config s" "node_cache s' = node_cache s"
  using assms by (auto simp: willing_def Precommit_def PrecommitHandler_def Let_def node_cache_def fun_eq_iff)

lemma willing_CommitHandler:
  assumes "CommitHook s = Some c" and "\<And>q. c q" and "node_cache s (cIndex q) = Some kv" and "takes dbi kv"
  obtains d where "CommitHandler dbi s q (CommitHook s) = Inr ((Some ack, None), s\<lparr>DB := d\<rparr>)"
proof -
  obtain k v where kv: "kv = (k, v)" by (cases kv)
  obtain d where "DB_Put dbi k v (DB s) = (None, d)"
    using assms(4) by (cases "DB_Put dbi k v (DB s)") (metis fst_conv snd_conv takes_def kv)
  then show thesis using that [of d] assms(1-3)
    by (simp add: CommitHandler_def call_hook_def node_cache_def cache_Get_Some kv)
qed

lemma willing_Commit:
  assumes "willing s" and "node_cache s (cIndex q) = Some kv" and "takes dbi kv"
    and "FromIncomingContext ctx = Some md" and "gm_lookup md ''mode'' = None"
  obtains s' where "Commit dbi s ctx q = Inr ((Some ack, None), s')" "willing s'"
    "srv_Config s' = srv_Config s" "node_cache s' = node_cache s"
proof -
  let ?s = "if three_phase s then SetProgressForCommitPhase s (Height s) True else s"
  obtain c where c: "CommitHook ?s = Some c" "\<And>x. c x"
    using assms(1) by (auto simp: willing_def SetProgressForCommitPhase_def)
  have "node_cache ?s (cIndex q) = Some kv"
    using assms(2) by (simp add: SetProgressForCommitPhase_def node_cache_def)
  from willing_CommitHandler [OF c this assms(3)] obtain d
    where d: "CommitHandler dbi ?s q (CommitHook ?s) = Inr ((Some ack, None), ?s\<lparr>DB := d\<rparr>)" .
  then have "Commit dbi s ctx q = Inr ((Some ack, None), incr_Height (?s\<lparr>DB := d\<rparr>))"
    using assms(4,5) by (cases "three_phase s") (simp_all add: Commit_def after_commit_def ack_def)
  then show thesis
    by (rule that) (use assms(1) in \<open>auto simp: willing_def incr_Height_def SetProgressForCommitPhase_def node_cache_def\<close>)
qed

text \<open>The followers \<open>F\<close> can commit, and those of \<open>D\<close> have cached \<open>kv\<close> at height \<open>h\<close>.\<close>

definition able ::
    "('w \<Rightarrow> conn \<Rightarrow> 'd Server) \<Rightarrow> ('w \<Rightarrow> conn \<Rightarrow> bool) \<Rightarrow> conn set \<Rightarrow> conn set \<Rightarrow> uint64 \<Rightarrow> string \<times> bytes \<Rightarrow> 'w \<Rightarrow> bool" where
  "able view up F D h kv w \<longleftrightarrow>
     (\<forall>a\<in>F. up w a \<and> willing (view w a)) \<and> (\<forall>a\<in>D. node_cache (view w a) h = Some kv)"

definition not_ahead :: "(conn \<Rightarrow> 'd Server) \<Rightarrow> conn set \<Rightarrow> uint64 \<Rightarrow> bool" where
  "not_ahead ns F h \<longleftrightarrow> (\<forall>a\<in>F. Height (ns a) \<le> h)"

context reliable
begin

text \<open>A follower that is not ahead takes the first proposal.\<close>

lemma propose_once_level:
  assumes st: "status b (monitor s) gs ps [] ''none''" and f: "up w (Connection f)" "willing (view w (Connection f))"
    and level: "Height (view w (Connection f)) \<le> Height s"
  obtains resp s1 gs1 w1 b1 s' where
    "propose_once g pid f ctx ct req s gs w = Inr ((Some resp, None), s1, gs1, w1)" "rType resp = ACK"
    "status b1 (monitor s1) gs1 ps [] ''none''" "kept s s1" "NodeCache s1 = NodeCache s" "Height s1 = Height s"
    "view w1 = (view w)(Connection f := s')" "up w1 = up w" "willing s'" "Height s' = Height (view w (Connection f))"
    "node_cache s' = (node_cache (view w (Connection f)))(Height s := Some (eKey req, eValue req))"
proof -
  let ?a = "Connection f" and ?h = "Height s"
  obtain s' where p: "Propose (view w ?a) (inc ctx) (proposal ct req ?h) = Inr ((Some \<lparr>rType = ACK, rIndex = ?h\<rparr>, None), s')"
    "willing s'" "Height s' = Height (view w ?a)" "srv_Config s' = srv_Config (view w ?a)"
    "node_cache s' = (node_cache (view w ?a))(?h := Some (eKey req, eValue req))"
    using willing_Propose [OF f(2) level] by metis
  from propose_served [OF f(1) p(1,4)] obtain w' where
    i: "invoke_Propose g ?a ctx (proposal ct req ?h) w = (Inr \<lparr>rType = ACK, rIndex = ?h\<rparr>, w')"
      "view w' = (view w)(?a := s')" "up w' = up w" by (auto simp: served_def)
  from st i(1) obtain b1 s1 gs1 where l: "status b1 (monitor s1) gs1 ps [] ''none''"
    "propose_once g pid f ctx ct req s gs w = Inr (fst (stub_result (Inr \<lparr>rType = ACK, rIndex = ?h\<rparr>, w')), s1, gs1, w')"
    "propose_loop g pid f ctx ct req s gs w =
       (if acked (Inr \<lparr>rType = ACK, rIndex = ?h\<rparr>) then Some (Inr (fst (stub_result (Inr \<lparr>rType = ACK, rIndex = ?h\<rparr>, w')), s1, gs1, w'))
        else propose_loop g pid f ctx ct req s1 gs1 w')"
    by (rule propose_loop_step [where pid = pid])
  from propose_once_cases [OF l(2)] i(1) have k: "kept s s1" "Height s1 = ?h" "NodeCache s1 = NodeCache s"
    by (auto simp: bumped_height_def)
  have "propose_once g pid f ctx ct req s gs w = Inr ((Some \<lparr>rType = ACK, rIndex = ?h\<rparr>, None), s1, gs1, w')"
    using l(2) by simp
  then show thesis using l(1) k p i by (intro that [of "\<lparr>rType = ACK, rIndex = ?h\<rparr>" s1 gs1 w' b1 s']) simp_all
qed

lemma propose_loop_level:
  assumes st: "status b (monitor s) gs ps [] ''none''" and f: "up w (Connection f)" "willing (view w (Connection f))"
    and level: "Height (view w (Connection f)) \<le> Height s"
  obtains resp s1 gs1 w1 b1 s' where
    "propose_loop g pid f ctx ct req s gs w = Some (Inr ((Some resp, None), s1, gs1, w1))" "rType resp = ACK"
    "status b1 (monitor s1) gs1 ps [] ''none''" "kept s s1" "NodeCache s1 = NodeCache s" "Height s1 = Height s"
    "view w1 = (view w)(Connection f := s')" "up w1 = up w" "willing s'" "Height s' = Height (view w (Connection f))"
    "node_cache s' = (node_cache (view w (Connection f)))(Height s := Some (eKey req, eValue req))"
proof -
  obtain resp s1 gs1 w1 b1 s' where once: "propose_once g pid f ctx ct req s gs w = Inr ((Some resp, None), s1, gs1, w1)"
    "rType resp = ACK" "status b1 (monitor s1) gs1 ps [] ''none''" "kept s s1" "NodeCache s1 = NodeCache s" "Height s1 = Height s"
    "view w1 = (view w)(Connection f := s')" "up w1 = up w" "willing s'" "Height s' = Height (view w (Connection f))"
    "node_cache s' = (node_cache (view w (Connection f)))(Height s := Some (eKey req, eValue req))"
    by (rule propose_once_level [OF assms, of pid ctx ct req])
  have "propose_loop g pid f ctx ct req s gs w = Some (Inr ((Some resp, None), s1, gs1, w1))"
    using once(1,2) by (subst propose_loop.simps) (simp add: propose_again_def)
  then show thesis using once(2-11) by (rule that)
qed

lemma propose_loop_able:
  assumes st: "status b (monitor s) gs ps [] ''none''"
    and able: "able view up F D (Height s) (eKey req, eValue req) w"
    and ahead: "not_ahead (view w) F (Height s)" and a: "Connection f \<in> F"
  obtains resp s1 gs1 w1 b1 where
    "propose_loop g pid f ctx ct req s gs w = Some (Inr ((Some resp, None), s1, gs1, w1))" "rType resp = ACK"
    "status b1 (monitor s1) gs1 ps [] ''none''" "kept s s1" "Height s1 = Height s"
    "able view up F (insert (Connection f) D) (Height s) (eKey req, eValue req) w1"
    "not_ahead (view w1) F (Height s)"
proof -
  let ?a = "Connection f" and ?h = "Height s"
  have w: "up w ?a" "willing (view w ?a)" "Height (view w ?a) \<le> ?h"
    using able ahead a by (auto simp: able_def not_ahead_def)
  from propose_loop_level [OF st w] obtain resp s1 gs1 w1 b1 s' where l:
    "propose_loop g pid f ctx ct req s gs w = Some (Inr ((Some resp, None), s1, gs1, w1))" "rType resp = ACK"
    "status b1 (monitor s1) gs1 ps [] ''none''" "kept s s1" "Height s1 = Height s"
    "view w1 = (view w)(?a := s')" "up w1 = up w" "willing s'" "Height s' = Height (view w ?a)"
    "node_cache s' = (node_cache (view w ?a))(?h := Some (eKey req, eValue req))" by metis
  moreover have "able view up F (insert ?a D) ?h (eKey req, eValue req) w1"
    using able l(6,7,8,10) by (auto simp: able_def)
  moreover have "not_ahead (view w1) F ?h" using ahead l(6,9) by (auto simp: not_ahead_def)
  ultimately show thesis using that by blast
qed

text \<open>A proposal that is acknowledged: the phase goes on with the next follower.\<close>

lemma propose_phase_next:
  assumes "propose_loop g pid f (put_context s ctx) ct req s gs w = Some (Inr ((Some resp, None), s1, gs1, w1))" "rType resp = ACK"
    and "status b1 (monitor s1) gs1 [0..<pid] [] ''none''" and "kept s s1"
  obtains s2 gs2 where
    "propose_phase g ct req pid (f # fs) ctx s gs w = propose_phase g ct req (Suc pid) fs (put_context s ctx) s2 gs2 w1"
    "status b1 (monitor s2) gs2 [0..<Suc pid] [] ''none''" "kept s s2" "Height s2 = Height s1"
    "cache_lookup (NodeCache s2) (Height s1) = Some (eKey req, eValue req)"
proof -
  let ?s1 = "s1\<lparr>NodeCache := cache_Set (NodeCache s1) (Height s1) (eKey req) (eValue req)\<rparr>"
  have "status b1 (monitor ?s1) gs1 [0..<pid] [] ''none''" using assms(3) by simp
  from status_prepared [OF this, of pid] obtain m gs2 where
    m: "mon_prepared pid ?s1 gs1 = Inr (?s1\<lparr>monitor := m\<rparr>, gs2)" "status b1 m gs2 [0..<Suc pid] [] ''none''"
    by auto
  show thesis
    using assms m by (intro that [of "?s1\<lparr>monitor := m\<rparr>" gs2]) (auto simp: propose_reply_def Let_def kept_def)
qed

lemma put_context_outgoing [simp]: "ctx_outgoing (put_context s ctx) = ctx_outgoing ctx"
  by (simp add: put_context_def WithTimeout_def)

lemma propose_phase_able:
  assumes "status b (monitor s) gs [0..<pid] [] ''none''"
    and "able view up F D (Height s) (eKey req, eValue req) w"
    and "not_ahead (view w) F (Height s)" and "Connection ` set fs \<subseteq> F"
  shows "\<exists>s1 gs1 ctx1 w1. propose_phase g ct req pid fs ctx s gs w = Some (Inr (None, s1, gs1, ctx1, w1)) \<and>
    kept s s1 \<and> Height s1 = Height s \<and> ctx_outgoing ctx1 = ctx_outgoing ctx \<and>
    able view up F (D \<union> Connection ` set fs) (Height s) (eKey req, eValue req) w1 \<and>
    (fs \<noteq> [] \<longrightarrow> cache_lookup (NodeCache s1) (Height s1) = Some (eKey req, eValue req))"
  using assms
proof (induction fs arbitrary: pid ctx s gs w b D)
  case (Cons f fs)
  let ?kv = "(eKey req, eValue req)"
  have f: "Connection f \<in> F" using Cons.prems(4) by simp
  obtain resp s1 gs1 w1 b1 where
    l: "propose_loop g pid f (put_context s ctx) ct req s gs w = Some (Inr ((Some resp, None), s1, gs1, w1))"
      "rType resp = ACK" "status b1 (monitor s1) gs1 [0..<pid] [] ''none''" "kept s s1" "Height s1 = Height s"
      "able view up F (insert (Connection f) D) (Height s) ?kv w1" "not_ahead (view w1) F (Height s)"
    by (rule propose_loop_able [OF Cons.prems(1-3) f])
  obtain s2 gs2 where n:
    "propose_phase g ct req pid (f # fs) ctx s gs w = propose_phase g ct req (Suc pid) fs (put_context s ctx) s2 gs2 w1"
    "status b1 (monitor s2) gs2 [0..<Suc pid] [] ''none''" "kept s s2" "Height s2 = Height s1"
    "cache_lookup (NodeCache s2) (Height s1) = Some ?kv"
    by (rule propose_phase_next [OF l(1-4)])
  have prem: "able view up F (insert (Connection f) D) (Height s2) ?kv w1" "not_ahead (view w1) F (Height s2)"
      "Connection ` set fs \<subseteq> F"
    using l(5-7) n(4) Cons.prems(4) by auto
  from Cons.IH [OF n(2) prem, of "put_context s ctx"] obtain s3 gs3 ctx3 w3 where
    ih: "propose_phase g ct req (Suc pid) fs (put_context s ctx) s2 gs2 w1 = Some (Inr (None, s3, gs3, ctx3, w3))"
      "kept s2 s3" "Height s3 = Height s" "ctx_outgoing ctx3 = ctx_outgoing ctx"
      "able view up F (insert (Connection f) D \<union> Connection ` set fs) (Height s) ?kv w3"
      "fs \<noteq> [] \<longrightarrow> cache_lookup (NodeCache s3) (Height s3) = Some ?kv"
    using l(5) n(4) by auto
  have "cache_lookup (NodeCache s3) (Height s3) = Some ?kv"
    using ih(1,6) l(5) n(4,5) by (cases "fs = []") auto
  moreover have "kept s s3" using n(3) ih(2) by (rule kept_trans)
  ultimately show ?case using n(1) ih(1,3-5) by (auto simp del: propose_phase.simps)
qed auto

lemma precommit_phase_able:
  assumes "able view up F D h kv w" and "Connection ` set fs \<subseteq> F"
  shows "\<exists>ctx1 w1. precommit_phase g s fs ctx w = Inr (None, ctx1, w1) \<and> able view up F D h kv w1 \<and>
    ctx_outgoing ctx1 = ctx_outgoing ctx"
  using assms
proof (induction fs arbitrary: ctx w)
  case (Cons f fs)
  let ?a = "Connection f" and ?ctx = "put_context s ctx" and ?q = "\<lparr>pcIndex = Height s\<rparr>"
  have w: "up w ?a" "willing (view w ?a)" using Cons.prems by (auto simp: able_def)
  obtain s' where p: "Precommit (view w ?a) (inc ?ctx) ?q = Inr ((Some ack, None), s')" "willing s'"
      "srv_Config s' = srv_Config (view w ?a)" "node_cache s' = node_cache (view w ?a)"
    using willing_Precommit [OF w(2)] by metis
  from precommit_served [OF w(1) p(1,3)] obtain w' where
    i: "invoke_Precommit g ?a ?ctx ?q w = (Inr ack, w')" "view w' = (view w)(?a := s')" "up w' = up w"
    by (auto simp: served_def)
  have "able view up F D h kv w'" using Cons.prems(1) p(2,4) i(2,3) by (auto simp: able_def)
  with Cons.IH [of w' ?ctx] Cons.prems(2) i(1) show ?case
    by (auto simp: peer_defs phase_reply_def ack_def put_context_def WithTimeout_def)
qed simp

lemma commit_phase_able:
  assumes "able view up F D (Height s) kv w" and "Connection ` set fs \<subseteq> F \<inter> D" and "takes dbi kv"
    and "ctx_outgoing ctx = None" and "commit_phase g pid fs ctx s gs w = Inr (ret, s1, gs1, w1)"
  shows "ret = None \<and> Height s1 = Height s \<and> able view up F D (Height s) kv w1"
  using assms
proof (induction fs arbitrary: pid s gs w)
  case (Cons f fs)
  let ?a = "Connection f" and ?q = "\<lparr>cIndex = Height s, cIsRollback = False\<rparr>"
  obtain s2 gs2 where m: "mon_commit_sent pid s gs = Inr (s2, gs2)"
    using Cons.prems(5) by (auto elim!: gbind_InrE)
  have s2: "Height s2 = Height s" using kept_monitor_only [OF mon_monitor_only(3) [OF m]] by simp
  have w: "up w ?a" "willing (view w ?a)" "node_cache (view w ?a) (cIndex ?q) = Some kv"
    using Cons.prems(1,2) by (auto simp: able_def)
  obtain md where "FromIncomingContext (inc ctx) = Some md" "gm_lookup md ''mode'' = None"
    using inc_mode [OF Cons.prems(4)] by blast
  from willing_Commit [OF w(2,3) Cons.prems(3) this] obtain s' where
    p: "Commit dbi (view w ?a) (inc ctx) ?q = Inr ((Some ack, None), s')" "willing s'"
      "srv_Config s' = srv_Config (view w ?a)" "node_cache s' = node_cache (view w ?a)" .
  from commit_served [OF w(1) p(1,3)] obtain w' where
    i: "invoke_Commit g ?a ctx ?q w = (Inr ack, w')" "view w' = (view w)(?a := s')" "up w' = up w"
    by (auto simp: served_def)
  obtain s3 gs3 where m3: "mon_committed pid s2 gs2 = Inr (s3, gs3)"
      and rest: "commit_phase g (Suc pid) fs ctx s3 gs3 w' = Inr (ret, s1, gs1, w1)"
    using Cons.prems(5) m s2 i(1) by (auto simp: peer_defs phase_reply_def ack_def elim!: gbind_InrE)
  have s3: "Height s3 = Height s" using kept_monitor_only [OF mon_monitor_only(4) [OF m3]] s2 by simp
  have "able view up F D (Height s3) kv w'" using Cons.prems(1) p(2,4) i(2,3) s3 by (auto simp: able_def)
  from Cons.IH [OF this _ Cons.prems(3,4) rest] Cons.prems(2) s3 show ?case by simp
qed simp

lemma put_decide_able:
  assumes "able view up F D (Height s) kv w" and "Connection ` set (Followers s) \<subseteq> F \<inter> D" and "takes dbi kv"
    and "ctx_outgoing ctx = None" and "cache_lookup (NodeCache s) (Height s) = Some kv"
    and "put_decide g dbi s gs ctx w = Inr (reply, s', w')"
  shows "reply = (Some ack, None) \<and> Height s' = Height s + 1 \<and> able view up F D (Height s) kv w'"
proof -
  obtain ctx1 w1 where p: "precommit_phase g s (Followers s) ctx w = Inr (None, ctx1, w1)"
      "able view up F D (Height s) kv w1" "ctx_outgoing ctx1 = None"
    using precommit_phase_able [OF assms(1), of "Followers s" s ctx] assms(2,4) by auto
  obtain k v where kv: "kv = (k, v)" by (cases kv)
  obtain d where d: "DB_Put dbi k v (DB s) = (None, d)"
    using assms(3) by (cases "DB_Put dbi k v (DB s)") (metis fst_conv snd_conv takes_def kv)
  obtain ret s1 gs1 w2 where c: "commit_phase g 0 (Followers s) ctx1 (s\<lparr>DB := d\<rparr>) gs w1 = Inr (ret, s1, gs1, w2)"
      "(case ret of Some reply \<Rightarrow> Inr (reply, s1, w2) | None \<Rightarrow> put_finish s1 w2) = Inr (reply, s', w')"
    using assms(6) p(1) d assms(5) by (auto simp: put_decide_def put_persist_def cache_Get_Some kv elim!: gbind_InrE)
  have "able view up F D (Height (s\<lparr>DB := d\<rparr>)) kv w1" using p(2) by simp
  from commit_phase_able [OF this assms(2,3) p(3) c(1)] c(2) show ?thesis
    by (auto simp: put_finish_def Let_def incr_Height_def elim!: gbind_InrE)
qed

text \<open>With followers that are ready, \<^verbatim>\<open>Put\<close> comes to an end, and the only reply it can have given is an acknowledgement.\<close>

lemma Put_ready:
  assumes "Followers s \<noteq> []" and "mon_ok (monitor s)" and "ctx_outgoing ctx = None"
    and "\<And>f. f \<in> set (Followers s) \<Longrightarrow> up w (Connection f) \<and> willing (view w (Connection f)) \<and>
      Height (view w (Connection f)) \<le> Height s"
    and "takes dbi (eKey req, eValue req)"
  shows "\<exists>r. Put g dbi s ctx req w = Some r \<and> (\<forall>reply s' w'. r = Inr (reply, s', w') \<longrightarrow>
    reply = (Some ack, None) \<and> Height s' = Height s + 1 \<and>
    (\<forall>f\<in>set (Followers s). up w' (Connection f) \<and> willing (view w' (Connection f))))"
proof -
  let ?F = "Connection ` set (Followers s)" and ?kv = "(eKey req, eValue req)"
  obtain m gs where start: "put_start s = Inr (s\<lparr>monitor := m\<rparr>, gs)" "status True m gs [] [] ''none''"
    using put_start_status [OF assms(2)] by blast
  let ?s = "s\<lparr>monitor := m\<rparr>"
  have "status True (monitor ?s) gs [0..<0] [] ''none''" "able view up ?F {} (Height ?s) ?kv w"
      "not_ahead (view w) ?F (Height ?s)" "Connection ` set (Followers s) \<subseteq> ?F"
    using start(2) assms(4) by (auto simp: able_def not_ahead_def)
  from propose_phase_able [OF this] obtain s1 gs1 ctx1 w1 where
    p: "propose_phase g (put_ctype s) req 0 (Followers s) ctx ?s gs w = Some (Inr (None, s1, gs1, ctx1, w1))"
      "kept ?s s1" "Height s1 = Height ?s" "ctx_outgoing ctx1 = None"
      "able view up ?F ({} \<union> ?F) (Height ?s) ?kv w1"
      "Followers s \<noteq> [] \<longrightarrow> cache_lookup (NodeCache s1) (Height s1) = Some ?kv"
    using assms(3) by metis
  have put: "Put g dbi s ctx req w = Some (put_decide g dbi s1 gs1 ctx1 w1)"
    using start(1) p(1) by (simp add: Put_def)
  have "reply = (Some ack, None) \<and> Height s' = Height s + 1 \<and> able view up ?F ({} \<union> ?F) (Height s) ?kv w'"
    if "put_decide g dbi s1 gs1 ctx1 w1 = Inr (reply, s', w')" for reply s' w'
    using put_decide_able [OF _ _ assms(5) p(4) _ that, of ?F "{} \<union> ?F"] p(2,3,5,6) assms(1) by (simp add: kept_def)
  then show ?thesis using put
    by (intro exI [of _ "put_decide g dbi s1 gs1 ctx1 w1"] conjI allI impI) (simp_all add: able_def)
qed

lemma Put_able:
  assumes "length (Followers s) = 2" and "mon_ok (monitor s)" and "ctx_outgoing ctx = None"
    and "\<And>f. f \<in> set (Followers s) \<Longrightarrow> up w (Connection f) \<and> willing (view w (Connection f)) \<and>
      Height (view w (Connection f)) \<le> Height s"
    and "takes dbi (eKey req, eValue req)"
  shows "\<exists>s' w'. Put g dbi s ctx req w = Some (Inr ((Some ack, None), s', w')) \<and> Height s' = Height s + 1 \<and>
    (\<forall>f\<in>set (Followers s). up w' (Connection f) \<and> willing (view w' (Connection f)))"
proof -
  have "Followers s \<noteq> []" using assms(1) by auto
  then obtain r where r: "Put g dbi s ctx req w = Some r"
    "\<forall>reply s' w'. r = Inr (reply, s', w') \<longrightarrow> reply = (Some ack, None) \<and> Height s' = Height s + 1 \<and>
      (\<forall>f\<in>set (Followers s). up w' (Connection f) \<and> willing (view w' (Connection f)))"
    using Put_ready [OF _ assms(2-5)] by blast
  from put_status [OF assms(2) r(1)] assms(1) obtain reply s' w' where "r = Inr (reply, s', w')"
    by (auto split: sum.splits)
  with r(1) spec [OF spec [OF spec [OF r(2)]], of reply s' w'] show ?thesis by simp
qed

end

section \<open>The cluster without losses\<close>

definition cluster_up :: "'d world \<Rightarrow> conn \<Rightarrow> bool" where
  "cluster_up w a \<longleftrightarrow> fates w = [] \<and> ''127.0.0.1'' \<in> set (Whitelist (srv_Config (nodes w a)))"

lemma incoming_whitelisted: "''127.0.0.1'' \<in> set (Whitelist (srv_Config s)) \<Longrightarrow> whitelisted s (incoming ctx)"
proof -
  have "SplitHostPort ''127.0.0.1:40000'' = Inr (''127.0.0.1'', ''40000'')" by code_simp
  then show "''127.0.0.1'' \<in> set (Whitelist (srv_Config s)) \<Longrightarrow> whitelisted s (incoming ctx)"
    by (simp add: whitelisted_def incoming_def)
qed

lemma deliver_served:
  assumes "cluster_up w a" and "h (nodes w a) = Inr ((Some resp, None), s')"
    and "srv_Config s' = srv_Config (nodes w a)" and "call (nodes w a, ()) = local_call h (nodes w a, ())"
  shows "served nodes cluster_up a w (deliver call a w) resp s'"
  using assms
  by (auto simp: served_def deliver_def local_call_def cluster_up_def rpc_reply_def fun_eq_iff)

lemma checked_call_up:
  assumes "cluster_up w a"
  shows "unary_handler m (\<lambda>ctx req. local_call (h ctx req)) (incoming ctx) (Inr req) (Some WhiteListChecker) (nodes w a, ()) =
    local_call (h (incoming ctx) req) (nodes w a, ())"
  unfolding unary_handler_def sum.case option.case
  by (rule WhiteListChecker_pass) (use assms incoming_whitelisted in \<open>auto simp: cluster_up_def\<close>)

lemma cluster_reliable:
  assumes "database (DB_Put dbi) (DB_Get dbi)"
  shows "reliable (cluster_grpc dbi) dbi nodes cluster_up incoming"
proof (intro reliable.intro cluster_replicated assms reliable_axioms.intro)
  show "\<exists>md. FromIncomingContext (incoming ctx) = Some md \<and> gm_lookup md ''mode'' = None" if "ctx_outgoing ctx = None" for ctx
    using that by (simp add: incoming_def FromIncomingContext_def)
next
  fix w :: "'a world" and a ctx p resp s'
  assume up: "cluster_up w a" and "Propose (nodes w a) (incoming ctx) p = Inr ((Some resp, None), s')"
    and "srv_Config s' = srv_Config (nodes w a)"
  then show "served nodes cluster_up a w (invoke_Propose (cluster_grpc dbi) a ctx p w) resp s'"
    unfolding cluster_grpc_def grpc.simps Commit_Propose_Handler_def
    by (rule deliver_served) (rule checked_call_up [where h = "\<lambda>c q s. Propose s c q", OF up])
next
  fix w :: "'a world" and a ctx pc resp s'
  assume up: "cluster_up w a" and "Precommit (nodes w a) (incoming ctx) pc = Inr ((Some resp, None), s')"
    and "srv_Config s' = srv_Config (nodes w a)"
  then show "served nodes cluster_up a w (invoke_Precommit (cluster_grpc dbi) a ctx pc w) resp s'"
    unfolding cluster_grpc_def grpc.simps Commit_Precommit_Handler_def
    by (rule deliver_served) (rule checked_call_up [where h = "\<lambda>c q s. Precommit s c q", OF up])
next
  fix w :: "'a world" and a ctx c resp s'
  assume up: "cluster_up w a" and "Commit dbi (nodes w a) (incoming ctx) c = Inr ((Some resp, None), s')"
    and "srv_Config s' = srv_Config (nodes w a)"
  then show "served nodes cluster_up a w (invoke_Commit (cluster_grpc dbi) a ctx c w) resp s'"
    unfolding cluster_grpc_def grpc.simps Commit_Commit_Handler_def
    by (rule deliver_served) (rule checked_call_up [where h = "\<lambda>c q s. Commit dbi s c q", OF up])
qed

interpretation mem_reliable: reliable "cluster_grpc mem_dbi" mem_dbi nodes cluster_up incoming
  by (rule cluster_reliable) (rule mem_database)

section \<open>An example run\<close>

lemma example_hooks:
  "ProposeHook (example_server ''follower'' TWO_PHASE [''c'']) = Some hook_Propose"
  "CommitHook (example_server ''follower'' TWO_PHASE [''c'']) = Some hook_Commit"
  by (simp_all add: example_server_def new_server_def example_config_def NewCommitServer_def hooks_Get_def
      config_Get_def default_flags_def db_New_def mem_badger_def peer_New_def checkServerFields_def)

lemma example_willing: "willing (example_server ''follower'' TWO_PHASE [''c''])"
  by (simp add: willing_def example_hooks hook_Propose_def [abs_def] hook_Commit_def [abs_def])

lemma example_takes: "takes mem_dbi (eKey example_entry, eValue example_entry)"
  by (simp add: takes_def mem_dbi_def BadgerDB_def BadgerDB_Put_def mem_badger_def example_entry_def)

lemma example_nodes: "nodes (example_world TWO_PHASE fs) a = example_server ''follower'' TWO_PHASE [''c'']"
  by (simp add: example_world_def nodes_def Let_def)

lemma example_coordinator:
  "Followers (example_server ''coordinator'' TWO_PHASE [''a'', ''b'']) =
     [\<lparr>Connection = ''a'', client_traced = False\<rparr>, \<lparr>Connection = ''b'', client_traced = False\<rparr>]"
  "mon_ok (monitor (example_server ''coordinator'' TWO_PHASE [''a'', ''b'']))"
  by code_simp+

lemma example_ready:
  assumes "f \<in> set (Followers (example_server ''coordinator'' TWO_PHASE [''a'', ''b'']))"
  shows "cluster_up (example_world TWO_PHASE []) (Connection f) \<and>
    willing (nodes (example_world TWO_PHASE []) (Connection f)) \<and>
    Height (nodes (example_world TWO_PHASE []) (Connection f)) \<le>
      Height (example_server ''coordinator'' TWO_PHASE [''a'', ''b''])"
proof -
  have "''127.0.0.1'' \<in> set (Whitelist (srv_Config (example_server ''follower'' TWO_PHASE [''c''])))"
      "Height (example_server ''follower'' TWO_PHASE [''c'']) \<le>
        Height (example_server ''coordinator'' TWO_PHASE [''a'', ''b''])" by code_simp+
  moreover have "fates (example_world TWO_PHASE []) = []" by (simp add: example_world_def Let_def)
  ultimately show ?thesis by (simp add: example_nodes example_willing cluster_up_def)
qed

lemma example_acknowledged:
  "\<exists>s' w'. Put (cluster_grpc mem_dbi) mem_dbi (example_server ''coordinator'' TWO_PHASE [''a'', ''b''])
     Background example_entry (example_world TWO_PHASE []) = Some (Inr ((Some ack, None), s', w')) \<and>
     Height s' = Height (example_server ''coordinator'' TWO_PHASE [''a'', ''b'']) + 1"
  using mem_reliable.Put_able [of "example_server ''coordinator'' TWO_PHASE [''a'', ''b'']" Background
      "example_world TWO_PHASE []" example_entry] example_ready
  by (force simp: example_takes example_coordinator Background_def)

section \<open>Properties of the cluster\<close>

text \<open>
  C1. An acknowledged value is replicated. The coordinator runs any number of calls of \<^verbatim>\<open>Put\<close>,
  over a network that may lose requests and replies, from a state in which no follower has
  cached anything above the coordinator's height (in particular from the start). When a call is
  acknowledged, the coordinator's database and every follower's database hold its value.
\<close>

theorem acknowledged_is_replicated:
  assumes "replicated g dbi view" and "put_steps g dbi s0 w0 s w" and "Followers s0 \<noteq> []"
    and "no_future (Height s0) (view w0)"
    and "Put g dbi s ctx req w = Some (Inr ((Some ack, None), s', w'))"
  shows "DB_Get dbi (eKey req) (DB s') = Inr (eValue req) \<and>
    (\<forall>f\<in>set (Followers s0). DB_Get dbi (eKey req) (DB (view w' (Connection f))) = Inr (eValue req))"
proof -
  have "no_future (Height s) (view w)" "Followers s = Followers s0"
    using put_steps_invariant [OF assms(2,1,3,4)] by auto
  then have "put_result dbi view (eKey req, eValue req) s w ((Some ack, None), s', w')"
    using assms(1,3,5) by (simp add: replicated.Put_result)
  then show ?thesis using \<open>Followers s = Followers s0\<close> by (simp add: put_result_def holds_def)
qed

theorem acknowledged_is_replicated_witness:
  "\<exists>s' w'. Put (cluster_grpc mem_dbi) mem_dbi (example_server ''coordinator'' TWO_PHASE [''a'', ''b''])
     Background example_entry (example_world TWO_PHASE []) = Some (Inr ((Some ack, None), s', w')) \<and>
   DB_Get mem_dbi ''key1'' (DB s') = Inr [118, 49] \<and>
   DB_Get mem_dbi ''key1'' (DB (nodes w' ''b'')) = Inr [118, 49]"
proof -
  let ?s = "example_server ''coordinator'' TWO_PHASE [''a'', ''b'']" and ?w = "example_world TWO_PHASE []"
  obtain s' w' where p: "Put (cluster_grpc mem_dbi) mem_dbi ?s Background example_entry ?w =
      Some (Inr ((Some ack, None), s', w'))" using example_acknowledged by blast
  have f: "Followers ?s \<noteq> []" "''b'' \<in> Connection ` set (Followers ?s)"
    by (simp_all add: example_coordinator)
  from acknowledged_is_replicated [OF mem_cluster.replicated_axioms put_steps.no_puts f(1) example_no_future p] p f(2)
  show ?thesis by (auto simp: example_entry_def)
qed

text \<open>
  C12. When no node has cached anything above the coordinator's height (which holds at the start and
  after every call of a single coordinator), \<^verbatim>\<open>Put\<close> writes nothing but its own pair, whatever it
  answers and whatever messages are lost: every key of every node and of the coordinator keeps its
  value or, if it is the key of the request, holds the value of the request.
\<close>

theorem Put_writes_only_its_pair:
  assumes "replicated g dbi view" and "Followers s \<noteq> []" and "no_future (Height s) (view w)"
    and "Put g dbi s ctx req w = Some (Inr (reply, s', w'))"
  shows "(\<forall>a k. DB_Get dbi k (DB (view w' a)) = DB_Get dbi k (DB (view w a)) \<or>
       k = eKey req \<and> DB_Get dbi k (DB (view w' a)) = Inr (eValue req)) \<and>
    (\<forall>k. DB_Get dbi k (DB s') = DB_Get dbi k (DB s) \<or> k = eKey req \<and> DB_Get dbi k (DB s') = Inr (eValue req))"
  using replicated.Put_result [OF assms(1,4,2,3)] by (auto simp: put_result_def touches_def holds_def)

theorem Put_writes_only_its_pair_witness:
  "\<exists>reply s' w'. Put (cluster_grpc mem_dbi) mem_dbi (example_server ''coordinator'' TWO_PHASE [''a'', ''b''])
     Background example_entry (example_world TWO_PHASE []) = Some (Inr (reply, s', w')) \<and>
   DB_Get mem_dbi ''key2'' (DB (nodes w' ''a'')) = DB_Get mem_dbi ''key2'' (DB (nodes (example_world TWO_PHASE []) ''a''))"
proof -
  let ?s = "example_server ''coordinator'' TWO_PHASE [''a'', ''b'']" and ?w = "example_world TWO_PHASE []"
  obtain reply s' w' where p: "Put (cluster_grpc mem_dbi) mem_dbi ?s Background example_entry ?w =
      Some (Inr (reply, s', w'))" using example_acknowledged by blast
  have f: "Followers ?s \<noteq> []" by (simp add: example_coordinator)
  have "''key2'' \<noteq> eKey example_entry" by (simp add: example_entry_def)
  then show ?thesis
    using Put_writes_only_its_pair [OF mem_cluster.replicated_axioms f example_no_future p] p by blast
qed

text \<open>
  The height of the coordinator. A follower answers a proposal with the larger of the proposed index
  and its own height, and acknowledges only an index that is not below its height; so the retry loop
  ends at the larger of the two heights, whatever messages were lost on the way.
\<close>

lemma Propose_index:
  "Propose s ctx req = Inr ((Some r, None), s') \<Longrightarrow> rIndex r = max (pIndex req) (Height s) \<and> (rType r \<noteq> NACK \<longrightarrow> Height s \<le> pIndex req)"
  by (auto simp: Propose_def ProposeHandler_def SetProgressForCommitPhase_def Let_def call_hook_def max_def
      split: option.splits if_splits)

lemma Max_insert_max: "finite A \<Longrightarrow> Max (insert (max a b) A) = Max (insert a (insert b A))"
  by (cases "A = {}") (simp_all add: max.assoc)

lemma propose_reply_not_ack: "propose_reply pid req response err s gs = Inr (Some reply, s', gs') \<Longrightarrow> reply \<noteq> (Some ack, None)"
  by (auto simp: propose_reply_def not_acknowledged_def nack_def ack_def Let_def elim!: gbind_InrE split: option.splits if_splits)

lemma propose_phase_not_ack:
  "propose_phase g ct req pid fs ctx s gs w = Some (Inr (Some reply, s1, gs1, ctx1, w1)) \<Longrightarrow> reply \<noteq> (Some ack, None)"
  by (induction fs arbitrary: pid ctx s gs w) (auto split: option.splits sum.splits dest!: propose_reply_not_ack)

lemma commit_phase_height: "commit_phase g pid fs ctx s gs w = Inr (ret, s1, gs1, w1) \<Longrightarrow> Height s1 = Height s"
proof (induction fs arbitrary: pid s gs w)
  case (Cons f fs)
  then obtain s2 gs2 where m: "mon_commit_sent pid s gs = Inr (s2, gs2)" by (auto elim!: gbind_InrE)
  have s2: "Height s2 = Height s" using kept_monitor_only [OF mon_monitor_only(3) [OF m]] by simp
  have s3: "Height s3 = Height s" if "mon_committed pid s2 gs2 = Inr (s3, gs3)" for s3 gs3
    using kept_monitor_only [OF mon_monitor_only(4) [OF that]] s2 by simp
  show ?case using Cons.prems m s2 s3 by (auto elim!: gbind_InrE split: prod.splits option.splits dest!: Cons.IH)
qed simp

lemma put_decide_height:
  assumes "put_decide g dbi s gs ctx w = Inr ((Some ack, None), s', w')"
  shows "Height s' = Height s + 1"
proof -
  obtain ctx1 w1 where "put_persist g dbi s gs ctx1 w1 = Inr ((Some ack, None), s', w')"
    using assms precommit_phase_total [of g s "Followers s" ctx w] gives_up_not_ack [of "(Some ack, None)"]
    by (auto simp: put_decide_def elim!: gbind_InrE split: option.splits)
  then obtain d ret s1 gs1 w2 where c: "commit_phase g 0 (Followers s) ctx1 (s\<lparr>DB := d\<rparr>) gs w1 = Inr (ret, s1, gs1, w2)"
      "(case ret of Some reply \<Rightarrow> Inr (reply, s1, w2) | None \<Rightarrow> put_finish s1 w2) = Inr ((Some ack, None), s', w')"
    by (auto simp: put_persist_def elim!: gbind_InrE split: prod.splits if_splits option.splits)
  have "ret = None"
  proof (cases ret)
    case (Some reply)
    then show ?thesis using c gives_up_not_ack commit_phase_gives_up by fastforce
  qed
  then show ?thesis using c commit_phase_height [OF c(1)]
    by (auto simp: put_finish_def incr_Height_def Let_def elim!: gbind_InrE)
qed

context network
begin

lemma propose_once_height:
  assumes "propose_once g pid f ctx ct req s gs w = Inr ((resp, err), s1, gs1, w1)"
  shows "Height s1 \<in> {Height s, max (Height s) (Height (view w (Connection f)))} \<and>
    same_data (view w) (view w1) \<and>
    (\<not> propose_again resp \<longrightarrow> Height s1 = max (Height s) (Height (view w (Connection f))))"
proof -
  let ?q = "proposal ct req (Height s)"
  obtain r where r: "invoke_Propose g (Connection f) ctx ?q w = (r, w1)"
      "(resp, err) = fst (stub_result (r, w1))" "Height s1 = bumped_height (Height s) r"
    by (rule propose_once_cases [OF assms])
  obtain ictx where o: "outcome view (\<lambda>s'. Propose s' ictx ?q) (Connection f) w (r, w1)"
    using propose [of ?q "Connection f" w ctx] r(1) by auto
  have "same_data (view w) (view w1)"
    using o by (auto simp: outcome_def same_data_def dest!: Propose_cases split: sum.splits)
  moreover have "Height s1 = max (Height s) (Height (view w (Connection f)))" if "r = Inr resp'" for resp'
    using o r(3) that by (auto simp: outcome_def bumped_height_def proposal_def dest!: Propose_index)
  moreover have "Height s1 = Height s \<and> propose_again resp" if "r = Inl e" for e
    using r(2,3) that by (auto simp: bumped_height_def propose_again_def)
  ultimately show ?thesis by (cases r) auto
qed

lemma propose_loop_height:
  assumes "propose_loop g pid f ctx ct req (s :: 'b Server) gs w = Some (Inr ((resp, err), s1, gs1, w1))"
  shows "Height s1 = max (Height s) (Height (view w (Connection f))) \<and> same_data (view w) (view w1)"
proof -
  let ?h = "Height (view w (Connection f))"
  define I where "I s' gs w' \<longleftrightarrow> Height s' \<in> {Height s, max (Height s) ?h} \<and> same_data (view w) (view w')"
    for s' :: "'b Server" and gs :: State and w'
  define Q where "Q x \<longleftrightarrow> (\<forall>resp err s1 gs1 w1. x = Inr ((resp, err), s1, gs1, w1) \<longrightarrow>
      Height s1 = max (Height s) ?h \<and> same_data (view w) (view w1))"
    for x :: "(Response reply \<times> 'b Server \<times> State \<times> _) go"
  have "Q (Inr ((resp, err), s1, gs1, w1))"
  proof (rule propose_loop_rule [OF assms, where I = I and Q = Q])
    show "I s gs w" by (simp add: I_def)
    fix s' gs' w'
    assume inv: "I s' gs' w'"
    show "case propose_once g pid f ctx ct req s' gs' w' of Inl p \<Rightarrow> Q (Inl p)
      | Inr ((resp, err), s1, gs1, w1) \<Rightarrow>
          if propose_again resp then I s1 gs1 w1 else Q (Inr ((resp, err), s1, gs1, w1))"
    proof (cases "propose_once g pid f ctx ct req s' gs' w'")
      case (Inr x)
      obtain resp err s2 gs2 w2 where x: "x = ((resp, err), s2, gs2, w2)" by (metis prod.collapse)
      from propose_once_height [OF Inr [unfolded x]] inv show ?thesis
        by (auto simp: Inr x I_def Q_def max_def same_data_def)
    qed (simp add: Q_def)
  qed
  then show ?thesis by (simp add: Q_def)
qed

lemma propose_phase_height:
  assumes "propose_phase g ct req pid fs ctx s gs w = Some (Inr (None, s1, gs1, ctx1, w1))"
  shows "Height s1 = Max (insert (Height s) ((\<lambda>f. Height (view w (Connection f))) ` set fs)) \<and> same_data (view w) (view w1)"
  using assms
proof (induction fs arbitrary: pid ctx s gs w)
  case (Cons f fs)
  then obtain resp err s2 gs2 w2 s3 gs3 where
    l: "propose_loop g pid f (put_context s ctx) ct req s gs w = Some (Inr ((resp, err), s2, gs2, w2))"
    and p: "propose_reply pid req resp err s2 gs2 = Inr (None, s3, gs3)"
    and rest: "propose_phase g ct req (Suc pid) fs (put_context s ctx) s3 gs3 w2 = Some (Inr (None, s1, gs1, ctx1, w1))"
    by (auto split: option.splits sum.splits)
  have s3: "Height s3 = Height s2" using p
    by (auto simp: propose_reply_def Let_def elim!: gbind_InrE split: option.splits if_splits
        dest!: mon_monitor_only(2) kept_monitor_only)
  from Cons.IH [OF rest] propose_loop_height [OF l] s3 show ?case by (simp add: Max_insert_max same_data_def)
qed simp

lemma Put_height:
  assumes "Put g dbi s ctx req w = Some (Inr ((Some ack, None), s', w'))"
  shows "Height s' = Max (insert (Height s) ((\<lambda>f. Height (view w (Connection f))) ` set (Followers s))) + 1"
proof -
  obtain s1 gs where st: "put_start s = Inr (s1, gs)" using assms by (auto simp: Put_def split: sum.splits)
  have s1: "Followers s1 = Followers s" "Height s1 = Height s"
    using kept_monitor_only [OF put_start_monitor_only [OF st]] by (auto simp: kept_def)
  obtain ret s2 gs2 ctx2 w2 where
    p: "propose_phase g (put_ctype s) req 0 (Followers s1) ctx s1 gs w = Some (Inr (ret, s2, gs2, ctx2, w2))"
    using assms st by (auto simp: Put_def split: option.splits sum.splits)
  have "ret = None"
  proof (cases ret)
    case (Some reply)
    then show ?thesis using assms st p propose_phase_not_ack [OF p [unfolded Some]] by (simp add: Put_def)
  qed
  then have "put_decide g dbi s2 gs2 ctx2 w2 = Inr ((Some ack, None), s', w')" using assms st p by (simp add: Put_def)
  from put_decide_height [OF this] propose_phase_height [OF p [unfolded \<open>ret = None\<close>]] s1 show ?thesis by simp
qed

end

text \<open>
  C20. Heights. From a state in which no node has cached anything above the coordinator's height and
  with followers at different addresses, an acknowledged \<^verbatim>\<open>Put\<close> raises the height of each follower
  by one and leaves the height of every other node. The coordinator ends one above the largest of
  its own height and its followers' heights at the start, whatever messages were lost in between.
\<close>

theorem Put_heights:
  assumes "replicated g dbi view" and "Followers s \<noteq> []" and "no_future (Height s) (view w)"
    and "distinct (map Connection (Followers s))"
    and "Put g dbi s ctx req w = Some (Inr ((Some ack, None), s', w'))"
  shows "(\<forall>a. Height (view w' a) = Height (view w a) + (if a \<in> Connection ` set (Followers s) then 1 else 0)) \<and>
    Height s' = Max (insert (Height s) ((\<lambda>f. Height (view w (Connection f))) ` set (Followers s))) + 1"
proof -
  have "network g dbi view" using assms(1) by (simp add: replicated_def)
  from network.Put_height [OF this assms(5)] replicated.Put_result [OF assms(1,5,2,3)] assms(4)
  show ?thesis by (simp add: put_result_def)
qed

theorem Put_heights_witness:
  "\<exists>s' w'. Put (cluster_grpc mem_dbi) mem_dbi (example_server ''coordinator'' TWO_PHASE [''a'', ''b''])
     Background example_entry (example_world TWO_PHASE []) = Some (Inr ((Some ack, None), s', w')) \<and>
   Height (nodes w' ''a'') = Height (nodes (example_world TWO_PHASE []) ''a'') + 1 \<and> Height s' = 1"
proof -
  let ?s = "example_server ''coordinator'' TWO_PHASE [''a'', ''b'']" and ?w = "example_world TWO_PHASE []"
  obtain s' w' where p: "Put (cluster_grpc mem_dbi) mem_dbi ?s Background example_entry ?w =
      Some (Inr ((Some ack, None), s', w'))" using example_acknowledged by blast
  have f: "Followers ?s \<noteq> []" "distinct (map Connection (Followers ?s))" "''a'' \<in> Connection ` set (Followers ?s)"
    by (simp_all add: example_coordinator)
  have "Height ?s = 0" "Height (nodes ?w ''a'') = 0" "Height (nodes ?w ''b'') = 0" by code_simp+
  with Put_heights [OF mem_cluster.replicated_axioms f(1) example_no_future f(2) p] p f(3)
  show ?thesis by (auto simp: example_coordinator)
qed

text \<open>
  C7. Liveness of the protocol: when no message is lost, the coordinator has two followers, their
  hooks accept the value, no follower is ahead of the coordinator and the databases take the
  value, \<^verbatim>\<open>Put\<close> returns an acknowledgement and raises the coordinator's height by one.
\<close>

theorem Put_acknowledges:
  assumes "reliable g dbi view up inc" and "length (Followers s) = 2" and "mon_ok (monitor s)"
    and "ctx_outgoing ctx = None" and "takes dbi (eKey req, eValue req)"
    and "\<And>f. f \<in> set (Followers s) \<Longrightarrow> up w (Connection f) \<and> willing (view w (Connection f)) \<and>
      Height (view w (Connection f)) \<le> Height s"
  shows "\<exists>s' w'. Put g dbi s ctx req w = Some (Inr ((Some ack, None), s', w')) \<and> Height s' = Height s + 1"
  using reliable.Put_able [OF assms(1,2,3,4,6,5)] by blast

theorem Put_acknowledges_witness:
  "\<exists>s' w'. Put (cluster_grpc mem_dbi) mem_dbi (example_server ''coordinator'' TWO_PHASE [''a'', ''b''])
     Background example_entry (example_world TWO_PHASE []) = Some (Inr ((Some ack, None), s', w')) \<and>
     Height s' = Height (example_server ''coordinator'' TWO_PHASE [''a'', ''b'']) + 1"
  by (rule Put_acknowledges [OF mem_reliable.reliable_axioms])
    (use example_ready in \<open>simp_all add: example_takes example_coordinator Background_def\<close>)

text \<open>
  C21. With any number of followers other than two (and none), \<^verbatim>\<open>Put\<close> ends the coordinator exactly
  where it would acknowledge: the monitor is compiled for the two participants \<open>r1\<close> and \<open>r2\<close>. When
  no message is lost, the followers accept the value, none of them is ahead and the databases take
  the value, the call panics; and no call, whatever the network does, is ever acknowledged. The
  README's example runs one follower, the tests five.
\<close>

theorem Put_other_followers_panic:
  assumes "reliable g dbi view up inc" and "length (Followers s) \<notin> {0, 2}" and "mon_ok (monitor s)"
    and "ctx_outgoing ctx = None" and "takes dbi (eKey req, eValue req)"
    and "\<And>f. f \<in> set (Followers s) \<Longrightarrow> up w (Connection f) \<and> willing (view w (Connection f)) \<and>
      Height (view w (Connection f)) \<le> Height s"
  shows "(\<exists>p. Put g dbi s ctx req w = Some (Inl p)) \<and>
    (\<forall>ctx' req' w' s1 w1. Put g dbi s ctx' req' w' \<noteq> Some (Inr ((Some ack, None), s1, w1)))"
proof -
  have never: "Put g dbi s ctx' req' w' \<noteq> Some (Inr ((Some ack, None), s1, w1))" for ctx' req' w' s1 w1
    using put_status [OF assms(3), of g dbi ctx' req' w'] assms(2) by fastforce
  have "Followers s \<noteq> []" using assms(2) by auto
  then have "\<exists>r. Put g dbi s ctx req w = Some r \<and> (\<forall>reply s' w'. r = Inr (reply, s', w') \<longrightarrow>
      reply = (Some ack, None) \<and> Height s' = Height s + 1 \<and>
      (\<forall>f\<in>set (Followers s). up w' (Connection f) \<and> willing (view w' (Connection f))))"
    by (rule reliable.Put_ready [OF assms(1) _ assms(3,4,6,5)])
  then obtain r where r: "Put g dbi s ctx req w = Some r" "\<And>reply s' w'. r = Inr (reply, s', w') \<Longrightarrow> reply = (Some ack, None)"
    by (elim exE conjE) (simp only: prod.inject)
  have "\<exists>p. r = Inl p"
  proof (cases r)
    case (Inr x)
    then obtain reply s' w' where x: "r = Inr (reply, s', w')" by (cases x) auto
    with r(1) never r(2) [OF x] show ?thesis by simp
  qed simp
  with r(1) never show ?thesis by blast
qed

theorem Put_other_followers_panic_witness:
  "\<exists>p. Put (cluster_grpc mem_dbi) mem_dbi (example_server ''coordinator'' TWO_PHASE [''a''])
     Background example_entry (example_world TWO_PHASE []) = Some (Inl p)"
proof -
  let ?s = "example_server ''coordinator'' TWO_PHASE [''a'']"
  have s: "Followers ?s = [\<lparr>Connection = ''a'', client_traced = False\<rparr>]" "mon_ok (monitor ?s)"
    "Height ?s = Height (example_server ''coordinator'' TWO_PHASE [''a'', ''b''])" by code_simp+
  have len: "length (Followers ?s) \<notin> {0, 2}" "ctx_outgoing Background = None" by (simp_all add: s(1) Background_def)
  have "cluster_up (example_world TWO_PHASE []) (Connection f) \<and> willing (nodes (example_world TWO_PHASE []) (Connection f)) \<and>
      Height (nodes (example_world TWO_PHASE []) (Connection f)) \<le> Height ?s" if "f \<in> set (Followers ?s)" for f
  proof -
    have "f \<in> set (Followers (example_server ''coordinator'' TWO_PHASE [''a'', ''b'']))"
      using that by (simp only: s(1) example_coordinator(1) list.set insert_iff) blast
    from example_ready [OF this] show ?thesis unfolding s(3) .
  qed
  from Put_other_followers_panic [OF mem_reliable.reliable_axioms len(1) s(2) len(2) example_takes this]
  show ?thesis by (rule conjunct1)
qed

end
