(* ===== verification/Divergence.thy ===== *)
theory Divergence
  imports Reliable
begin

text \<open>
  Runs of the program that are not atomic, evaluated on the cluster of two followers. They show
  that the hypothesis of the replication theorem, that no follower has cached anything above
  the coordinator's height, is needed, and what a call leaves that is not acknowledged. The general
  statements behind them are in \<open>Stale_Heights\<close>.
\<close>

definition run_put ::
    "(string, bytes) gomap Server \<Rightarrow> (string, bytes) gomap world \<Rightarrow> Entry \<Rightarrow>
       (Response reply \<times> (string, bytes) gomap Server \<times> (string, bytes) gomap world) option" where
  "run_put s w req =
     (case example_put s w req of Some (Inr x) \<Rightarrow> Some x | _ \<Rightarrow> None)"

text \<open>The value of a key on the coordinator and on the two followers.\<close>

definition values_of :: "string \<Rightarrow> (string, bytes) gomap Server \<Rightarrow> (string, bytes) gomap world \<Rightarrow> bytes option list" where
  "values_of k s w =
     map (\<lambda>x. case DB_Get mem_dbi k (DB x) of Inl _ \<Rightarrow> None | Inr v \<Rightarrow> Some v)
       [s, nodes w ''a'', nodes w ''b'']"

definition behind_world :: "(string, bytes) gomap world" where
  "behind_world =
     (let w = example_world TWO_PHASE []
      in w\<lparr>members := gm_update ''b'' ((nodes w ''b'')\<lparr>Height := 1\<rparr>) (members w)\<rparr>)"

text \<open>
  A follower that is ahead of the coordinator makes \<^verbatim>\<open>Put\<close> fail half way. The first follower
  has cached the value at the old height when the second one raises it; at the commit the first
  one finds nothing. The client gets a refusal, the coordinator's database keeps the value, and
  no follower has it.
\<close>

lemma stale_height_example:
  "map_option (\<lambda>(reply, s, w). (reply, values_of ''key1'' s w))
     (run_put (example_server ''coordinator'' TWO_PHASE [''a'', ''b'']) behind_world example_entry) =
   Some ((Some nack, None), [Some [118, 49], None, None])"
  by code_simp

end
