(* ===== verification/Register.thy ===== *)
theory Register
  imports Reliable
begin

text \<open>
  The contract of the cluster: it implements one map from keys to values. While the coordinator
  and the followers agree on their contents, an acknowledged \<^verbatim>\<open>Put\<close> is one update of that map on
  all of them, and a \<^verbatim>\<open>Get\<close> at any node reads it.
\<close>

section \<open>The specification\<close>

type_synonym register = "string \<Rightarrow> error + bytes"

definition register_put :: "Entry \<Rightarrow> register \<Rightarrow> register" where
  "register_put e m = m(eKey e := Inr (eValue e))"

definition register_get :: "string \<Rightarrow> register \<Rightarrow> Value reply" where
  "register_get k m = (case m k of Inl e \<Rightarrow> (None, Some e) | Inr v \<Rightarrow> (Some \<lparr>vValue = v\<rparr>, None))"

text \<open>The coordinator and its followers all hold the map \<open>m\<close>.\<close>

definition in_sync ::
    "'d Database \<Rightarrow> ('w \<Rightarrow> conn \<Rightarrow> 'd Server) \<Rightarrow> 'd Server \<Rightarrow> 'w \<Rightarrow> register \<Rightarrow> bool" where
  "in_sync dbi view s w m \<longleftrightarrow>
     (\<forall>k. DB_Get dbi k (DB s) = m k) \<and>
     (\<forall>f\<in>set (Followers s). \<forall>k. DB_Get dbi k (DB (view w (Connection f))) = m k)"

section \<open>Refinement\<close>

lemma put_result_in_sync:
  assumes "put_result dbi view (eKey req, eValue req) s w ((Some ack, None), s', w')" and "in_sync dbi view s w m"
  shows "in_sync dbi view s' w' (register_put req m)"
proof -
  have own: "DB_Get dbi k (DB s') = register_put req m k" for k
    using assms by (auto simp: put_result_def touches_def holds_def in_sync_def register_put_def)
  have "DB_Get dbi k (DB (view w' (Connection f))) = register_put req m k" if "f \<in> set (Followers s)" for f k
  proof (cases "k = eKey req")
    case True
    then show ?thesis using assms(1) that by (auto simp: put_result_def holds_def register_put_def)
  next
    case False
    then have "DB_Get dbi k (DB (view w' (Connection f))) = DB_Get dbi k (DB (view w (Connection f)))"
      using assms(1) by (auto simp: put_result_def touches_def)
    then show ?thesis using assms(2) that False by (simp add: in_sync_def register_put_def)
  qed
  then show ?thesis using own assms(1) by (auto simp: in_sync_def put_result_def)
qed

text \<open>Acknowledged calls one after the other, with their requests.\<close>

inductive acked_puts ::
    "'w grpc \<Rightarrow> 'd Database \<Rightarrow> 'd Server \<Rightarrow> 'w \<Rightarrow> Entry list \<Rightarrow> 'd Server \<Rightarrow> 'w \<Rightarrow> bool"
  for g dbi s w where
  none_yet: "acked_puts g dbi s w [] s w"
| one_acked: "acked_puts g dbi s w reqs s1 w1 \<Longrightarrow>
    Put g dbi s1 ctx req w1 = Some (Inr ((Some ack, None), s2, w2)) \<Longrightarrow> Height s2 \<noteq> 0 \<Longrightarrow>
    acked_puts g dbi s w (reqs @ [req]) s2 w2"

text \<open>
  C2. The cluster refines a map: from a state in which the coordinator and its followers agree on
  a map, any sequence of acknowledged calls of \<^verbatim>\<open>Put\<close> leaves them agreeing on that map with the
  requests applied in their order, also over a network that loses messages; reading at the
  coordinator or at any follower is reading that map.
\<close>

theorem cluster_refines_register:
  assumes "replicated g dbi view" and "acked_puts g dbi s w reqs s' w'" and "Followers s \<noteq> []"
    and "no_future (Height s) (view w)" and "in_sync dbi view s w m"
  shows "in_sync dbi view s' w' (fold register_put reqs m) \<and>
    Get dbi s' ctx \<lparr>mKey = k\<rparr> = register_get k (fold register_put reqs m) \<and>
    (\<forall>f\<in>set (Followers s). Get dbi (view w' (Connection f)) ctx \<lparr>mKey = k\<rparr> = register_get k (fold register_put reqs m))"
proof -
  have "in_sync dbi view s' w' (fold register_put reqs m) \<and> no_future (Height s') (view w') \<and> Followers s' = Followers s"
    using assms(2)
  proof induction
    case (one_acked reqs s1 w1 ctx req s2 w2)
    have "put_result dbi view (eKey req, eValue req) s1 w1 ((Some ack, None), s2, w2)"
      using replicated.Put_result [OF assms(1) one_acked.hyps(2)] one_acked.IH assms(3) by simp
    from put_result_in_sync [OF this] one_acked.IH
    have "in_sync dbi view s2 w2 (fold register_put (reqs @ [req]) m)" by simp
    then show ?case using Put_keeps_no_future [OF assms(1) one_acked.hyps(2)] one_acked assms(3) by simp
  qed (simp add: assms)
  then show ?thesis by (simp add: in_sync_def Get_def register_get_def)
qed

theorem cluster_refines_register_witness:
  "\<exists>s' w'. acked_puts (cluster_grpc mem_dbi) mem_dbi (example_server ''coordinator'' TWO_PHASE [''a'', ''b''])
     (example_world TWO_PHASE []) [example_entry] s' w' \<and>
   Get mem_dbi (nodes w' ''b'') Background \<lparr>mKey = ''key1''\<rparr> = (Some \<lparr>vValue = [118, 49]\<rparr>, None)"
proof -
  let ?s = "example_server ''coordinator'' TWO_PHASE [''a'', ''b'']" and ?w = "example_world TWO_PHASE []"
  let ?m = "\<lambda>k. DB_Get mem_dbi k gm_empty"
  obtain s' w' where p: "Put (cluster_grpc mem_dbi) mem_dbi ?s Background example_entry ?w =
      Some (Inr ((Some ack, None), s', w'))" "Height s' = Height ?s + 1" using example_acknowledged by blast
  have f: "Followers ?s \<noteq> []" "\<lparr>Connection = ''b'', client_traced = False\<rparr> \<in> set (Followers ?s)"
    by (simp_all add: example_coordinator)
  have d: "DB ?s = gm_empty" "DB (example_server ''follower'' TWO_PHASE [''c'']) = gm_empty" "Height ?s = 0" by code_simp+
  have h: "Height s' \<noteq> 0" using p(2) d(3) by simp
  have a: "acked_puts (cluster_grpc mem_dbi) mem_dbi ?s ?w ([] @ [example_entry]) s' w'"
    using acked_puts.none_yet p(1) h by (rule acked_puts.one_acked)
  have "in_sync mem_dbi nodes ?s ?w ?m" using d(1,2) by (simp add: in_sync_def example_nodes)
  from cluster_refines_register [OF mem_cluster.replicated_axioms a f(1) example_no_future this, of Background "''key1''"]
  have "\<forall>f\<in>set (Followers ?s). Get mem_dbi (nodes w' (Connection f)) Background \<lparr>mKey = ''key1''\<rparr> =
      register_get ''key1'' (fold register_put [example_entry] ?m)" by simp
  from bspec [OF this f(2)] have "Get mem_dbi (nodes w' ''b'') Background \<lparr>mKey = ''key1''\<rparr> =
      (Some \<lparr>vValue = [118, 49]\<rparr>, None)" by (simp add: register_get_def register_put_def example_entry_def)
  then show ?thesis using a by auto
qed

end
