(* ===== verification/Strconv.thy ===== *)
theory Strconv
  imports Prelude
begin

text \<open>
  The parts of the standard library's \<^verbatim>\<open>strconv\<close> that the program calls: \<^verbatim>\<open>Atoi\<close> in the example
  client, and \<^verbatim>\<open>ParseUint\<close> with base zero and \<^verbatim>\<open>ParseBool\<close> through the \<^verbatim>\<open>flag\<close> package.
\<close>

section \<open>Digits\<close>

datatype uint_result = SyntaxError | RangeError | Uint nat

text \<open>\<^verbatim>\<open>lower(c) = c | 0x20\<close>, on the codes of the characters\<close>

definition lower :: "char \<Rightarrow> nat" where
  "lower c = (let n = (of_char c :: nat) in if odd (n div 32) then n else n + 32)"

text \<open>The value of a digit in any base up to 36, \<open>None\<close> for another character.\<close>

definition digit_of :: "char \<Rightarrow> nat option" where
  "digit_of c =
     (if is_digit c then Some (digit_val c)
      else if 97 \<le> lower c \<and> lower c \<le> 122 then Some (lower c - 97 + 10)
      else None)"

text \<open>
  The loop of \<^verbatim>\<open>ParseUint\<close> for 64 bits. With \<open>base0\<close>, where the base was read off the prefix,
  underscores are skipped; \<open>underscore_ok\<close> judges them afterwards.
\<close>

fun parse_digits :: "bool \<Rightarrow> nat \<Rightarrow> nat \<Rightarrow> string \<Rightarrow> uint_result" where
  "parse_digits base0 base n [] = Uint n"
| "parse_digits base0 base n (c # cs) =
     (if c = CHR ''_'' \<and> base0 then parse_digits base0 base n cs
      else case digit_of c of
          None \<Rightarrow> SyntaxError
        | Some d \<Rightarrow>
            if d \<ge> base then SyntaxError
            else if n \<ge> (2 ^ 64 - 1) div base + 1 then RangeError
            else if n * base + d \<ge> 2 ^ 64 then RangeError
            else parse_digits base0 base (n * base + d) cs)"

section \<open>\<^verbatim>\<open>Atoi\<close>\<close>

text \<open>The integer that \<^verbatim>\<open>Atoi\<close> returns beside its error.\<close>

definition atoi :: "string \<Rightarrow> go_int" where
  "atoi s =
     (let neg = (take 1 s = ''-'');
          ds = (if take 1 s = ''-'' \<or> take 1 s = ''+'' then drop 1 s else s)
      in if ds = [] then 0
         else case parse_digits False 10 0 ds of
             SyntaxError \<Rightarrow> 0
           | RangeError \<Rightarrow> if neg then - (2 ^ 63) else 2 ^ 63 - 1
           | Uint un \<Rightarrow>
               if \<not> neg \<and> un \<ge> 2 ^ 63 then 2 ^ 63 - 1
               else if neg \<and> un > 2 ^ 63 then - (2 ^ 63)
               else if neg then - of_nat un else of_nat un)"

section \<open>\<^verbatim>\<open>ParseUint(s, 0, 64)\<close>\<close>

text \<open>What \<^verbatim>\<open>underscoreOK\<close> has seen last: nothing, a digit, an underscore, another character.\<close>

datatype seen = SawStart | SawDigit | SawUnderscore | SawOther

fun underscore_loop :: "bool \<Rightarrow> seen \<Rightarrow> string \<Rightarrow> bool" where
  "underscore_loop hex saw [] \<longleftrightarrow> saw \<noteq> SawUnderscore"
| "underscore_loop hex saw (c # cs) \<longleftrightarrow>
     (if is_digit c \<or> hex \<and> 97 \<le> lower c \<and> lower c \<le> 102 then underscore_loop hex SawDigit cs
      else if c = CHR ''_'' then saw = SawDigit \<and> underscore_loop hex SawUnderscore cs
      else saw \<noteq> SawUnderscore \<and> underscore_loop hex SawOther cs)"

definition prefixed :: "string \<Rightarrow> bool" where
  "prefixed s \<longleftrightarrow> length s \<ge> 2 \<and> hd s = CHR ''0'' \<and> lower (s ! 1) \<in> {98, 111, 120}"

definition underscore_ok :: "string \<Rightarrow> bool" where
  "underscore_ok s =
     (let s' = (if take 1 s = ''-'' \<or> take 1 s = ''+'' then drop 1 s else s)
      in if prefixed s' then underscore_loop (lower (s' ! 1) = 120) SawDigit (drop 2 s')
         else underscore_loop False SawStart s')"

definition parse_uint0 :: "string \<Rightarrow> uint_result" where
  "parse_uint0 s =
     (if s = [] then SyntaxError
      else let (base, ds) =
          (if hd s \<noteq> CHR ''0'' then (10, s)
           else if length s \<ge> 3 \<and> lower (s ! 1) = 98 then (2, drop 2 s)
           else if length s \<ge> 3 \<and> lower (s ! 1) = 111 then (8, drop 2 s)
           else if length s \<ge> 3 \<and> lower (s ! 1) = 120 then (16, drop 2 s)
           else (8, drop 1 s))
        in case parse_digits True base 0 ds of
             Uint n \<Rightarrow> if CHR ''_'' \<in> set ds \<and> \<not> underscore_ok s then SyntaxError else Uint n
           | r \<Rightarrow> r)"

section \<open>\<^verbatim>\<open>ParseBool\<close>\<close>

definition parse_bool :: "string \<Rightarrow> bool option" where
  "parse_bool s =
     (if s \<in> {''1'', ''t'', ''T'', ''true'', ''TRUE'', ''True''} then Some True
      else if s \<in> {''0'', ''f'', ''F'', ''false'', ''FALSE'', ''False''} then Some False
      else None)"

section \<open>Reading what was printed\<close>

lemma digit_val_less: "is_digit c \<Longrightarrow> digit_val c < 10"
  by (auto simp: is_digit_def digit_val_def)

lemma parse_digits_eq:
  assumes "\<forall>c\<in>set cs. is_digit c" and "foldl (\<lambda>n c. 10 * n + digit_val c) n cs < 2 ^ 64"
  shows "parse_digits base0 10 n cs = Uint (foldl (\<lambda>n c. 10 * n + digit_val c) n cs)"
  using assms
proof (induction cs arbitrary: n)
  case (Cons c cs)
  have mono: "m \<le> foldl (\<lambda>n c. 10 * n + digit_val c) m xs" for m xs
  proof (induction xs arbitrary: m)
    case (Cons x xs)
    have "10 * m + digit_val x \<le> foldl (\<lambda>n c. 10 * n + digit_val c) (10 * m + digit_val x) xs" by (rule Cons.IH)
    then show ?case by simp
  qed simp
  have "10 * n + digit_val c < 2 ^ 64" using mono [of "10 * n + digit_val c" cs] Cons.prems(2) by simp
  moreover have "c \<noteq> CHR ''_''" "digit_of c = Some (digit_val c)" "digit_val c < 10"
    using Cons.prems(1) digit_val_less by (auto simp: is_digit_def digit_of_def)
  ultimately show ?case using Cons by (simp add: mult.commute)
qed simp

lemma parse_digits_nat_digits:
  "n < 2 ^ 64 \<Longrightarrow> parse_digits base0 10 0 (nat_digits n) = Uint n"
  using parse_digits_eq [OF nat_digits_are_digits, of 0 n] digits_nat_nat_digits [of n]
  by (simp add: digits_nat_def)

lemma atoi_itoa:
  assumes "n < 2 ^ 63"
  shows "atoi (itoa (int n)) = of_nat n"
proof -
  let ?d = "nat_digits n"
  have d: "take 1 ?d \<noteq> ''-''" "take 1 ?d \<noteq> ''+''"
    using nat_digits_are_digits [of n] by (cases ?d; auto simp: is_digit_def)+
  then show ?thesis using assms by (simp add: atoi_def itoa_of_nat parse_digits_nat_digits)
qed

lemma sint_of_nat_small: "n < 2 ^ 63 \<Longrightarrow> sint (of_nat n :: go_int) = int n"
  by (simp add: signed_of_nat signed_take_bit_int_eq_self)

lemma hd_nat_digits: "0 < n \<Longrightarrow> hd (nat_digits n) \<noteq> CHR ''0''"
proof (induction n rule: nat_digits.induct)
  case (1 n)
  show ?case
  proof (cases "n < 10")
    case True
    have "digit_char n \<noteq> digit_char 0" using digit_val_char [of n] digit_val_char [of 0] True 1(2) by (metis neq0_conv zero_less_numeral)
    moreover have "digit_char 0 = CHR ''0''" by code_simp
    ultimately show ?thesis using True by (simp add: nat_digits.simps [of n])
  next
    case False
    then show ?thesis using 1 by (simp add: nat_digits.simps [of n])
  qed
qed

lemma parse_uint0_nat_digits:
  assumes "n < 2 ^ 64"
  shows "parse_uint0 (nat_digits n) = Uint n"
proof (cases "n = 0")
  case True
  have "nat_digits 0 = ''0''" by code_simp
  with True show ?thesis by (simp add: parse_uint0_def)
next
  case False
  have "CHR ''_'' \<notin> set (nat_digits n)" using nat_digits_are_digits [of n] by (auto simp: is_digit_def)
  then show ?thesis using False assms hd_nat_digits [of n] by (simp add: parse_uint0_def parse_digits_nat_digits)
qed

end
