(* ===== verification/Client.thy ===== *)
theory Client
  imports Register Strconv
begin

text \<open>
  The tracer (\<^verbatim>\<open>trace/trace.go\<close>) and the example client (\<^verbatim>\<open>examples/client/client.go\<close>), which sends
  the number of requests given in the environment to the coordinator, one after the other, and
  panics at the first failure. The environment is an argument;
  the Zipkin calls and \<^verbatim>\<open>grpc.Dial\<close> are parameters.

  The second half runs the client against a coordinator with two followers. The coordinator is
  reached through its generated handler behind the whitelist.
\<close>

text \<open>\<^verbatim>\<open>[]byte(s)\<close>\<close>

definition bytes_of :: "string \<Rightarrow> bytes" where
  "bytes_of s = map of_char s"

section \<open>The tracer\<close>

definition trace_Tracer ::
    "(string \<Rightarrow> string \<Rightarrow> error + 'e) \<Rightarrow> ('e \<Rightarrow> error + 't) \<Rightarrow> string \<Rightarrow> string \<Rightarrow> error + 't" where
  "trace_Tracer NewEndpoint NewTracer serviceName hostPort =
     (case NewEndpoint serviceName hostPort of
        Inl err \<Rightarrow> Inl (WrappedError ''unable to create local endpoint'' err)
      | Inr endpoint \<Rightarrow>
          (case NewTracer endpoint of
             Inl err \<Rightarrow> Inl (WrappedError ''unable to create tracer'' err)
           | Inr tracer \<Rightarrow> Inr tracer))"

section \<open>The client\<close>

datatype process_end = Returned | PanickedError error | PanickedText string

definition client_addr :: string where
  "client_addr = ''localhost:3000''"

definition client_entry :: "nat \<Rightarrow> Entry" where
  "client_entry i = \<lparr>eKey = ''key'' @ itoa (int i), eValue = bytes_of (''req'' @ itoa (int i))\<rparr>"

text \<open>The loop from \<open>i\<close> on, with \<open>n\<close> requests to go. \<^verbatim>\<open>resp\<close> is nil only with an error.\<close>

fun client_loop :: "'w grpc \<Rightarrow> CommitClient \<Rightarrow> nat \<Rightarrow> nat \<Rightarrow> 'w \<Rightarrow> process_end go \<times> 'w" where
  "client_loop g cli i 0 w = (Inr Returned, w)"
| "client_loop g cli i (Suc n) w =
     (case peer_Put g cli Background (eKey (client_entry i)) (eValue (client_entry i)) w of
        ((_, Some err), w') \<Rightarrow> (Inr (PanickedError err), w')
      | ((None, None), w') \<Rightarrow> (Inl NilDereference, w')
      | ((Some resp, None), w') \<Rightarrow>
          if rType resp \<noteq> ACK then (Inr (PanickedText ''msg is not acknowledged''), w')
          else client_loop g cli (Suc i) n w')"

definition client_main ::
    "(string \<Rightarrow> string \<Rightarrow> error + 'e) \<Rightarrow> ('e \<Rightarrow> error + 't) \<Rightarrow> (string \<Rightarrow> bool \<Rightarrow> error + conn) \<Rightarrow>
       (string \<Rightarrow> string option) \<Rightarrow> 'w grpc \<Rightarrow> 'w \<Rightarrow> process_end go \<times> 'w" where
  "client_main NewEndpoint NewTracer dial env g w =
     (case trace_Tracer NewEndpoint NewTracer ''client'' client_addr of
        Inl err \<Rightarrow> (Inr (PanickedError err), w)
      | Inr tracer \<Rightarrow>
          (case peer_New dial client_addr True of
             Inl err \<Rightarrow> (Inr (PanickedError err), w)
           | Inr cli \<Rightarrow>
               (let reqs = (case env ''REQUESTS'' of None \<Rightarrow> [] | Some v \<Rightarrow> v);
                    requests = atoi reqs
                in client_loop g cli 0 (nat (sint requests)) w)))"

section \<open>A service for the client\<close>

text \<open>
  What the client relies on: while the service is \<open>ready\<close> for at least one more request and the
  request is acceptable, it acknowledges it, applies it to its map \<open>m\<close> and stays ready for the
  rest.
\<close>

locale put_service =
  fixes g :: "'w grpc" and cli :: CommitClient and ready :: "nat \<Rightarrow> register \<Rightarrow> 'w \<Rightarrow> bool"
    and acceptable :: "Entry \<Rightarrow> bool"
  assumes put_served: "ready (Suc n) m w \<Longrightarrow> acceptable e \<Longrightarrow>
    \<exists>w'. peer_Put g cli Background (eKey e) (eValue e) w = ((Some ack, None), w') \<and> ready n (register_put e m) w'"
begin

lemma client_loop_served:
  assumes "ready n m w" and "\<And>j. acceptable (client_entry j)"
  shows "\<exists>w'. client_loop g cli i n w = (Inr Returned, w') \<and>
    ready 0 (fold register_put (map client_entry [i..<i + n]) m) w'"
  using assms(1)
proof (induction n arbitrary: i m w)
  case (Suc n)
  from put_served [OF Suc.prems assms(2)] obtain w1 where
    w1: "peer_Put g cli Background (eKey (client_entry i)) (eValue (client_entry i)) w = ((Some ack, None), w1)"
      "ready n (register_put (client_entry i) m) w1" by blast
  have "[i..<i + Suc n] = i # [Suc i..<Suc i + n]" by (simp add: upt_rec)
  with Suc.IH [OF w1(2), of "Suc i"] w1(1) show ?case by (simp add: ack_def)
qed simp

end

section \<open>The coordinator as a service\<close>

text \<open>
  A transport to the coordinator \<open>s\<close>: a call of \<^verbatim>\<open>Put\<close> runs the generated handler behind the
  whitelist. A call that panics ends the coordinator, and the caller sees the connection break;
  a call that does not return is reported in the same way.
\<close>

definition coordinator_Put ::
    "'w grpc \<Rightarrow> 'd Database \<Rightarrow> conn \<Rightarrow> Context \<Rightarrow> Entry \<Rightarrow> 'd Server \<times> 'w \<Rightarrow> (error + Response) \<times> 'd Server \<times> 'w" where
  "coordinator_Put g dbi cc ctx req sw =
     (case Commit_Put_Handler g dbi (incoming ctx) (Inr req) (Some WhiteListChecker) sw of
        Some (Inr (reply, sw')) \<Rightarrow> (rpc_reply reply, sw')
      | _ \<Rightarrow> (Inl unavailable, sw))"

definition coordinator_grpc :: "'w grpc \<Rightarrow> 'd Database \<Rightarrow> ('d Server \<times> 'w) grpc" where
  "coordinator_grpc g dbi =
     \<lparr>invoke_Propose = (\<lambda>cc ctx req sw. (Inl unavailable, sw)),
      invoke_Precommit = (\<lambda>cc ctx req sw. (Inl unavailable, sw)),
      invoke_Commit = (\<lambda>cc ctx req sw. (Inl unavailable, sw)),
      invoke_Put = coordinator_Put g dbi,
      invoke_Get = (\<lambda>cc ctx req sw. (Inl unavailable, sw)),
      invoke_NodeInfo = (\<lambda>cc ctx sw. (Inl unavailable, sw))\<rparr>"

text \<open>
  The coordinator can take \<open>n\<close> more requests: it has two followers, none of them down, unwilling
  or ahead, all nodes hold the map \<open>m\<close>, the client's host is whitelisted, and the height does not
  wrap around.
\<close>

definition cluster_ready ::
    "'d Database \<Rightarrow> ('w \<Rightarrow> conn \<Rightarrow> 'd Server) \<Rightarrow> ('w \<Rightarrow> conn \<Rightarrow> bool) \<Rightarrow> CommitClient list \<Rightarrow> nat \<Rightarrow> register \<Rightarrow> 'd Server \<times> 'w \<Rightarrow> bool" where
  "cluster_ready dbi view up fs n m sw = (case sw of (s, w) \<Rightarrow>
     Followers s = fs \<and> length (Followers s) = 2 \<and> distinct (map Connection (Followers s)) \<and> mon_ok (monitor s) \<and>
     ''127.0.0.1'' \<in> set (Whitelist (srv_Config s)) \<and>
     (\<forall>f\<in>set (Followers s). up w (Connection f) \<and> willing (view w (Connection f)) \<and>
        Height (view w (Connection f)) \<le> Height s) \<and>
     no_future (Height s) (view w) \<and> in_sync dbi view s w m \<and> unat (Height s) + n < 2 ^ 64)"

lemma unat_succ:
  assumes "unat (b :: uint64) + Suc n < 2 ^ 64"
  shows "unat (b + 1) = unat b + 1"
  using assms unat_add_lem [of b 1] by simp

lemma word_succ_le: "(a :: uint64) \<le> b \<Longrightarrow> unat b + Suc n < 2 ^ 64 \<Longrightarrow> a + 1 \<le> b + 1"
  using unat_succ [of b n] unat_succ [of a n] by (simp add: word_le_nat_alt)

context reliable
begin

lemma cluster_ready_put:
  assumes "cluster_ready dbi view up fs (Suc n) m (s, w)" and "takes dbi (eKey e, eValue e)" and "ctx_outgoing ctx = None"
  shows "\<exists>s' w'. Coordinator.Put g dbi s ctx e w = Some (Inr ((Some ack, None), s', w')) \<and>
    cluster_ready dbi view up fs n (register_put e m) (s', w')"
proof -
  have fs: "Followers s = fs" using assms(1) by (simp add: cluster_ready_def)
  have r: "length (Followers s) = 2" "distinct (map Connection (Followers s))" "mon_ok (monitor s)"
    "''127.0.0.1'' \<in> set (Whitelist (srv_Config s))" "no_future (Height s) (view w)" "in_sync dbi view s w m"
    "unat (Height s) + Suc n < 2 ^ 64" and
    f: "\<And>f. f \<in> set (Followers s) \<Longrightarrow> up w (Connection f) \<and> willing (view w (Connection f)) \<and>
      Height (view w (Connection f)) \<le> Height s"
    using assms(1) by (auto simp: cluster_ready_def)
  from Put_able [OF r(1,3) assms(3) f assms(2)] obtain s' w' where
    p: "Coordinator.Put g dbi s ctx e w = Some (Inr ((Some ack, None), s', w'))" "Height s' = Height s + 1"
      "\<forall>f\<in>set (Followers s). up w' (Connection f) \<and> willing (view w' (Connection f))" by blast
  have ne: "Followers s \<noteq> []" using r(1) by auto
  have res: "put_result dbi view (eKey e, eValue e) s w ((Some ack, None), s', w')"
    using Put_result [OF p(1) ne r(5)] .
  have set: "same_setup s s'" "mon_ok (monitor s')" using put_status [OF r(3) p(1)] r(1) by auto
  have h: "unat (Height s') = unat (Height s) + 1" using unat_succ [OF r(7)] p(2) by simp
  then have "Height s' \<noteq> 0" by auto
  then have "no_future (Height s') (view w')"
    using Put_keeps_no_future [OF replicated_axioms p(1) ne r(5)] by simp
  moreover have "Height (view w' (Connection x)) \<le> Height s'" if "x \<in> set (Followers s)" for x
    using res r(2) that f [OF that] word_succ_le [OF _ r(7)] p(2) by (auto simp: put_result_def)
  moreover have "in_sync dbi view s' w' (register_put e m)" using res r(6) by (rule put_result_in_sync)
  ultimately have "cluster_ready dbi view up fs n (register_put e m) (s', w')"
    using set r p(3) h fs by (auto simp: cluster_ready_def same_setup_def)
  then show ?thesis using p(1) by blast
qed

lemma cluster_ready_served:
  assumes "cluster_ready dbi view up fs (Suc n) m sw" and "takes dbi (eKey e, eValue e)"
  shows "\<exists>sw'. peer_Put (coordinator_grpc g dbi) cli Background (eKey e) (eValue e) sw = ((Some ack, None), sw') \<and>
    cluster_ready dbi view up fs n (register_put e m) sw'"
proof -
  obtain s w where sw: "sw = (s, w)" by (cases sw)
  have "ctx_outgoing (incoming Background) = None" by (simp add: incoming_def)
  from cluster_ready_put [OF assms(1) [unfolded sw] assms(2) this] obtain s' w' where
    p: "Coordinator.Put g dbi s (incoming Background) e w = Some (Inr ((Some ack, None), s', w'))"
      "cluster_ready dbi view up fs n (register_put e m) (s', w')" by blast
  have "whitelisted s (incoming Background)"
    using assms(1) incoming_whitelisted by (auto simp: cluster_ready_def sw)
  then have "Commit_Put_Handler g dbi (incoming Background) (Inr e) (Some WhiteListChecker) (s, w) =
      Some (Inr ((Some ack, None), s', w'))"
    using p(1) by (simp add: Commit_Put_Handler_def unary_handler_def WhiteListChecker_pass)
  then have "coordinator_Put g dbi (Connection cli) Background e (s, w) = (Inr ack, s', w')"
    by (simp add: coordinator_Put_def rpc_reply_def)
  then show ?thesis using p(2) by (cases e) (simp add: sw peer_defs coordinator_grpc_def)
qed

end

sublocale reliable < service: put_service "coordinator_grpc g dbi" cli "cluster_ready dbi view up fs"
    "\<lambda>e. takes dbi (eKey e, eValue e)" for cli fs
  by unfold_locales (rule cluster_ready_served)

context reliable
begin

lemma client_loop_ready:
  assumes "cluster_ready dbi view up fs n m sw" and "\<And>j. takes dbi (eKey (client_entry j), eValue (client_entry j))"
  shows "\<exists>sw'. client_loop (coordinator_grpc g dbi) cli i n sw = (Inr Returned, sw') \<and>
    cluster_ready dbi view up fs 0 (fold register_put (map client_entry [i..<i + n]) m) sw'"
  using service.client_loop_served [OF assms] .

end

section \<open>A whole run\<close>

lemma fold_register_put:
  assumes "i < n"
  shows "fold register_put (map client_entry [0..<n]) m (eKey (client_entry i)) = Inr (eValue (client_entry i))"
  using assms
proof (induction n)
  case (Suc n)
  then show ?case by (cases "i = n") (auto simp: register_put_def client_entry_def)
qed simp

lemma client_takes:
  assumes "\<And>k v. k \<noteq> [] \<Longrightarrow> takes dbi (k, v)"
  shows "takes dbi (eKey (client_entry j), eValue (client_entry j))"
  using assms by (simp add: client_entry_def)

text \<open>
  C5. From the client to the databases. Let the coordinator have two followers that are reachable,
  willing and not ahead, hold the same map on all nodes, and let no message be lost. The example
  client with \<open>n\<close> requests in its environment then runs to its end without a panic, and afterwards
  the coordinator and both followers hold, for every \<open>i\<close> below \<open>n\<close>, the value \<open>req i\<close> under the key
  \<open>key i\<close>, and their old values under all other keys.
\<close>

theorem client_run_replicated:
  assumes "reliable g dbi view up inc" and "cluster_ready dbi view up fs n m (s, w)"
    and "\<And>k v. k \<noteq> [] \<Longrightarrow> takes dbi (k, v)" and "n < 2 ^ 63" and "env ''REQUESTS'' = Some (itoa (int n))"
    and "trace_Tracer NewEndpoint NewTracer ''client'' client_addr = Inr tracer" and "dial client_addr True = Inr cc"
  shows "\<exists>s' w'. client_main NewEndpoint NewTracer dial env (coordinator_grpc g dbi) (s, w) = (Inr Returned, (s', w')) \<and>
    Followers s' = fs \<and> in_sync dbi view s' w' (fold register_put (map client_entry [0..<n]) m) \<and>
    (\<forall>i<n. DB_Get dbi (''key'' @ itoa (int i)) (DB s') = Inr (bytes_of (''req'' @ itoa (int i))) \<and>
       (\<forall>f\<in>set fs. DB_Get dbi (''key'' @ itoa (int i)) (DB (view w' (Connection f))) = Inr (bytes_of (''req'' @ itoa (int i)))))"
proof -
  obtain cli where cli: "peer_New dial client_addr True = Inr cli" using assms(7) by (simp add: peer_New_def)
  have num: "nat (sint (atoi (itoa (int n)))) = n" using assms(4) atoi_itoa sint_of_nat_small by simp
  from reliable.client_loop_ready [OF assms(1,2) client_takes [OF assms(3)], of cli 0]
  obtain s' w' where l: "client_loop (coordinator_grpc g dbi) cli 0 n (s, w) = (Inr Returned, (s', w'))"
    "cluster_ready dbi view up fs 0 (fold register_put (map client_entry [0..<n]) m) (s', w')" by auto
  have "client_main NewEndpoint NewTracer dial env (coordinator_grpc g dbi) (s, w) = (Inr Returned, (s', w'))"
    using l(1) num by (simp add: client_main_def assms(5,6) cli)
  moreover have sync: "Followers s' = fs" "in_sync dbi view s' w' (fold register_put (map client_entry [0..<n]) m)"
    using l(2) by (auto simp: cluster_ready_def)
  moreover have "fold register_put (map client_entry [0..<n]) m (''key'' @ itoa (int i)) = Inr (bytes_of (''req'' @ itoa (int i)))"
    if "i < n" for i using fold_register_put [OF that] by (simp add: client_entry_def)
  ultimately show ?thesis by (auto simp: in_sync_def)
qed

lemma mem_takes: "k \<noteq> [] \<Longrightarrow> takes mem_dbi (k, v)"
  by (simp add: takes_def mem_dbi_def BadgerDB_def BadgerDB_Put_def mem_badger_def)

lemma example_cluster_ready:
  "cluster_ready mem_dbi nodes cluster_up (Followers (example_server ''coordinator'' TWO_PHASE [''a'', ''b''])) 2
     (\<lambda>k. DB_Get mem_dbi k gm_empty) (example_server ''coordinator'' TWO_PHASE [''a'', ''b''], example_world TWO_PHASE [])"
proof -
  let ?s = "example_server ''coordinator'' TWO_PHASE [''a'', ''b'']"
  have "DB ?s = gm_empty" "DB (example_server ''follower'' TWO_PHASE [''c'']) = gm_empty" "Height ?s = 0"
    "''127.0.0.1'' \<in> set (Whitelist (srv_Config ?s))" by code_simp+
  moreover have "\<forall>f\<in>set (Followers ?s). cluster_up (example_world TWO_PHASE []) (Connection f) \<and>
      willing (nodes (example_world TWO_PHASE []) (Connection f)) \<and> Height (nodes (example_world TWO_PHASE []) (Connection f)) \<le> Height ?s"
    using example_ready by blast
  ultimately show ?thesis using example_no_future
    by (simp add: cluster_ready_def in_sync_def example_nodes example_coordinator)
qed

theorem client_run_replicated_witness:
  "\<exists>s' w'. client_main (\<lambda>_ _. Inr ()) (\<lambda>_. Inr ()) (\<lambda>a _. Inr a) (\<lambda>_. Some ''2'') (coordinator_grpc (cluster_grpc mem_dbi) mem_dbi)
     (example_server ''coordinator'' TWO_PHASE [''a'', ''b''], example_world TWO_PHASE []) = (Inr Returned, (s', w')) \<and>
   DB_Get mem_dbi ''key1'' (DB (nodes w' ''b'')) = Inr (bytes_of ''req1'')"
proof -
  let ?s = "example_server ''coordinator'' TWO_PHASE [''a'', ''b'']"
  have i: "itoa (int 2) = ''2''" "itoa (int 1) = ''1''" by code_simp+
  have t: "trace_Tracer (\<lambda>_ _. Inr ()) (\<lambda>_. Inr ()) ''client'' client_addr = Inr ()" by (simp add: trace_Tracer_def)
  have b: "\<lparr>Connection = ''b'', client_traced = False\<rparr> \<in> set (Followers ?s)" by (simp add: example_coordinator)
  from client_run_replicated [OF mem_reliable.reliable_axioms example_cluster_ready mem_takes _ _ t,
      of "\<lambda>_. Some ''2''" "\<lambda>a _. Inr a" client_addr]
  obtain s' w' where r: "client_main (\<lambda>_ _. Inr ()) (\<lambda>_. Inr ()) (\<lambda>a _. Inr a) (\<lambda>_. Some ''2'')
      (coordinator_grpc (cluster_grpc mem_dbi) mem_dbi) (?s, example_world TWO_PHASE []) = (Inr Returned, (s', w'))"
    "\<forall>i<2. \<forall>f\<in>set (Followers ?s). DB_Get mem_dbi (''key'' @ itoa (int i)) (DB (nodes w' (Connection f))) =
      Inr (bytes_of (''req'' @ itoa (int i)))" using i(1) by auto
  have "(1 :: nat) < 2" by simp
  with r(2) b have "DB_Get mem_dbi (''key'' @ itoa (int 1)) (DB (nodes w' (Connection \<lparr>Connection = ''b'', client_traced = False\<rparr>))) =
      Inr (bytes_of (''req'' @ itoa (int 1)))" by blast
  then show ?thesis using i(2) r(1) by auto
qed

end
