(* ===== verification/Handlers.thy ===== *)
theory Handlers
  imports Reliable
begin

text \<open>
  Properties of the request handlers of one node and of the construction of a server.
\<close>

lemmas example_hook_defs = example_server_def new_server_def example_config_def NewCommitServer_def
  hooks_Get_def config_Get_def default_flags_def db_New_def mem_badger_def peer_New_def checkServerFields_def

section \<open>Propose\<close>

text \<open>
  C26. A proposal is answered on every branch as follows: it is acknowledged, with its own index,
  exactly when the hook accepts it and the node's height is not above its index; a node that is
  ahead refuses it with its own height, for the coordinator to catch up; any other refusal
  carries the index of the request. The reply is never nil and never an error. The value is
  cached exactly when the hook accepts it, also when the proposal is refused as stale, and the
  commit of that index is marked as not yet in progress.
\<close>

theorem Propose_spec:
  assumes "ProposeHook s = Some hook"
  shows "\<exists>r s'. Propose s ctx req = Inr ((Some r, None), s') \<and>
    rType r = (if hook req \<and> Height s \<le> pIndex req then ACK else NACK) \<and>
    rIndex r = (if Height s \<le> pIndex req then pIndex req else Height s) \<and>
    cache_lookup (NodeCache s') = (if hook req
      then (cache_lookup (NodeCache s))(pIndex req := Some (pKey req, pValue req))
      else cache_lookup (NodeCache s)) \<and>
    Height s' = Height s \<and> DB s' = DB s \<and> \<not> HasProgressForCommitPhase s' (pIndex req)"
  using assms
  by (auto simp: Propose_def ProposeHandler_def Let_def call_hook_def SetProgressForCommitPhase_def
      HasProgressForCommitPhase_def fun_eq_iff not_less)

theorem Propose_spec_witness:
  "\<exists>r s'. Propose (example_server ''follower'' TWO_PHASE [''c'']) Background (proposal TWO_PHASE_COMMIT example_entry 3) =
     Inr ((Some r, None), s') \<and> rType r = ACK \<and> rIndex r = 3"
proof -
  let ?s = "example_server ''follower'' TWO_PHASE [''c'']" and ?q = "proposal TWO_PHASE_COMMIT example_entry 3"
  have "Height ?s \<le> pIndex ?q" "pIndex ?q = 3" by code_simp+
  moreover have "ProposeHook ?s = Some hook_Propose" by (rule example_hooks)
  ultimately show ?thesis using Propose_spec [of ?s hook_Propose Background ?q] by (auto simp: hook_Propose_def)
qed

section \<open>Commit\<close>

text \<open>
  A commit of a node whose hook is set never panics, in either mode: where the code reads the
  type of the handler's reply, the reply is not nil.
\<close>

theorem Commit_no_panic:
  assumes "CommitHook s = Some hook"
  shows "\<exists>reply s'. Commit dbi s ctx req = Inr (reply, s')"
proof -
  have "\<exists>reply s'. gbind (CommitHandler dbi t req (CommitHook t)) (\<lambda>((resp, err), s2).
      case err of Some e \<Rightarrow> Inr ((h resp, Some e), s2) | None \<Rightarrow> after_commit resp s2) = Inr (reply, s')"
    if "CommitHook t = Some hook" for t h
    using that by (auto simp: CommitHandler_def call_hook_def after_commit_def split: prod.splits option.splits)
  from this [of s "\<lambda>x. x"] this [of "SetProgressForCommitPhase s (Height s) True" "\<lambda>_. None"] assms
  show ?thesis
    by (auto simp: Commit_def Let_def SetProgressForCommitPhase_def split: option.splits)
qed

theorem Commit_no_panic_witness:
  "\<exists>reply s'. Commit mem_dbi (example_server ''follower'' TWO_PHASE [''c'']) Background
     \<lparr>cIndex = 0, cIsRollback = False\<rparr> = Inr (reply, s')"
  by (rule Commit_no_panic) (rule example_hooks(2))

text \<open>In three-phase mode the handler runs only for a call that has metadata and no mode in it.\<close>

definition commit_admitted :: "'d Server \<Rightarrow> Context \<Rightarrow> bool" where
  "commit_admitted s ctx \<longleftrightarrow> (three_phase s \<longrightarrow>
     (case FromIncomingContext ctx of None \<Rightarrow> False | Some md \<Rightarrow> gm_lookup md ''mode'' \<in> {None, Some []}))"

text \<open>What a commit leaves that is not acknowledged: every key reads as before, and at most cached values are lost.\<close>

definition commit_refused :: "'d Database \<Rightarrow> 'd Server \<Rightarrow> 'd Server \<Rightarrow> bool" where
  "commit_refused dbi s s' \<longleftrightarrow> Height s' = Height s \<and> (\<forall>k. DB_Get dbi k (DB s') = DB_Get dbi k (DB s)) \<and>
     (\<forall>i. cache_lookup (NodeCache s') i \<in> {None, cache_lookup (NodeCache s) i})"

lemma Commit_not_admitted:
  "\<not> commit_admitted s ctx \<Longrightarrow> \<exists>reply s'. Commit dbi s ctx req = Inr (reply, s') \<and> fst reply = None \<and> commit_refused dbi s s'"
  by (auto simp: commit_admitted_def commit_refused_def Commit_def rollback_def Let_def split: option.splits if_splits)

text \<open>An admitted call: the handler on a server that has the same data, then the height.\<close>

lemma Commit_admitted:
  assumes "commit_admitted s ctx" and "CommitHook s = Some hook"
  obtains t r where "NodeCache t = NodeCache s" "DB t = DB s" "Height t = Height s"
    "Commit dbi s ctx req =
       gbind (CommitHandler dbi t req (Some hook)) (\<lambda>((resp, err), s2).
         case err of Some e \<Rightarrow> Inr ((r resp, Some e), s2) | None \<Rightarrow> after_commit resp s2)"
proof (cases "three_phase s")
  case True
  then obtain md where "FromIncomingContext ctx = Some md" "gm_lookup md ''mode'' \<in> {None, Some []}"
    using assms(1) by (auto simp: commit_admitted_def split: option.splits)
  then show thesis using True assms(2)
    by (intro that [of "SetProgressForCommitPhase s (Height s) True" "\<lambda>_. None"])
      (auto simp: Commit_def Let_def SetProgressForCommitPhase_def)
next
  case False
  then show thesis using assms(2) by (intro that [of s "\<lambda>x. x"]) (simp_all add: Commit_def)
qed

text \<open>
  C27. A commit is all or nothing, in both modes. It is acknowledged exactly when the call is admitted
  (in three-phase mode: it has metadata and no mode), the hook accepts it, a pair is cached for its
  index and the database takes that pair. Then the pair can be read, every other key reads as
  before, the cache is as it was and the height is one higher. In every other case nothing that
  can be read changes, the height stays, and the cache gains nothing.
\<close>

theorem Commit_all_or_nothing:
  assumes "database (DB_Put dbi) (DB_Get dbi)" and "CommitHook s = Some hook"
  shows "\<exists>reply s'. Commit dbi s ctx req = Inr (reply, s') \<and>
    (if \<exists>k v. commit_admitted s ctx \<and> hook req \<and> cache_lookup (NodeCache s) (cIndex req) = Some (k, v) \<and>
          fst (DB_Put dbi k v (DB s)) = None
     then reply = (Some ack, None) \<and> Height s' = Height s + 1 \<and> NodeCache s' = NodeCache s \<and>
       (\<exists>k v. cache_lookup (NodeCache s) (cIndex req) = Some (k, v) \<and> DB_Get dbi k (DB s') = Inr v \<and>
          (\<forall>k'. k' \<noteq> k \<longrightarrow> DB_Get dbi k' (DB s') = DB_Get dbi k' (DB s)))
     else reply \<noteq> (Some ack, None) \<and> commit_refused dbi s s')"
proof (cases "commit_admitted s ctx")
  case False
  from Commit_not_admitted [OF this, of dbi req] False show ?thesis by auto
next
  case True
  then obtain t r where t: "NodeCache t = NodeCache s" "DB t = DB s" "Height t = Height s"
    and c: "Commit dbi s ctx req =
       gbind (CommitHandler dbi t req (Some hook)) (\<lambda>((resp, err), s2).
         case err of Some e \<Rightarrow> Inr ((r resp, Some e), s2) | None \<Rightarrow> after_commit resp s2)"
    by (rule Commit_admitted [OF _ assms(2)])
  show ?thesis
  proof (cases "hook req")
    case False
    then show ?thesis using c t
      by (simp add: CommitHandler_def call_hook_def after_commit_def nack_def ack_def commit_refused_def)
  next
    case hook: True
    show ?thesis
    proof (cases "cache_lookup (NodeCache s) (cIndex req)")
      case None
      then show ?thesis using c t hook
        by (simp add: CommitHandler_def call_hook_def cache_Get_None commit_refused_def)
    next
      case (Some kv)
      then obtain k v where kv: "cache_lookup (NodeCache s) (cIndex req) = Some (k, v)" by (cases kv) auto
      obtain e d where d: "DB_Put dbi k v (DB s) = (e, d)" by fastforce
      show ?thesis
      proof (cases e)
        case None
        with d have p: "DB_Put dbi k v (DB s) = (None, d)" by simp
        have "Commit dbi s ctx req = Inr ((Some ack, None), incr_Height (t\<lparr>DB := d\<rparr>))"
          using c t hook kv p by (simp add: CommitHandler_def call_hook_def cache_Get_Some after_commit_def ack_def)
        then show ?thesis
          using t True hook kv p database.put_get [OF assms(1) p] database.put_other [OF assms(1) p]
          by (simp add: incr_Height_def)
      next
        case (Some err)
        with d have p: "DB_Put dbi k v (DB s) = (Some err, d)" by simp
        have "Commit dbi s ctx req = Inr ((r None, Some err), t\<lparr>DB := d\<rparr>)"
          using c t hook kv p by (simp add: CommitHandler_def call_hook_def cache_Get_Some)
        then show ?thesis using t kv p database.put_error [OF assms(1) p] by (simp add: commit_refused_def)
      qed
    qed
  qed
qed

text \<open>A follower that has cached a pair at index zero commits it, and refuses to commit index one.\<close>

theorem Commit_all_or_nothing_witness:
  "\<exists>s s1 s2 reply. cache_lookup (NodeCache s) 0 = Some (''key1'', [118, 49]) \<and>
     Commit mem_dbi s Background \<lparr>cIndex = 0, cIsRollback = False\<rparr> = Inr ((Some ack, None), s1) \<and>
     DB_Get mem_dbi ''key1'' (DB s1) = Inr [118, 49] \<and> Height s1 = Height s + 1 \<and>
     Commit mem_dbi s Background \<lparr>cIndex = 1, cIsRollback = False\<rparr> = Inr (reply, s2) \<and> reply \<noteq> (Some ack, None) \<and> Height s2 = Height s"
proof -
  let ?f = "example_server ''follower'' TWO_PHASE [''c'']"
  let ?s = "?f\<lparr>NodeCache := cache_Set (NodeCache ?f) 0 ''key1'' [118, 49]\<rparr>"
  have tp: "\<not> three_phase ?f" and empty: "cache_lookup (NodeCache ?f) 1 = None" by code_simp+
  have hook: "CommitHook ?s = Some hook_Commit" "commit_admitted ?s Background"
    using tp by (simp_all add: example_hooks commit_admitted_def three_phase_def)
  have kv: "cache_lookup (NodeCache ?s) 0 = Some (''key1'', [118, 49])" "cache_lookup (NodeCache ?s) 1 = None"
    using empty by simp_all
  have take: "fst (DB_Put mem_dbi ''key1'' [118, 49] d) = None" for d
    using example_takes by (simp add: takes_def example_entry_def)
  note spec = Commit_all_or_nothing [OF mem_database hook(1), of Background]
  from spec [of "\<lparr>cIndex = 0, cIsRollback = False\<rparr>"] hook(2) kv(1) take obtain s1 where
    one: "Commit mem_dbi ?s Background \<lparr>cIndex = 0, cIsRollback = False\<rparr> = Inr ((Some ack, None), s1)"
      "Height s1 = Height ?s + 1" "DB_Get mem_dbi ''key1'' (DB s1) = Inr [118, 49]"
    by (auto simp: hook_Commit_def)
  from spec [of "\<lparr>cIndex = 1, cIsRollback = False\<rparr>"] kv(2) obtain reply s2 where
    two: "Commit mem_dbi ?s Background \<lparr>cIndex = 1, cIsRollback = False\<rparr> = Inr (reply, s2)" "reply \<noteq> (Some ack, None)" "Height s2 = Height ?s"
    by (auto simp: commit_refused_def)
  show ?thesis using kv(1) one two by blast
qed

text \<open>
  C28. The commit without the coordinator, which a follower in three-phase mode is to make when the
  timeout after a precommit passes, never takes place: the goroutine puts the mode into the
  outgoing metadata of its context, \<^verbatim>\<open>Commit\<close> looks for it in the incoming metadata, finds none
  and returns an error. The server is left as it is, whether the commit was in progress or not.
\<close>

theorem precommit_timeout_never_commits:
  assumes "three_phase s"
  shows "precommit_timeout dbi s index = Inr s"
  using assms
  by (simp add: precommit_timeout_def Commit_def autocommit_context_def NewOutgoingContext_def
      FromIncomingContext_def Background_def)

theorem precommit_timeout_never_commits_witness:
  "\<exists>s s1 s2. three_phase s \<and>
     Propose s Background (proposal THREE_PHASE_COMMIT example_entry 0) = Inr ((Some \<lparr>rType = ACK, rIndex = 0\<rparr>, None), s1) \<and>
     Precommit s1 Background \<lparr>pcIndex = 0\<rparr> = Inr ((Some ack, None), s2) \<and> timers s2 = [0] \<and>
     precommit_timeout mem_dbi s2 0 = Inr s2"
proof -
  let ?s = "example_server ''follower'' THREE_PHASE [''c'']"
  let ?s1 = "(SetProgressForCommitPhase ?s 0 False)\<lparr>NodeCache :=
    cache_Set (NodeCache ?s) 0 (eKey example_entry) (eValue example_entry)\<rparr>"
  let ?s2 = "?s1\<lparr>timers := [0]\<rparr>"
  have s: "three_phase ?s" "timers ?s = []" "Height ?s = 0" by code_simp+
  have "ProposeHook ?s = Some hook_Propose" by (simp add: example_hook_defs)
  then have "Propose ?s Background (proposal THREE_PHASE_COMMIT example_entry 0) =
      Inr ((Some \<lparr>rType = ACK, rIndex = 0\<rparr>, None), ?s1)"
    using s by (simp add: Propose_def ProposeHandler_def call_hook_def hook_Propose_def proposal_def Let_def
        SetProgressForCommitPhase_def)
  moreover have "Precommit ?s1 Background \<lparr>pcIndex = 0\<rparr> = Inr ((Some ack, None), ?s2)"
    using s by (simp add: Precommit_def PrecommitHandler_def three_phase_def SetProgressForCommitPhase_def)
  moreover have "three_phase ?s2" using s(1) by (simp add: three_phase_def SetProgressForCommitPhase_def)
  ultimately show ?thesis using precommit_timeout_never_commits [of ?s2 mem_dbi 0] s(1)
    by (intro exI [of _ ?s] exI [of _ ?s1] exI [of _ ?s2]) simp
qed

section \<open>A value from proposal to read\<close>

text \<open>
  C19. Round trip on one node, in both modes: once a proposal is acknowledged and the commit of its
  index is acknowledged, reading the key gives the proposed value, the height has gone up by
  one, and every other key reads as before.
\<close>

theorem propose_commit_get:
  assumes "database (DB_Put dbi) (DB_Get dbi)"
    and "Propose s pctx p = Inr ((Some r1, None), s1)" and "rType r1 = ACK"
    and "Commit dbi s1 cctx \<lparr>cIndex = pIndex p, cIsRollback = rb\<rparr> = Inr ((Some r2, None), s2)" and "rType r2 = ACK"
  shows "Get dbi s2 gctx \<lparr>mKey = pKey p\<rparr> = (Some \<lparr>vValue = pValue p\<rparr>, None) \<and>
    NodeInfo s2 gctx = (Some \<lparr>iHeight = Height s + 1\<rparr>, None) \<and>
    (\<forall>k. k \<noteq> pKey p \<longrightarrow> Get dbi s2 gctx \<lparr>mKey = k\<rparr> = Get dbi s gctx \<lparr>mKey = k\<rparr>)"
proof -
  have p: "node_cache s1 (pIndex p) = Some (pKey p, pValue p)" "DB s1 = DB s" "Height s1 = Height s"
    using Propose_cases [OF assms(2)] assms(3) by auto
  from Commit_cases [OF assms(4)] assms(5) p have
    c: "Height s2 = Height s + 1" "DB_Put dbi (pKey p) (pValue p) (DB s) = (None, DB s2)"
    by (auto simp: commit_effect_def)
  then show ?thesis
    using database.put_get [OF assms(1) c(2)] database.put_other [OF assms(1) c(2)]
    by (simp add: Get_def NodeInfo_def)
qed

theorem propose_commit_get_witness:
  "\<exists>s s1 s2. Propose s Background (proposal TWO_PHASE_COMMIT example_entry 0) = Inr ((Some \<lparr>rType = ACK, rIndex = 0\<rparr>, None), s1) \<and>
     Commit mem_dbi s1 Background \<lparr>cIndex = 0, cIsRollback = False\<rparr> = Inr ((Some ack, None), s2) \<and>
     Get mem_dbi s2 Background \<lparr>mKey = ''key1''\<rparr> = (Some \<lparr>vValue = [118, 49]\<rparr>, None)"
proof -
  let ?s = "example_server ''follower'' TWO_PHASE [''c'']"
  let ?p = "proposal TWO_PHASE_COMMIT example_entry 0"
  have p: "pKey ?p = ''key1''" "pValue ?p = [118, 49]" "pIndex ?p = 0" by (simp_all add: proposal_def example_entry_def)
  have s: "\<not> three_phase ?s" "Height ?s \<le> 0" by code_simp+
  obtain s1 where s1: "Propose ?s Background ?p = Inr ((Some \<lparr>rType = ACK, rIndex = 0\<rparr>, None), s1)"
      "willing s1" "srv_Config s1 = srv_Config ?s" "node_cache s1 = (node_cache ?s)(0 := Some (eKey example_entry, eValue example_entry))"
    by (rule willing_Propose [OF example_willing s(2)])
  let ?q = "\<lparr>cIndex = pIndex ?p, cIsRollback = False\<rparr>"
  obtain c where c: "CommitHook s1 = Some c" "\<And>q. c q" using s1(2) by (auto simp: willing_def)
  have "node_cache s1 (cIndex ?q) = Some (eKey example_entry, eValue example_entry)" using s1(4) p by simp
  from willing_CommitHandler [OF c this example_takes] obtain d where
    "CommitHandler mem_dbi s1 ?q (CommitHook s1) = Inr ((Some ack, None), s1\<lparr>DB := d\<rparr>)" .
  then have c1: "Commit mem_dbi s1 Background ?q = Inr ((Some ack, None), incr_Height (s1\<lparr>DB := d\<rparr>))"
    using s(1) s1(3) by (simp add: Commit_def three_phase_def after_commit_def ack_def)
  from propose_commit_get [OF mem_database s1(1) _ c1] show ?thesis
    using s1(1) c1 p by (auto simp: ack_def)
qed

section \<open>Construction\<close>

lemma connect_followers_eq:
  "connect_followers dial tr pid addrs (mp, cls) = Inr (mp', cls') \<Longrightarrow>
     \<exists>new. cls' = cls @ new \<and> length new = length addrs \<and>
       (\<forall>i<length addrs. dial (addrs ! i) tr = Inr (Connection (new ! i)) \<and> client_traced (new ! i) = tr)"
proof (induction addrs arbitrary: pid mp cls)
  case (Cons a addrs)
  then obtain cc where cc: "dial a tr = Inr cc"
    by (auto simp: peer_New_def split: sum.splits)
  let ?c = "\<lparr>Connection = cc, client_traced = tr\<rparr>"
  from Cons.prems cc have "connect_followers dial tr (Suc pid) addrs (gm_update (itoa (int pid)) True mp, cls @ [?c]) = Inr (mp', cls')"
    by (simp add: peer_New_def)
  from Cons.IH [OF this] obtain new where n: "cls' = (cls @ [?c]) @ new" "length new = length addrs"
      "\<forall>i<length addrs. dial (addrs ! i) tr = Inr (Connection (new ! i)) \<and> client_traced (new ! i) = tr" by blast
  then show ?case using cc by (intro exI [of _ "?c # new"]) (auto simp: nth_Cons split: nat.splits)
qed simp

lemma NewCommitServer_InrE:
  assumes "NewCommitServer mk dial db_new conf opts = Inr s"
  obtains srv mp cls d where
    "run_options opts \<lparr>o_ProposeHook = None, o_CommitHook = None, o_DB = None\<rparr> = Inr srv"
    "connect_followers dial (WithTrace conf) 0 (cfg_Followers conf) (gm_empty, []) = Inr (mp, cls)"
    "db_new (cfg_DBPath conf) = Inr d"
    "Followers s = cls" "DB s = d" "ProposeHook s = o_ProposeHook srv" "CommitHook s = o_CommitHook srv"
    "Height s = 0" "NodeCache s = cache_New" "monitor s = NewMonitor" "timers s = []" "Addr s = Nodeaddr conf"
    "srv_Config s = (if Role conf = ''coordinator'' then conf\<lparr>Coordinator := Nodeaddr conf\<rparr> else conf)"
  using assms
  by (auto simp: NewCommitServer_def Let_def split: sum.splits option.splits if_splits)

lemma NewMonitor_ok: "mon_ok NewMonitor"
  by code_simp

text \<open>
  C29. A server that is built without an error has height 0, an empty cache and a monitor that
  accepts its empty trace; it has a client for each configured follower, in the order of the
  configuration; with the hooks of the hooks package both hooks are set. So the invariants that
  the other theorems need hold at the start.
\<close>

theorem NewCommitServer_spec:
  assumes "NewCommitServer mk dial db_new conf (hooks_Get @ opts) = Inr s"
    and "\<And>opt x. opt \<in> set opts \<Longrightarrow> o_ProposeHook (snd (opt x)) = o_ProposeHook x \<and> o_CommitHook (snd (opt x)) = o_CommitHook x"
  shows "Height s = 0 \<and> cache_lookup (NodeCache s) = (\<lambda>_. None) \<and> mon_ok (monitor s) \<and>
    length (Followers s) = length (cfg_Followers conf) \<and>
    (\<forall>i<length (cfg_Followers conf). dial (cfg_Followers conf ! i) (WithTrace conf) = Inr (Connection (Followers s ! i))) \<and>
    ProposeHook s = Some hook_Propose \<and> CommitHook s = Some hook_Commit"
proof -
  obtain srv mp cls d where
    s: "run_options (hooks_Get @ opts) \<lparr>o_ProposeHook = None, o_CommitHook = None, o_DB = None\<rparr> = Inr srv"
      "connect_followers dial (WithTrace conf) 0 (cfg_Followers conf) (gm_empty, []) = Inr (mp, cls)"
      "Followers s = cls" "ProposeHook s = o_ProposeHook srv" "CommitHook s = o_CommitHook srv"
      "Height s = 0" "NodeCache s = cache_New" "monitor s = NewMonitor"
    by (rule NewCommitServer_InrE [OF assms(1)])
  have "run_options os x = Inr y \<Longrightarrow> set os \<subseteq> set opts \<Longrightarrow>
      o_ProposeHook y = o_ProposeHook x \<and> o_CommitHook y = o_CommitHook x" for os x y
  proof (induction os arbitrary: x)
    case (Cons opt os)
    then show ?case using assms(2) [of opt x] by (auto split: prod.splits option.splits)
  qed simp
  from this [of opts] s(1) have "o_ProposeHook srv = Some hook_Propose" "o_CommitHook srv = Some hook_Commit"
    by (auto simp: hooks_Get_def)
  moreover from connect_followers_eq [OF s(2)]
  have "length cls = length (cfg_Followers conf)"
      "\<forall>i<length (cfg_Followers conf). dial (cfg_Followers conf ! i) (WithTrace conf) = Inr (Connection (cls ! i))" by auto
  ultimately show ?thesis using s NewMonitor_ok by auto
qed

theorem NewCommitServer_spec_witness:
  "\<exists>s. NewCommitServer (\<lambda>_ _. None) (\<lambda>addr _. Inr addr) (db_New mem_badger)
      (example_config ''coordinator'' TWO_PHASE [''a'', ''b'']) (hooks_Get @ []) = Inr s \<and>
    Height s = 0 \<and> length (Followers s) = 2"
proof -
  let ?c = "example_config ''coordinator'' TWO_PHASE [''a'', ''b'']"
  have n: "NewCommitServer (\<lambda>_ _. None) (\<lambda>addr _. Inr addr) (db_New mem_badger) ?c (hooks_Get @ []) =
      Inr (example_server ''coordinator'' TWO_PHASE [''a'', ''b''])"
    using example_server_new by (simp add: new_server_def)
  from NewCommitServer_spec [OF n] have "Height (example_server ''coordinator'' TWO_PHASE [''a'', ''b'']) = 0"
      "length (Followers (example_server ''coordinator'' TWO_PHASE [''a'', ''b''])) = length (cfg_Followers ?c)"
    by simp_all
  moreover have "length (cfg_Followers ?c) = 2" by code_simp
  ultimately show ?thesis using n by auto
qed

text \<open>
  The path given to \<^verbatim>\<open>WithBadgerDB\<close> has no effect on the database of the server: a server that
  is built with the option, after any others, has the database that \<^verbatim>\<open>db.New\<close> opens at the path
  of the configuration.
\<close>

theorem WithBadgerDB_overwritten:
  assumes "NewCommitServer mk dial db_new conf (opts @ [WithBadgerDB db_new path]) = Inr s"
  shows "db_new (cfg_DBPath conf) = Inr (DB s)"
  by (rule NewCommitServer_InrE [OF assms]) simp

theorem WithBadgerDB_overwritten_witness:
  "\<exists>s. NewCommitServer (\<lambda>_ _. None) (\<lambda>addr _. Inr addr) (\<lambda>path. Inr path)
      (example_config ''follower'' TWO_PHASE [''c'']) ([] @ [WithBadgerDB (\<lambda>path. Inr path) ''/data'']) = Inr s \<and>
    DB s = ''./badger''"
proof -
  let ?n = "NewCommitServer (\<lambda>_ _. None) (\<lambda>addr _. Inr addr) (\<lambda>path. Inr path)
      (example_config ''follower'' TWO_PHASE [''c'']) ([] @ [WithBadgerDB (\<lambda>path. Inr path) ''/data''])"
  obtain s where "?n = Inr s"
    by (simp add: NewCommitServer_def WithBadgerDB_def example_config_def config_Get_def default_flags_def
        peer_New_def checkServerFields_def Let_def)
  moreover have "cfg_DBPath (example_config ''follower'' TWO_PHASE [''c'']) = ''./badger''" by code_simp
  ultimately show ?thesis using WithBadgerDB_overwritten by fastforce
qed

end
