(* ===== verification/Node_Steps.thy ===== *)
theory Node_Steps
  imports Handlers
begin

text \<open>
  One node as a state machine: requests of any callers, in any order and with any contents, and
  the timeouts of the goroutines that \<^verbatim>\<open>Precommit\<close> has started, interleaved. A step is one handler;
  the label of a step says what arrived and, for a commit, what was answered.
\<close>

datatype node_event =
    GotPropose ProposeRequest
  | GotPrecommit PrecommitRequest
  | GotCommit CommitRequest "Response reply"
  | TimerFired uint64

inductive node_step :: "'d Database \<Rightarrow> 'd Server \<Rightarrow> node_event \<Rightarrow> 'd Server \<Rightarrow> bool" for dbi where
  on_propose: "Propose s ctx req = Inr (reply, s') \<Longrightarrow> node_step dbi s (GotPropose req) s'"
| on_precommit: "Precommit s ctx pc = Inr (reply, s') \<Longrightarrow> node_step dbi s (GotPrecommit pc) s'"
| on_commit: "Commit dbi s ctx c = Inr (reply, s') \<Longrightarrow> node_step dbi s (GotCommit c reply) s'"
| on_timeout: "index \<in> set (timers s) \<Longrightarrow> precommit_timeout dbi s index = Inr s' \<Longrightarrow>
    node_step dbi s (TimerFired index) (s'\<lparr>timers := remove1 index (timers s')\<rparr>)"

inductive_cases node_stepE:
  "node_step dbi s (GotPropose req) s'" "node_step dbi s (GotPrecommit pc) s'"
  "node_step dbi s (GotCommit c reply) s'" "node_step dbi s (TimerFired i) s'"

inductive node_run :: "'d Database \<Rightarrow> 'd Server \<Rightarrow> node_event list \<Rightarrow> 'd Server \<Rightarrow> bool" for dbi s where
  started: "node_run dbi s [] s"
| stepped: "node_run dbi s es s1 \<Longrightarrow> node_step dbi s1 e s2 \<Longrightarrow> node_run dbi s (es @ [e]) s2"

definition proposed :: "node_event list \<Rightarrow> (string \<times> bytes) set" where
  "proposed es = {(pKey req, pValue req) | req. GotPropose req \<in> set es}"

definition commits_acked :: "node_event list \<Rightarrow> nat" where
  "commits_acked es =
     length (filter (\<lambda>e. case e of GotCommit c (Some r, None) \<Rightarrow> rType r = ACK | _ \<Rightarrow> False) es)"

section \<open>Steps\<close>

text \<open>Timers run in three-phase mode only, and the mode of a node never changes.\<close>

definition timers_ok :: "'d Server \<Rightarrow> bool" where
  "timers_ok s \<longleftrightarrow> timers s \<noteq> [] \<longrightarrow> three_phase s"

lemma CommitHandler_timers:
  "CommitHandler dbi s req hook = Inr (reply, s') \<Longrightarrow> timers s' = timers s \<and> srv_Config s' = srv_Config s"
  by (auto simp: CommitHandler_def gbind_eq_Inr split: if_splits prod.splits option.splits)

lemma Propose_timers_ok: "Propose s ctx req = Inr (reply, s') \<Longrightarrow> timers_ok s \<Longrightarrow> timers_ok s'"
  by (auto simp: Propose_def ProposeHandler_def SetProgressForCommitPhase_def timers_ok_def three_phase_def
      Let_def gbind_eq_Inr split: if_splits)

lemma Precommit_timers_ok: "Precommit s ctx pc = Inr (reply, s') \<Longrightarrow> timers_ok s \<Longrightarrow> timers_ok s'"
  by (auto simp: Precommit_def PrecommitHandler_def timers_ok_def three_phase_def split: if_splits)

lemma after_commit_timers: "after_commit resp s = Inr (reply, s') \<Longrightarrow> timers s' = timers s \<and> srv_Config s' = srv_Config s"
  by (auto simp: after_commit_def incr_Height_def split: option.splits if_splits)

lemma commit_finish_timers:
  assumes "gbind (CommitHandler dbi s req hook) (\<lambda>((resp, err), s2).
      case err of Some e \<Rightarrow> Inr ((h resp, Some e), s2) | None \<Rightarrow> after_commit resp s2) = Inr (reply, s')"
  shows "timers s' = timers s \<and> srv_Config s' = srv_Config s"
  using assms by (auto simp: gbind_eq_Inr dest!: CommitHandler_timers after_commit_timers split: option.splits)

lemma Commit_timers:
  assumes "Commit dbi s ctx c = Inr (reply, s')"
  shows "timers s' = timers s \<and> srv_Config s' = srv_Config s"
proof (cases "three_phase s")
  case False
  then show ?thesis
    using assms commit_finish_timers [of dbi s c "CommitHook s" "\<lambda>x. x"] by (simp add: Commit_def)
next
  case True
  then show ?thesis
    using assms commit_finish_timers [of dbi "SetProgressForCommitPhase s (Height s) True" c _ "\<lambda>_. None"]
    by (auto simp: Commit_def Let_def SetProgressForCommitPhase_def rollback_def split: option.splits if_splits)
qed

lemma Commit_timers_ok: "Commit dbi s ctx c = Inr (reply, s') \<Longrightarrow> timers_ok s \<Longrightarrow> timers_ok s'"
  by (drule Commit_timers) (auto simp: timers_ok_def three_phase_def)

lemma CommitHandler_Height:
  "CommitHandler dbi s req hook = Inr (reply, s') \<Longrightarrow> Height s' = Height s"
  by (auto simp: CommitHandler_def gbind_eq_Inr split: if_splits prod.splits option.splits)

lemma Commit_Height:
  assumes "Commit dbi s ctx c = Inr (reply, s')"
  shows "Height s' = Height s + of_nat (commits_acked [GotCommit c reply])"
  using assms
  by (auto simp: Commit_def commits_acked_def Let_def gbind_eq_Inr after_commit_def incr_Height_def rollback_def
      SetProgressForCommitPhase_def dest!: CommitHandler_Height split: if_splits option.splits prod.splits)

lemma commit_effect_Get:
  assumes "database (DB_Put dbi) (DB_Get dbi)" and "commit_effect dbi i s reply s'"
  shows "DB_Get dbi k (DB s') = DB_Get dbi k (DB s) \<or>
    (\<exists>v. node_cache s i = Some (k, v) \<and> DB_Get dbi k (DB s') = Inr v)"
proof (cases "DB s' = DB s")
  case False
  then obtain k' v where c: "node_cache s i = Some (k', v)" "DB s' = snd (DB_Put dbi k' v (DB s))"
    using assms(2) by (auto simp: commit_effect_def)
  obtain r where r: "DB_Put dbi k' v (DB s) = (r, DB s')" using c(2) by (metis prod.collapse)
  show ?thesis
    using c(1) r database.put_get [OF assms(1)] database.put_other [OF assms(1)] database.put_error [OF assms(1)]
    by (cases r; cases "k = k'") auto
qed simp

lemma timeout_unchanged: "three_phase s \<Longrightarrow> precommit_timeout dbi s index = Inr s"
  by (simp add: precommit_timeout_def Commit_def autocommit_context_def NewOutgoingContext_def
      FromIncomingContext_def Background_def)

section \<open>Invariants of a run\<close>

definition node_invariant :: "'d Database \<Rightarrow> 'd Server \<Rightarrow> node_event list \<Rightarrow> 'd Server \<Rightarrow> bool" where
  "node_invariant dbi s es s' \<longleftrightarrow>
     timers_ok s' \<and> (\<forall>i kv. node_cache s' i = Some kv \<longrightarrow> kv \<in> proposed es) \<and>
     (\<forall>k. DB_Get dbi k (DB s') = DB_Get dbi k (DB s) \<or> (\<exists>v. (k, v) \<in> proposed es \<and> DB_Get dbi k (DB s') = Inr v)) \<and>
     Height s' = Height s + of_nat (commits_acked es)"

lemma proposed_snoc:
  "proposed (es @ [e]) = proposed es \<union> (case e of GotPropose req \<Rightarrow> {(pKey req, pValue req)} | _ \<Rightarrow> {})"
  by (auto simp: proposed_def split: node_event.splits)

lemma commits_acked_snoc: "commits_acked (es @ [e]) = commits_acked es + commits_acked [e]"
  by (simp add: commits_acked_def)

lemma node_invariant_step:
  assumes db: "database (DB_Put dbi) (DB_Get dbi)"
    and inv: "node_invariant dbi s es s1" and step: "node_step dbi s1 e s2"
  shows "node_invariant dbi s (es @ [e]) s2"
  using step
proof cases
  case (on_propose ctx req reply)
  note c = Propose_cases [OF on_propose(2)]
  have "\<forall>i kv. node_cache s2 i = Some kv \<longrightarrow> kv \<in> proposed (es @ [e])"
    using c inv by (auto simp: node_invariant_def on_propose proposed_snoc split: if_splits)
  then show ?thesis
    using c inv Propose_timers_ok [OF on_propose(2)]
    by (auto simp: node_invariant_def on_propose proposed_snoc commits_acked_snoc commits_acked_def)
next
  case (on_precommit ctx pc reply)
  then show ?thesis
    using Precommit_cases [OF on_precommit(2)] inv Precommit_timers_ok [OF on_precommit(2)]
    by (auto simp: node_invariant_def proposed_snoc commits_acked_snoc commits_acked_def)
next
  case (on_commit ctx c reply)
  note eff = Commit_cases [OF on_commit(2)]
  have "node_cache s2 i = node_cache s1 i \<or> node_cache s2 i = None" for i
    using eff by (simp add: commit_effect_def)
  then have "node_cache s2 i = Some kv \<Longrightarrow> kv \<in> proposed es" for i kv
    using inv unfolding node_invariant_def by (metis option.distinct(1))
  moreover have "DB_Get dbi k (DB s2) = DB_Get dbi k (DB s) \<or> (\<exists>v. (k, v) \<in> proposed es \<and> DB_Get dbi k (DB s2) = Inr v)" for k
    using commit_effect_Get [OF db eff, of k] inv unfolding node_invariant_def by metis
  ultimately show ?thesis
    using inv Commit_timers_ok [OF on_commit(2)] Commit_Height [OF on_commit(2)]
    by (simp add: node_invariant_def on_commit(1) proposed_snoc commits_acked_snoc [of es])
next
  case (on_timeout index s')
  then have "three_phase s1" using inv by (auto simp: node_invariant_def timers_ok_def)
  then have "s' = s1" using on_timeout(4) by (simp add: timeout_unchanged)
  then show ?thesis
    using inv \<open>three_phase s1\<close> on_timeout
    by (auto simp: node_invariant_def proposed_snoc commits_acked_snoc commits_acked_def node_cache_def
        timers_ok_def three_phase_def)
qed

text \<open>
  C13. Integrity of a node under any interleaving of proposals, precommits, commits and timeouts,
  starting with an empty cache and no pending timeout: every key of its database has the value it had at the start or one that was proposed
  for it, and the height has grown by the number of commits that the node acknowledged.
\<close>

theorem node_integrity:
  assumes "node_run dbi s es s'" and "database (DB_Put dbi) (DB_Get dbi)"
    and "NodeCache s = cache_New" and "timers s = []"
  shows "(\<forall>k. DB_Get dbi k (DB s') = DB_Get dbi k (DB s) \<or>
       (\<exists>v. (k, v) \<in> proposed es \<and> DB_Get dbi k (DB s') = Inr v)) \<and>
    Height s' = Height s + of_nat (commits_acked es)"
proof -
  have "node_invariant dbi s es s'"
    using assms(1)
  proof induction
    case started
    then show ?case using assms(3,4)
      by (simp add: node_invariant_def timers_ok_def node_cache_def proposed_def commits_acked_def)
  next
    case (stepped es s1 e s2)
    then show ?case using node_invariant_step [OF assms(2)] by blast
  qed
  then show ?thesis by (simp add: node_invariant_def)
qed

theorem node_integrity_witness:
  "\<exists>s s'. node_run mem_dbi s [GotPropose (proposal THREE_PHASE_COMMIT example_entry 0), GotPrecommit \<lparr>pcIndex = 0\<rparr>,
       TimerFired 0] s' \<and> Height s' = 0"
proof -
  let ?s = "example_server ''follower'' THREE_PHASE [''c'']" and ?q = "proposal THREE_PHASE_COMMIT example_entry 0"
  have s: "three_phase ?s" "timers ?s = []" "Height ?s = 0" "NodeCache ?s = cache_New" by code_simp+
  have "ProposeHook ?s = Some hook_Propose" by (simp add: example_hook_defs)
  then obtain r s1 where p: "Propose ?s Background ?q = Inr (r, s1)" "timers s1 = []" "three_phase s1"
    using s by (auto simp: Propose_def ProposeHandler_def call_hook_def Let_def SetProgressForCommitPhase_def
        three_phase_def hook_Propose_def)
  let ?s2 = "s1\<lparr>timers := [0]\<rparr>"
  have pc: "Precommit s1 Background \<lparr>pcIndex = 0\<rparr> = Inr ((Some ack, None), ?s2)"
    using p by (simp add: Precommit_def PrecommitHandler_def)
  have "three_phase ?s2" using p(3) by (simp add: three_phase_def)
  then have t: "precommit_timeout mem_dbi ?s2 0 = Inr ?s2" by (rule timeout_unchanged)
  let ?s3 = "?s2\<lparr>timers := remove1 0 (timers ?s2)\<rparr>"
  have "0 \<in> set (timers ?s2)" by simp
  from stepped [OF stepped [OF stepped [OF started on_propose [OF p(1)]] on_precommit [OF pc]] on_timeout [OF this t]]
  have r: "node_run mem_dbi ?s [GotPropose ?q, GotPrecommit \<lparr>pcIndex = 0\<rparr>, TimerFired 0] ?s3" by simp
  from node_integrity [OF r mem_database s(4,2)] have "Height ?s3 = 0"
    using s(3) by (simp add: commits_acked_def)
  with r show ?thesis by blast
qed

end
