(* ===== verification/Command_Line.thy ===== *)
theory Command_Line
  imports Config Strconv
begin

text \<open>
  The command line of a node: the nine flags that \<^verbatim>\<open>config.Get\<close> registers, the loop of
  \<^verbatim>\<open>flag.Parse\<close> over the arguments, and the configuration that \<^verbatim>\<open>Get\<close> makes of them. The flag set
  of the process ends it at the first error, so an error here is an exit of the process.
\<close>

section \<open>The flags\<close>

datatype flag_error =
    HelpRequested
  | BadFlagSyntax string
  | FlagNotDefined string
  | FlagNeedsArgument string
  | InvalidFlagValue string string

definition bool_flags :: "string list" where
  "bool_flags = [''withtrace'']"

definition value_flags :: "string list" where
  "value_flags = [''role'', ''nodeaddr'', ''coordinator'', ''committype'', ''timeout'', ''dbpath'', ''followers'', ''whitelist'']"

text \<open>The \<^verbatim>\<open>Set\<close> method of the flag \<open>name\<close>.\<close>

definition flag_Set :: "string \<Rightarrow> string \<Rightarrow> Flags \<Rightarrow> flag_error + Flags" where
  "flag_Set name val f =
     (if name = ''role'' then Inr (f\<lparr>f_role := val\<rparr>)
      else if name = ''nodeaddr'' then Inr (f\<lparr>f_nodeaddr := val\<rparr>)
      else if name = ''coordinator'' then Inr (f\<lparr>f_coordinator := val\<rparr>)
      else if name = ''committype'' then Inr (f\<lparr>f_committype := val\<rparr>)
      else if name = ''timeout'' then
        (case parse_uint0 val of Uint n \<Rightarrow> Inr (f\<lparr>f_timeout := of_nat n\<rparr>) | _ \<Rightarrow> Inl (InvalidFlagValue name val))
      else if name = ''dbpath'' then Inr (f\<lparr>f_dbpath := val\<rparr>)
      else if name = ''withtrace'' then
        (case parse_bool val of Some b \<Rightarrow> Inr (f\<lparr>f_withtrace := b\<rparr>) | None \<Rightarrow> Inl (InvalidFlagValue name val))
      else if name = ''followers'' then Inr (f\<lparr>f_followers := val\<rparr>)
      else if name = ''whitelist'' then Inr (f\<lparr>f_whitelist := val\<rparr>)
      else Inl (FlagNotDefined name))"

section \<open>Parsing\<close>

text \<open>What one argument is: no flag, the terminator, a syntax error, or a flag with its value if it has one.\<close>

datatype flag_token = NotAFlag | Terminator | BadToken | FlagToken string "string option"

definition flag_token :: "string \<Rightarrow> flag_token" where
  "flag_token s =
     (if length s < 2 \<or> hd s \<noteq> CHR ''-'' then NotAFlag
      else if s = ''--'' then Terminator
      else let name = (if s ! 1 = CHR ''-'' then drop 2 s else drop 1 s)
        in if name = [] \<or> hd name = CHR ''-'' \<or> hd name = CHR ''='' then BadToken
           else let key = takeWhile (\<lambda>c. c \<noteq> CHR ''='') name
             in FlagToken key (if key = name then None else Some (drop (length key + 1) name)))"

fun flag_Parse :: "string list \<Rightarrow> Flags \<Rightarrow> flag_error + Flags \<times> string list" where
  "flag_Parse [] f = Inr (f, [])"
| "flag_Parse (s # args) f =
     (case flag_token s of
        NotAFlag \<Rightarrow> Inr (f, s # args)
      | Terminator \<Rightarrow> Inr (f, args)
      | BadToken \<Rightarrow> Inl (BadFlagSyntax s)
      | FlagToken name val \<Rightarrow>
          if \<not> Includes (bool_flags @ value_flags) name then
            Inl (if name = ''help'' \<or> name = ''h'' then HelpRequested else FlagNotDefined name)
          else if Includes bool_flags name then
            (case flag_Set name (case val of None \<Rightarrow> ''true'' | Some v \<Rightarrow> v) f of
               Inl err \<Rightarrow> Inl err
             | Inr f' \<Rightarrow> flag_Parse args f')
          else case val of
            Some v \<Rightarrow>
              (case flag_Set name v f of
                 Inl err \<Rightarrow> Inl err
               | Inr f' \<Rightarrow> flag_Parse args f')
          | None \<Rightarrow>
              (case args of
                 [] \<Rightarrow> Inl (FlagNeedsArgument name)
               | v # args' \<Rightarrow>
                   (case flag_Set name v f of
                      Inl err \<Rightarrow> Inl err
                    | Inr f' \<Rightarrow> flag_Parse args' f')))"

text \<open>\<^verbatim>\<open>Get\<close> on the arguments of the process\<close>

definition config_Get_args :: "string list \<Rightarrow> flag_error + Config" where
  "config_Get_args args =
     (case flag_Parse args default_flags of
        Inl err \<Rightarrow> Inl err
      | Inr (f, _) \<Rightarrow> Inr (config_Get f))"

section \<open>Writing a command line\<close>

text \<open>
  A flag can be given with one dash or two, and a flag that is not boolean with its value in the
  same argument or in the next.
\<close>

definition dash :: "bool \<Rightarrow> string" where
  "dash two = (if two then ''--'' else ''-'')"

definition print_flag :: "bool \<Rightarrow> bool \<Rightarrow> string \<Rightarrow> string \<Rightarrow> string list" where
  "print_flag two apart name val =
     (if apart \<and> name \<notin> set bool_flags then [dash two @ name, val] else [dash two @ name @ ''='' @ val])"

definition print_bool :: "bool \<Rightarrow> string" where
  "print_bool b = (if b then ''true'' else ''false'')"

definition print_flags :: "bool \<Rightarrow> bool \<Rightarrow> Flags \<Rightarrow> string list" where
  "print_flags two apart f = concat (map (\<lambda>(name, val). print_flag two apart name val)
     [(''role'', f_role f), (''nodeaddr'', f_nodeaddr f), (''coordinator'', f_coordinator f),
      (''committype'', f_committype f), (''timeout'', itoa (uint (f_timeout f))), (''dbpath'', f_dbpath f),
      (''withtrace'', print_bool (f_withtrace f)),
      (''followers'', f_followers f), (''whitelist'', f_whitelist f)])"

section \<open>Properties\<close>

lemma flag_token_flag:
  assumes "name \<noteq> []" and "hd name \<noteq> CHR ''-''" and "CHR ''='' \<notin> set name"
  shows "flag_token (dash two @ name) = FlagToken name None"
    and "flag_token (dash two @ name @ CHR ''='' # val) = FlagToken name (Some val)"
proof -
  have tw: "takeWhile (\<lambda>c. c \<noteq> CHR ''='') name = name"
    "takeWhile (\<lambda>c. c \<noteq> CHR ''='') (name @ CHR ''='' # val) = name"
    using assms(3) by (auto simp: takeWhile_append intro: takeWhile_eq_all_conv [THEN iffD2])
  obtain c cs where n: "name = c # cs" "c \<noteq> CHR ''-''" "c \<noteq> CHR ''=''" using assms by (cases name) auto
  show "flag_token (dash two @ name) = FlagToken name None"
    "flag_token (dash two @ name @ CHR ''='' # val) = FlagToken name (Some val)"
    using tw n by (simp_all add: flag_token_def dash_def)
qed

lemma flag_Parse_print_flag:
  assumes "name \<in> set (bool_flags @ value_flags)" and "flag_Set name val f = Inr f'"
  shows "flag_Parse (print_flag two apart name val @ args) f = flag_Parse args f'"
proof -
  have "name \<noteq> []" "hd name \<noteq> CHR ''-''" "CHR ''='' \<notin> set name"
    using assms(1) by (auto simp: bool_flags_def value_flags_def)
  note t = flag_token_flag [OF this]
  have "Includes (bool_flags @ value_flags) name" using assms(1) by simp
  then show ?thesis using assms(2) by (cases "Includes bool_flags name"; cases apart)
    (simp_all add: print_flag_def t del: Includes.simps)
qed

lemma flag_Set_simps [simp]:
  "flag_Set ''role'' v f = Inr (f\<lparr>f_role := v\<rparr>)"
  "flag_Set ''nodeaddr'' v f = Inr (f\<lparr>f_nodeaddr := v\<rparr>)"
  "flag_Set ''coordinator'' v f = Inr (f\<lparr>f_coordinator := v\<rparr>)"
  "flag_Set ''committype'' v f = Inr (f\<lparr>f_committype := v\<rparr>)"
  "flag_Set ''dbpath'' v f = Inr (f\<lparr>f_dbpath := v\<rparr>)"
  "flag_Set ''followers'' v f = Inr (f\<lparr>f_followers := v\<rparr>)"
  "flag_Set ''whitelist'' v f = Inr (f\<lparr>f_whitelist := v\<rparr>)"
  by (simp_all add: flag_Set_def)

lemma flag_Set_timeout [simp]: "flag_Set ''timeout'' (itoa (uint t)) f = Inr (f\<lparr>f_timeout := t\<rparr>)"
proof -
  have "itoa (uint t) = nat_digits (unat t)" using itoa_of_nat [of "unat t"] by simp
  moreover have "unat t < 2 ^ 64" using unsigned_less [of t] by simp
  ultimately show ?thesis by (simp add: flag_Set_def parse_uint0_nat_digits)
qed

lemma flag_Set_withtrace [simp]:
  "flag_Set ''withtrace'' (print_bool b) f = Inr (f\<lparr>f_withtrace := b\<rparr>)"
  by (simp add: flag_Set_def parse_bool_def print_bool_def)

lemma flag_Parse_print_flags:
  "flag_Parse (print_flags two apart f @ args) g = flag_Parse args f"
proof -
  note p = flag_Parse_print_flag [where two = two and apart = apart]
  have "flag_Parse (print_flags two apart f @ args) g = flag_Parse args
      \<lparr>f_role = f_role f, f_nodeaddr = f_nodeaddr f, f_coordinator = f_coordinator f, f_committype = f_committype f,
       f_timeout = f_timeout f, f_dbpath = f_dbpath f, f_withtrace = f_withtrace f, f_followers = f_followers f,
       f_whitelist = f_whitelist f\<rparr>"
    by (cases g) (simp add: print_flags_def p [OF _ flag_Set_simps(1)] p [OF _ flag_Set_simps(2)]
      p [OF _ flag_Set_simps(3)] p [OF _ flag_Set_simps(4)] p [OF _ flag_Set_simps(5)] p [OF _ flag_Set_simps(6)]
      p [OF _ flag_Set_simps(7)] p [OF _ flag_Set_timeout] p [OF _ flag_Set_withtrace] bool_flags_def value_flags_def)
  then show ?thesis by (cases f) simp
qed

text \<open>
  C36. Every setting of the nine flags can be given on the command line, with one dash or two and
  with the values after an equals sign or as the next arguments: \<^verbatim>\<open>Get\<close> makes of it the
  configuration of these settings, whatever the defaults are. The flag \<^verbatim>\<open>-config\<close>, which the comment of
  \<^verbatim>\<open>Get\<close> offers, ends the process.
\<close>

theorem command_line_roundtrip:
  "config_Get_args (print_flags two apart f) = Inr (config_Get f) \<and>
   config_Get_args (print_flags two apart f @ (''-config='' @ path) # args) = Inl (FlagNotDefined ''config'')"
proof -
  have "flag_token (''-config='' @ path) = FlagToken ''config'' (Some path)"
    using flag_token_flag(2) [of "''config''" False path] by (simp add: dash_def)
  then have "flag_Parse ((''-config='' @ path) # args) f = Inl (FlagNotDefined ''config'')"
    by (simp add: bool_flags_def value_flags_def)
  then show ?thesis
    using flag_Parse_print_flags [of two apart f "[]" default_flags]
      flag_Parse_print_flags [of two apart f "(''-config='' @ path) # args" default_flags]
    by (simp add: config_Get_args_def)
qed

end
