(* ===== verification/Startup.thy ===== *)
theory Startup
  imports Client Node_Steps Command_Line
begin

text \<open>
  \<^verbatim>\<open>Run\<close> and \<^verbatim>\<open>Stop\<close> of \<^verbatim>\<open>server/server.go\<close>, the service description of
  \<^verbatim>\<open>proto/schema_grpc.pb.go\<close>, and \<^verbatim>\<open>main.go\<close>: a node from its command line to its end.

  Listening, the gRPC server and the signal are outside the repository. What happens between the
  start of the server and the signal is a list of arrivals: calls, in the order in which their
  handlers run, and timeouts of the goroutines of \<^verbatim>\<open>Precommit\<close>. What gRPC does with a call is the
  parameter \<open>on_call\<close>.
\<close>

section \<open>Interceptors and calls\<close>

datatype unary_interceptor = IWhiteListChecker | IPrecommitBlockALL | IPrecommitBlockCoordinator

definition run_interceptor :: "(go_int \<Rightarrow> 'w \<Rightarrow> 'w) \<Rightarrow> unary_interceptor \<Rightarrow> ('d, 'w, 'q, 'r) interceptor" where
  "run_interceptor sleep i =
     (case i of
        IWhiteListChecker \<Rightarrow> WhiteListChecker
      | IPrecommitBlockALL \<Rightarrow> PrecommitBlockALL sleep
      | IPrecommitBlockCoordinator \<Rightarrow> PrecommitBlockCoordinator sleep)"

text \<open>A call: its method, its context, and the request that the decoder gives.\<close>

datatype call =
    CallPropose Context "error + ProposeRequest"
  | CallPrecommit Context "error + PrecommitRequest"
  | CallCommit Context "error + CommitRequest"
  | CallPut Context "error + Entry"
  | CallGet Context "error + Msg"
  | CallNodeInfo Context "error + unit"

text \<open>What a call leaves, without the reply that is sent to the caller.\<close>

definition after_call :: "('r reply \<times> 'd Server \<times> 'w) go option \<Rightarrow> ('d Server \<times> 'w) go option" where
  "after_call r = map_option (map_sum id snd) r"

definition Commit_serviceDesc ::
    "(go_int \<Rightarrow> 'w \<Rightarrow> 'w) \<Rightarrow> 'w grpc \<Rightarrow> 'd Database \<Rightarrow> unary_interceptor option \<Rightarrow> call \<Rightarrow>
       'd Server \<times> 'w \<Rightarrow> ('d Server \<times> 'w) go option" where
  "Commit_serviceDesc sleep g dbi ic c sw =
     (case c of
        CallPropose ctx dec \<Rightarrow> after_call (Commit_Propose_Handler ctx dec (map_option (run_interceptor sleep) ic) sw)
      | CallPrecommit ctx dec \<Rightarrow> after_call (Commit_Precommit_Handler ctx dec (map_option (run_interceptor sleep) ic) sw)
      | CallCommit ctx dec \<Rightarrow> after_call (Commit_Commit_Handler dbi ctx dec (map_option (run_interceptor sleep) ic) sw)
      | CallPut ctx dec \<Rightarrow> after_call (Commit_Put_Handler g dbi ctx dec (map_option (run_interceptor sleep) ic) sw)
      | CallGet ctx dec \<Rightarrow> after_call (Commit_Get_Handler dbi ctx dec (map_option (run_interceptor sleep) ic) sw)
      | CallNodeInfo ctx dec \<Rightarrow> after_call (Commit_NodeInfo_Handler ctx dec (map_option (run_interceptor sleep) ic) sw))"

text \<open>
  The methods of \<^verbatim>\<open>UnimplementedCommitServer\<close>. \<^verbatim>\<open>Server\<close> embeds it and has all six methods itself, so
  no call reaches them.
\<close>

definition not_implemented :: "string \<Rightarrow> 'r reply" where
  "not_implemented name = (None, Some (StatusError Unimplemented (''method '' @ name @ '' not implemented'')))"

definition Unimplemented_Propose :: "Context \<Rightarrow> ProposeRequest \<Rightarrow> Response reply" where
  "Unimplemented_Propose ctx req = not_implemented ''Propose''"

definition Unimplemented_Precommit :: "Context \<Rightarrow> PrecommitRequest \<Rightarrow> Response reply" where
  "Unimplemented_Precommit ctx req = not_implemented ''Precommit''"

definition Unimplemented_Commit :: "Context \<Rightarrow> CommitRequest \<Rightarrow> Response reply" where
  "Unimplemented_Commit ctx req = not_implemented ''Commit''"

definition Unimplemented_Put :: "Context \<Rightarrow> Entry \<Rightarrow> Response reply" where
  "Unimplemented_Put ctx req = not_implemented ''Put''"

definition Unimplemented_Get :: "Context \<Rightarrow> Msg \<Rightarrow> Value reply" where
  "Unimplemented_Get ctx req = not_implemented ''Get''"

definition Unimplemented_NodeInfo :: "Context \<Rightarrow> Info reply" where
  "Unimplemented_NodeInfo ctx = not_implemented ''NodeInfo''"

section \<open>Run and Stop\<close>

text \<open>
  The gRPC server that \<^verbatim>\<open>Run\<close> makes: the chained interceptors, whether a stats handler is set, and
  the names of the registered services.
\<close>

record grpc_server =
  gs_interceptors :: "unary_interceptor list"
  gs_stats :: bool
  gs_services :: "string list"

definition RegisterCommitServer :: "grpc_server \<Rightarrow> grpc_server" where
  "RegisterCommitServer gs = gs\<lparr>gs_services := gs_services gs @ [''schema.Commit'']\<rparr>"

datatype process_exit =
    Exited nat
  | FatalExit string error
  | PanickedWith error
  | Crashed go_panic
  | Finished

text \<open>\<open>Inl\<close> for \<^verbatim>\<open>log.Fatalf\<close>, which ends the process.\<close>

definition Run ::
    "(string \<Rightarrow> 'w \<Rightarrow> (error + 'l) \<times> 'w) \<Rightarrow> 'd Server \<Rightarrow> unary_interceptor list \<Rightarrow> 'w \<Rightarrow>
       (process_exit + grpc_server \<times> 'l) \<times> 'w" where
  "Run listen s opts w =
     (let gs = (if WithTrace (srv_Config s)
            then \<lparr>gs_interceptors = opts, gs_stats = True, gs_services = []\<rparr>
            else \<lparr>gs_interceptors = opts, gs_stats = False, gs_services = []\<rparr>);
          gs1 = RegisterCommitServer gs
      in case listen (Addr s) w of
           (Inl err, w') \<Rightarrow> (Inl (FatalExit ''failed to listen: '' err), w')
         | (Inr l, w') \<Rightarrow> (Inr (gs1, l), w'))"

text \<open>\<^verbatim>\<open>GracefulStop\<close> is a parameter; a failing \<^verbatim>\<open>Close\<close> is only logged.\<close>

definition Stop ::
    "(grpc_server \<Rightarrow> 'w \<Rightarrow> 'w) \<Rightarrow> 'd Database \<Rightarrow> grpc_server \<Rightarrow> 'd Server \<Rightarrow> 'w \<Rightarrow> 'd Server \<times> 'w" where
  "Stop GracefulStop dbi gs s w =
     (let w' = GracefulStop gs w
      in case DB_Close dbi (DB s) of (err, d) \<Rightarrow> (s\<lparr>DB := d\<rparr>, w'))"

section \<open>Main\<close>

datatype arrival = Call call | Timeout_of uint64

definition arrive ::
    "(call \<Rightarrow> 'd Server \<times> 'w \<Rightarrow> ('d Server \<times> 'w) go option) \<Rightarrow> 'd Database \<Rightarrow> arrival \<Rightarrow>
       'd Server \<times> 'w \<Rightarrow> ('d Server \<times> 'w) go option" where
  "arrive on_call dbi a sw =
     (case a of
        Call c \<Rightarrow> on_call c sw
      | Timeout_of index \<Rightarrow>
          if index \<in> set (timers (fst sw)) then
            Some (gbind (precommit_timeout dbi (fst sw) index)
              (\<lambda>s'. Inr (s'\<lparr>timers := remove1 index (timers s')\<rparr>, snd sw)))
          else Some (Inr sw))"

fun serve ::
    "(call \<Rightarrow> 'd Server \<times> 'w \<Rightarrow> ('d Server \<times> 'w) go option) \<Rightarrow> 'd Database \<Rightarrow> arrival list \<Rightarrow>
       'd Server \<times> 'w \<Rightarrow> ('d Server \<times> 'w) go option" where
  "serve on_call dbi [] sw = Some (Inr sw)"
| "serve on_call dbi (a # as) sw =
     (case arrive on_call dbi a sw of
        Some (Inr sw') \<Rightarrow> serve on_call dbi as sw'
      | r \<Rightarrow> r)"

text \<open>The exit status of a process whose flags cannot be parsed.\<close>

definition exit_status :: "flag_error \<Rightarrow> nat" where
  "exit_status e = (if e = HelpRequested then 0 else 2)"

text \<open>
  The process, with the server that it leaves once there is one. \<open>None\<close> stands for a process that
  does not end, because a call does not return and \<^verbatim>\<open>GracefulStop\<close> waits for it.
\<close>

definition main ::
    "(string \<Rightarrow> string \<Rightarrow> error option) \<Rightarrow> (string \<Rightarrow> bool \<Rightarrow> error + conn) \<Rightarrow> (string \<Rightarrow> error + 'd) \<Rightarrow>
     (string \<Rightarrow> 'w \<Rightarrow> (error + 'l) \<times> 'w) \<Rightarrow> (grpc_server \<Rightarrow> call \<Rightarrow> 'd Server \<times> 'w \<Rightarrow> ('d Server \<times> 'w) go option) \<Rightarrow>
     (grpc_server \<Rightarrow> 'w \<Rightarrow> 'w) \<Rightarrow> 'd Database \<Rightarrow> string list \<Rightarrow> arrival list \<Rightarrow> 'w \<Rightarrow>
       (process_exit \<times> 'd Server option \<times> 'w) option" where
  "main mk_tracer dial db_new listen on_call GracefulStop dbi args arrivals w =
     (case config_Get_args args of
        Inl e \<Rightarrow> Some (Exited (exit_status e), None, w)
      | Inr conf \<Rightarrow>
          (case NewCommitServer mk_tracer dial db_new conf hooks_Get of
             Inl err \<Rightarrow> Some (PanickedWith err, None, w)
           | Inr s \<Rightarrow>
               (case Run listen s [IWhiteListChecker] w of
                  (Inl e, w1) \<Rightarrow> Some (e, Some s, w1)
                | (Inr (gs, l), w1) \<Rightarrow>
                    (case serve (on_call gs) dbi arrivals (s, w1) of
                       None \<Rightarrow> None
                     | Some (Inl p) \<Rightarrow> Some (Crashed p, None, w1)
                     | Some (Inr (s2, w2)) \<Rightarrow>
                         (case Stop GracefulStop dbi gs s2 w2 of
                            (s3, w3) \<Rightarrow> Some (Finished, Some s3, w3))))))"

section \<open>What a node may hold\<close>

text \<open>
  The configuration of a node stays as it is, timers run in three-phase mode only, every cached pair
  is in \<open>P\<close>, and every key of the database has the value it has in \<open>d0\<close> or one that \<open>P\<close> has for it.
\<close>

definition node_ok :: "'d Database \<Rightarrow> Config \<Rightarrow> 'd \<Rightarrow> (string \<times> bytes) set \<Rightarrow> 'd Server \<Rightarrow> bool" where
  "node_ok dbi conf d0 P s \<longleftrightarrow>
     srv_Config s = conf \<and> timers_ok s \<and> (\<forall>i kv. node_cache s i = Some kv \<longrightarrow> kv \<in> P) \<and>
     (\<forall>k. DB_Get dbi k (DB s) = DB_Get dbi k d0 \<or> (\<exists>v. (k, v) \<in> P \<and> DB_Get dbi k (DB s) = Inr v))"

lemma node_ok_monitor_only: "monitor_only s s' \<Longrightarrow> node_ok dbi conf d0 P s \<Longrightarrow> node_ok dbi conf d0 P s'"
  by (auto simp: monitor_only_def node_ok_def timers_ok_def three_phase_def node_cache_def)

lemma node_ok_upd [simp]:
  "node_ok dbi conf d0 P (s\<lparr>Height := h\<rparr>) = node_ok dbi conf d0 P s"
  "node_ok dbi conf d0 P (s\<lparr>monitor := m\<rparr>) = node_ok dbi conf d0 P s"
  by (auto simp: node_ok_def timers_ok_def three_phase_def node_cache_def)

lemma node_ok_cached:
  "node_ok dbi conf d0 P s \<Longrightarrow> (k, v) \<in> P \<Longrightarrow> node_ok dbi conf d0 P (s\<lparr>NodeCache := cache_Set (NodeCache s) i k v\<rparr>)"
  by (auto simp: node_ok_def timers_ok_def three_phase_def node_cache_def)

lemma node_ok_stored:
  assumes "database (DB_Put dbi) (DB_Get dbi)" and "node_ok dbi conf d0 P s" and "(k, v) \<in> P" and "DB_Put dbi k v (DB s) = (r, d)"
  shows "node_ok dbi conf d0 P (s\<lparr>DB := d\<rparr>)"
proof -
  have "DB_Get dbi k' d = DB_Get dbi k' (DB s) \<or> k' = k \<and> DB_Get dbi k' d = Inr v" for k'
    using assms(4) database.put_get [OF assms(1)] database.put_other [OF assms(1)] database.put_error [OF assms(1)]
    by (cases r; cases "k' = k") auto
  then show ?thesis using assms(2,3)
    by (simp add: node_ok_def timers_ok_def three_phase_def node_cache_def) metis
qed

section \<open>\<^verbatim>\<open>Put\<close> on the node itself\<close>

lemma mon_aborted_monitor_only: "mon_aborted pid s gs = Inr (s', gs') \<Longrightarrow> monitor_only s s'"
  unfolding mon_aborted_def by (auto elim!: gbind_InrE dest!: step_monitor_only intro: monitor_only_trans)

lemmas mon_blocks_only = mon_monitor_only mon_aborted_monitor_only put_start_monitor_only

lemma propose_once_ok:
  assumes "node_ok dbi conf d0 P s" and "propose_once g pid f ctx ct req s gs w = Inr (reply, s1, gs1, w1)"
  shows "node_ok dbi conf d0 P s1"
proof -
  obtain s' gs' where m: "mon_propose_sent pid s gs = Inr (s', gs')"
    using assms(2) by (auto simp: propose_once_def Let_def elim!: gbind_InrE)
  from node_ok_monitor_only [OF mon_monitor_only(1) [OF m] assms(1)] show ?thesis
    using assms(2) m by (auto simp: propose_once_def Let_def split: prod.splits option.splits if_splits)
qed

definition loop_ok ::
    "'d Database \<Rightarrow> Config \<Rightarrow> 'd \<Rightarrow> (string \<times> bytes) set \<Rightarrow> (Response reply \<times> 'd Server \<times> State \<times> 'w) go \<Rightarrow> bool" where
  "loop_ok dbi conf d0 P r = (case r of Inl _ \<Rightarrow> True | Inr (_, s, _, _) \<Rightarrow> node_ok dbi conf d0 P s)"

lemma propose_loop_ok:
  assumes "node_ok dbi conf d0 P s" and "propose_loop g pid f ctx ct req s gs w = Some (Inr (reply, s1, gs1, w1))"
  shows "node_ok dbi conf d0 P s1"
proof -
  have "loop_ok dbi conf d0 P (Inr (reply, s1, gs1, w1))"
    by (rule propose_loop_rule [OF assms(2), where I = "\<lambda>s gs w. node_ok dbi conf d0 P s" and Q = "loop_ok dbi conf d0 P"])
      (auto simp: loop_ok_def assms(1) split: sum.splits dest: propose_once_ok)
  then show ?thesis by (simp add: loop_ok_def)
qed

lemma propose_reply_ok:
  assumes "node_ok dbi conf d0 P s" and "(eKey req, eValue req) \<in> P"
    and "propose_reply pid req response err s gs = Inr (ret, s1, gs1)"
  shows "node_ok dbi conf d0 P s1"
  using assms(3) node_ok_cached [OF assms(1,2), of "Height s"] assms(1)
  by (auto simp: propose_reply_def Let_def elim!: gbind_InrE split: option.splits if_splits
      dest!: mon_blocks_only intro: node_ok_monitor_only)

lemma propose_phase_ok:
  assumes "node_ok dbi conf d0 P s" and "(eKey req, eValue req) \<in> P"
    and "propose_phase g ct req pid fs ctx s gs w = Some (Inr (ret, s1, gs1, ctx1, w1))"
  shows "node_ok dbi conf d0 P s1"
  using assms(1,3)
proof (induction fs arbitrary: pid ctx s gs w)
  case (Cons f fs)
  from Cons.prems(2) obtain resp err s2 gs2 w2 ret2 s3 gs3 where
    l: "propose_loop g pid f (put_context s ctx) ct req s gs w = Some (Inr ((resp, err), s2, gs2, w2))" and
    r: "propose_reply pid req resp err s2 gs2 = Inr (ret2, s3, gs3)"
    by (auto split: option.splits sum.splits prod.splits)
  have "node_ok dbi conf d0 P s3"
    using propose_reply_ok [OF propose_loop_ok [OF Cons.prems(1) l] assms(2) r] .
  then show ?case using Cons.IH Cons.prems(2) l r by (auto split: option.splits)
qed simp

lemma commit_phase_ok:
  "node_ok dbi conf d0 P s \<Longrightarrow> commit_phase g pid fs ctx s gs w = Inr (ret, s1, gs1, w1) \<Longrightarrow> node_ok dbi conf d0 P s1"
proof (induction fs arbitrary: pid s gs w)
  case (Cons f fs)
  from Cons.prems(2) obtain s2 gs2 where m: "mon_commit_sent pid s gs = Inr (s2, gs2)" by (auto elim!: gbind_InrE)
  have ok: "node_ok dbi conf d0 P s2" by (rule node_ok_monitor_only [OF mon_monitor_only(3) [OF m] Cons.prems(1)])
  have "node_ok dbi conf d0 P s1" if "mon_committed pid s2 gs2 = Inr (s3, gs3)"
      "commit_phase g (Suc pid) fs ctx s3 gs3 w3 = Inr (ret, s1, gs1, w1)" for s3 gs3 w3
    using Cons.IH [OF node_ok_monitor_only [OF mon_monitor_only(4) [OF that(1)] ok] that(2)] .
  then show ?case using Cons.prems(2) m ok
    by (auto elim!: gbind_InrE split: prod.splits option.splits)
qed simp

lemma put_persist_ok:
  assumes "database (DB_Put dbi) (DB_Get dbi)" and "node_ok dbi conf d0 P s"
    and "put_persist g dbi s gs ctx w = Inr (reply, s1, w1)"
  shows "node_ok dbi conf d0 P s1"
proof (cases "cache_lookup (NodeCache s) (Height s)")
  case None
  then show ?thesis using assms(2,3) by (simp add: put_persist_def cache_Get_None)
next
  case (Some kv)
  then obtain k v where kv: "cache_lookup (NodeCache s) (Height s) = Some (k, v)" by (cases kv) auto
  obtain r d where d: "DB_Put dbi k v (DB s) = (r, d)" by fastforce
  have "(k, v) \<in> P" using kv assms(2) by (auto simp: node_ok_def node_cache_def)
  note ok = node_ok_stored [OF assms(1,2) this d]
  have "node_ok dbi conf d0 P s2" if "commit_phase g 0 (Followers s) ctx (s\<lparr>DB := d\<rparr>) gs w = Inr (ret, s2, gs2, w2)"
    for ret s2 gs2 w2 using commit_phase_ok [OF ok that] .
  then show ?thesis using assms(3) kv d ok
    by (auto simp: put_persist_def cache_Get_Some put_finish_def incr_Height_def Let_def elim!: gbind_InrE
        split: option.splits prod.splits)
qed

lemma Put_ok:
  assumes "database (DB_Put dbi) (DB_Get dbi)" and "node_ok dbi conf d0 P s" and "(eKey req, eValue req) \<in> P"
    and "Put g dbi s ctx req w = Some (Inr (reply, s1, w1))"
  shows "node_ok dbi conf d0 P s1"
proof -
  obtain t gs where t: "put_start s = Inr (t, gs)" using assms(4) by (auto simp: Put_def split: sum.splits)
  have ok: "node_ok dbi conf d0 P t" by (rule node_ok_monitor_only [OF mon_blocks_only(6) [OF t] assms(2)])
  from assms(4) t obtain ret s2 gs2 ctx2 w2 where
    p: "propose_phase g (put_ctype s) req 0 (Followers t) ctx t gs w = Some (Inr (ret, s2, gs2, ctx2, w2))"
    by (auto simp: Put_def split: option.splits sum.splits)
  have ok2: "node_ok dbi conf d0 P s2" by (rule propose_phase_ok [OF ok assms(3) p])
  show ?thesis using assms(4) t p ok2
    by (auto simp: Put_def put_decide_def elim!: gbind_InrE split: option.splits
        dest: put_persist_ok [OF assms(1) ok2])
qed

section \<open>Whole runs\<close>

text \<open>A context whose peer is a host of the list \<open>hosts\<close>, and the pairs that such callers proposed or put.\<close>

definition from_host :: "string list \<Rightarrow> Context \<Rightarrow> bool" where
  "from_host hosts ctx =
     (case ctx_peer ctx of
        None \<Rightarrow> False
      | Some addr \<Rightarrow> (case SplitHostPort addr of Inl _ \<Rightarrow> False | Inr (host, _) \<Rightarrow> host \<in> set hosts))"

lemma whitelisted_from_host: "whitelisted s ctx = from_host (Whitelist (srv_Config s)) ctx"
  by (simp add: whitelisted_def from_host_def)

definition admitted1 :: "string list \<Rightarrow> arrival \<Rightarrow> (string \<times> bytes) set" where
  "admitted1 hosts a =
     (case a of
        Call (CallPropose ctx (Inr req)) \<Rightarrow> if from_host hosts ctx then {(pKey req, pValue req)} else {}
      | Call (CallPut ctx (Inr req)) \<Rightarrow> if from_host hosts ctx then {(eKey req, eValue req)} else {}
      | _ \<Rightarrow> {})"

definition admitted :: "string list \<Rightarrow> arrival list \<Rightarrow> (string \<times> bytes) set" where
  "admitted hosts as = (\<Union>a\<in>set as. admitted1 hosts a)"

lemma after_call_Inr [simp]: "after_call r = Some (Inr sw') \<longleftrightarrow> (\<exists>reply. r = Some (Inr (reply, sw')))"
  by (cases r; cases "the r") (auto simp: after_call_def)

lemma unary_handler_cases:
  assumes "unary_handler m srv ctx dec (Some WhiteListChecker) sw = Some (Inr (reply, sw'))"
  shows "sw' = sw \<or> (\<exists>q. dec = Inr q \<and> from_host (Whitelist (srv_Config (fst sw))) ctx \<and>
    srv ctx q sw = Some (Inr (reply, sw')))"
proof (cases dec)
  case (Inr q)
  show ?thesis
  proof (cases "whitelisted (fst sw) ctx")
    case True
    then show ?thesis
      using assms Inr by (auto simp: unary_handler_def WhiteListChecker_pass whitelisted_from_host)
  next
    case False
    from WhiteListChecker_block [OF False, of q m srv] obtain e where
      "WhiteListChecker ctx q m srv sw = Some (Inr ((None, Some e), sw))" by blast
    then show ?thesis using assms Inr by (simp add: unary_handler_def)
  qed
qed (use assms in \<open>simp add: unary_handler_def rpc_error_def\<close>)

lemma local_call_Inr: "local_call f (s, w) = Some (Inr (reply, s', w')) \<longleftrightarrow> f s = Inr (reply, s') \<and> w' = w"
  by (cases "f s") (auto simp: local_call_def)

lemma Propose_Config: "Propose s ctx req = Inr (reply, s') \<Longrightarrow> srv_Config s' = srv_Config s"
  by (auto simp: Propose_def ProposeHandler_def SetProgressForCommitPhase_def Let_def gbind_eq_Inr split: if_splits)

lemma Propose_ok:
  assumes "node_ok dbi conf d0 P s" and "(pKey req, pValue req) \<in> P" and "Propose s ctx req = Inr (reply, s')"
  shows "node_ok dbi conf d0 P s'"
proof -
  have "node_cache s' i = node_cache s i \<or> node_cache s' i = Some (pKey req, pValue req)" "DB s' = DB s" for i
    using Propose_cases [OF assms(3)] by auto
  then show ?thesis
    using assms(1,2) Propose_Config [OF assms(3)] Propose_timers_ok [OF assms(3)] unfolding node_ok_def by (metis option.inject)
qed

lemma Precommit_ok:
  "node_ok dbi conf d0 P s \<Longrightarrow> Precommit s ctx req = Inr (reply, s') \<Longrightarrow> node_ok dbi conf d0 P s'"
  using Precommit_cases [of s ctx req reply s'] Precommit_timers_ok [of s ctx req reply s']
  by (auto simp: node_ok_def Precommit_def PrecommitHandler_def split: if_splits)

lemma Commit_ok:
  assumes "database (DB_Put dbi) (DB_Get dbi)" and "node_ok dbi conf d0 P s" and "Commit dbi s ctx req = Inr (reply, s')"
  shows "node_ok dbi conf d0 P s'"
proof -
  note eff = Commit_cases [OF assms(3)]
  have "node_cache s' i = node_cache s i \<or> node_cache s' i = None" for i using eff by (simp add: commit_effect_def)
  then have "node_cache s' i = Some kv \<Longrightarrow> kv \<in> P" for i kv
    using assms(2) unfolding node_ok_def by (metis option.distinct(1))
  moreover have "DB_Get dbi k (DB s') = DB_Get dbi k d0 \<or> (\<exists>v. (k, v) \<in> P \<and> DB_Get dbi k (DB s') = Inr v)" for k
    using commit_effect_Get [OF assms(1) eff, of k] assms(2) unfolding node_ok_def by metis
  ultimately show ?thesis
    using assms(2) Commit_timers [OF assms(3)] Commit_timers_ok [OF assms(3)] by (auto simp: node_ok_def)
qed

text \<open>A call behind the whitelist keeps the invariant, if what it brings is in \<open>P\<close> in case it is admitted.\<close>

lemma call_ok:
  assumes "database (DB_Put dbi) (DB_Get dbi)" and "node_ok dbi conf d0 P s"
    and "admitted1 (Whitelist conf) (Call c) \<subseteq> P"
    and "Commit_serviceDesc sleep g dbi (Some IWhiteListChecker) c (s, w) = Some (Inr (s', w'))"
  shows "node_ok dbi conf d0 P s'"
proof -
  have conf: "srv_Config s = conf" using assms(2) by (simp add: node_ok_def)
  note defs = Commit_serviceDesc_def run_interceptor_def Commit_Propose_Handler_def Commit_Precommit_Handler_def
    Commit_Commit_Handler_def Commit_Put_Handler_def Commit_Get_Handler_def Commit_NodeInfo_Handler_def
  show ?thesis
    using assms(3,4) assms(2)
    by (cases c) (auto simp: defs conf admitted1_def local_call_Inr dest!: unary_handler_cases
      intro: Propose_ok [OF assms(2)] Precommit_ok [OF assms(2)] Commit_ok [OF assms(1,2)] Put_ok [OF assms(1,2)])
qed

lemma serve_ok:
  assumes "database (DB_Put dbi) (DB_Get dbi)" and "node_ok dbi conf d0 P s" and "admitted (Whitelist conf) as \<subseteq> P"
    and "serve (Commit_serviceDesc sleep g dbi (Some IWhiteListChecker)) dbi as (s, w) = Some (Inr (s', w'))"
  shows "node_ok dbi conf d0 P s'"
  using assms(2,3,4)
proof (induction as arbitrary: s w)
  case (Cons a as)
  from Cons.prems(3) obtain s1 w1 where
    a: "arrive (Commit_serviceDesc sleep g dbi (Some IWhiteListChecker)) dbi a (s, w) = Some (Inr (s1, w1))" and
    r: "serve (Commit_serviceDesc sleep g dbi (Some IWhiteListChecker)) dbi as (s1, w1) = Some (Inr (s', w'))"
    by (auto split: option.splits sum.splits)
  have "node_ok dbi conf d0 P s1"
  proof (cases a)
    case (Call c)
    then show ?thesis using a Cons.prems(1,2) call_ok [OF assms(1) Cons.prems(1), of c]
      by (simp add: arrive_def admitted_def)
  next
    case (Timeout_of i)
    show ?thesis
    proof (cases "i \<in> set (timers s)")
      case True
      then have "three_phase s" using Cons.prems(1) by (auto simp: node_ok_def timers_ok_def)
      then show ?thesis using a True Timeout_of Cons.prems(1) timeout_unchanged [of s dbi i]
        by (auto simp: arrive_def node_ok_def timers_ok_def three_phase_def node_cache_def)
    qed (use a Timeout_of Cons.prems(1) in \<open>simp add: arrive_def\<close>)
  qed
  with Cons.IH [OF this _ r] Cons.prems(2) show ?case by (simp add: admitted_def)
qed simp

text \<open>
  C6. A node from its command line to its end. Let gRPC pass each call through the interceptor that
  \<^verbatim>\<open>Run\<close> has chained to the handler of the registered service. When the process ends because of a
  signal, then whatever calls arrived, in whatever order and with whatever timeouts between them,
  the database that \<^verbatim>\<open>Stop\<close> closes holds under each key what it held when it was opened, or a
  value that a caller from a host of the whitelist of the command line proposed or put for that
  key.
\<close>

theorem main_admits_whitelisted:
  assumes "main mk dial db_new listen on_call GracefulStop dbi args arrivals w = Some (Finished, so, w')"
    and "database (DB_Put dbi) (DB_Get dbi)"
    and "\<And>gs ic c sw. gs_interceptors gs = [ic] \<Longrightarrow> ''schema.Commit'' \<in> set (gs_services gs) \<Longrightarrow>
      on_call gs c sw = Commit_serviceDesc sleep g dbi (Some ic) c sw"
  shows "\<exists>conf d0 d s. config_Get_args args = Inr conf \<and> db_new (cfg_DBPath conf) = Inr d0 \<and>
    so = Some s \<and> DB s = snd (DB_Close dbi d) \<and>
    (\<forall>k. DB_Get dbi k d = DB_Get dbi k d0 \<or>
       (\<exists>v. (k, v) \<in> admitted (Whitelist conf) arrivals \<and> DB_Get dbi k d = Inr v))"
proof -
  from assms(1) obtain conf s0 gs l w1 s2 w2 where
    c: "config_Get_args args = Inr conf" and
    n: "NewCommitServer mk dial db_new conf hooks_Get = Inr s0" and
    r: "Run listen s0 [IWhiteListChecker] w = (Inr (gs, l), w1)" and
    v: "serve (on_call gs) dbi arrivals (s0, w1) = Some (Inr (s2, w2))" and
    t: "so = Some (fst (Stop GracefulStop dbi gs s2 w2))"
    by (auto simp: main_def Run_def Let_def split: sum.splits option.splits prod.splits)
  obtain d0 where
    d: "db_new (cfg_DBPath conf) = Inr d0" "DB s0 = d0" "NodeCache s0 = cache_New" "timers s0 = []"
      "Whitelist (srv_Config s0) = Whitelist conf" by (rule NewCommitServer_InrE [OF n]) auto
  have "gs_interceptors gs = [IWhiteListChecker]" "''schema.Commit'' \<in> set (gs_services gs)"
    using r by (auto simp: Run_def RegisterCommitServer_def Let_def split: prod.splits sum.splits if_splits)
  then have "on_call gs = Commit_serviceDesc sleep g dbi (Some IWhiteListChecker)" using assms(3) by blast
  moreover have "node_ok dbi (srv_Config s0) d0 (admitted (Whitelist conf) arrivals) s0"
    using d by (simp add: node_ok_def timers_ok_def node_cache_def)
  ultimately have "node_ok dbi (srv_Config s0) d0 (admitted (Whitelist conf) arrivals) s2"
    using serve_ok [OF assms(2), of "srv_Config s0" d0 "admitted (Whitelist conf) arrivals" s0 arrivals sleep g w1 s2 w2] v d(5)
    by simp
  moreover have "DB (fst (Stop GracefulStop dbi gs s2 w2)) = snd (DB_Close dbi (DB s2))"
    by (simp add: Stop_def Let_def split: prod.splits)
  ultimately show ?thesis using c d(1) t unfolding node_ok_def by blast
qed

text \<open>
  A follower in two-phase mode. A caller on the same host proposes and commits a value; one on
  another host proposes a value for another key, whose commit fails.
\<close>

definition example_arrivals :: "arrival list" where
  "example_arrivals =
     (let local = Background\<lparr>ctx_peer := Some ''127.0.0.1:40000''\<rparr>; foreign = Background\<lparr>ctx_peer := Some ''10.0.0.9:40000''\<rparr>
      in [Call (CallPropose local (Inr (proposal TWO_PHASE_COMMIT example_entry 0))),
          Call (CallPropose foreign (Inr (proposal TWO_PHASE_COMMIT \<lparr>eKey = ''key2'', eValue = [9]\<rparr> 1))),
          Call (CallCommit local (Inr \<lparr>cIndex = 0, cIsRollback = False\<rparr>)),
          Call (CallCommit local (Inr \<lparr>cIndex = 1, cIsRollback = False\<rparr>))])"

definition silent_grpc :: "unit grpc" where
  "silent_grpc =
     \<lparr>invoke_Propose = (\<lambda>cc ctx req w. (Inl unavailable, w)), invoke_Precommit = (\<lambda>cc ctx req w. (Inl unavailable, w)),
      invoke_Commit = (\<lambda>cc ctx req w. (Inl unavailable, w)), invoke_Put = (\<lambda>cc ctx req w. (Inl unavailable, w)),
      invoke_Get = (\<lambda>cc ctx req w. (Inl unavailable, w)), invoke_NodeInfo = (\<lambda>cc ctx w. (Inl unavailable, w))\<rparr>"

definition example_main :: "(process_exit \<times> (string, bytes) gomap Server option \<times> unit) option" where
  "example_main =
     main (\<lambda>_ _. None) (\<lambda>addr _. Inr addr) (db_New mem_badger) (\<lambda>addr w. (Inr addr, w))
       (\<lambda>gs. Commit_serviceDesc (\<lambda>_ w. w) silent_grpc mem_dbi (Some (hd (gs_interceptors gs)))) (\<lambda>_ w. w) mem_dbi
       [''-committype'', ''two-phase''] example_arrivals ()"

theorem main_admits_whitelisted_witness:
  "\<exists>s. example_main = Some (Finished, Some s, ()) \<and>
     DB_Get mem_dbi ''key1'' (DB s) = Inr [118, 49] \<and> DB_Get mem_dbi ''key2'' (DB s) = DB_Get mem_dbi ''key2'' gm_empty"
proof -
  have "(case example_main of Some (e, Some s, _) \<Rightarrow> e = Finished \<and> DB_Get mem_dbi ''key1'' (DB s) = Inr [118, 49] | _ \<Rightarrow> False)"
    by code_simp
  then obtain s where s: "example_main = Some (Finished, Some s, ())" "DB_Get mem_dbi ''key1'' (DB s) = Inr [118, 49]"
    by (auto split: option.splits)
  have a: "admitted [''127.0.0.1''] example_arrivals = {(''key1'', [118, 49])}" by code_simp
  have w: "config_Get_args [''-committype'', ''two-phase''] = Inr conf \<Longrightarrow> Whitelist conf = [''127.0.0.1'']" for conf
  proof -
    have "(case config_Get_args [''-committype'', ''two-phase''] of Inr conf \<Rightarrow> Whitelist conf = [''127.0.0.1''] | _ \<Rightarrow> False)"
      by code_simp
    then show "config_Get_args [''-committype'', ''two-phase''] = Inr conf \<Longrightarrow> Whitelist conf = [''127.0.0.1'']" by simp
  qed
  from main_admits_whitelisted [OF s(1) [unfolded example_main_def] mem_database, of "\<lambda>_ w. w" silent_grpc]
  obtain conf d0 d where r: "config_Get_args [''-committype'', ''two-phase''] = Inr conf"
    "db_New mem_badger (cfg_DBPath conf) = Inr d0" "DB s = snd (DB_Close mem_dbi d)"
    "\<forall>k. DB_Get mem_dbi k d = DB_Get mem_dbi k d0 \<or> (\<exists>v. (k, v) \<in> admitted (Whitelist conf) example_arrivals \<and> DB_Get mem_dbi k d = Inr v)"
    by auto
  have "DB s = d" "d0 = gm_empty" using r(2,3) by (simp_all add: mem_dbi_def BadgerDB_def BadgerDB_Close_def mem_badger_def db_New_def)
  moreover have "DB_Get mem_dbi ''key2'' d = DB_Get mem_dbi ''key2'' d0" using r(4) w [OF r(1)] a by auto
  ultimately show ?thesis using s by auto
qed

end
