(* ===== verification/Overlap.thy ===== *)
theory Overlap
  imports Divergence Startup
begin

text \<open>
  \<^verbatim>\<open>Put\<close> in steps. gRPC runs each call in its own goroutine, so calls of \<^verbatim>\<open>Put\<close> on one coordinator
  overlap. Each remote call of \<^verbatim>\<open>Put\<close> takes three steps: the code up to the call, which builds the
  request and notes it in the monitor; the call itself, which acts on the world while \<^verbatim>\<open>Put\<close> waits;
  and the code that handles the reply. Between any two steps of a call other calls may take
  theirs, so that the height, the cache and the monitor may have changed when a reply comes in.
  The local variables of a call are its position, with the request or the reply under way, its
  context and its copy of the monitored state.
\<close>

section \<open>Steps\<close>

datatype put_pc =
    Beginning
  | Proposing CommitType nat "CommitClient list"
  | Retrying CommitType nat CommitClient "CommitClient list"
  | ProposeSent CommitType nat CommitClient "CommitClient list" ProposeRequest
  | ProposeReplied CommitType nat CommitClient "CommitClient list" "Response reply"
  | Precommitting "CommitClient list"
  | PrecommitSent CommitClient "CommitClient list" PrecommitRequest
  | PrecommitReplied "CommitClient list" "Response reply"
  | Persisting
  | Committing nat "CommitClient list"
  | CommitSent nat CommitClient "CommitClient list" CommitRequest
  | CommitReplied nat "CommitClient list" "Response reply"
  | Finishing
  | Answered "Response reply"

type_synonym ('d, 'w) put_config = "put_pc \<times> Context \<times> State \<times> 'd Server \<times> 'w"

text \<open>Lines 306 to 309: a reply with a higher index raises the height.\<close>

definition raise_Height :: "Response option \<Rightarrow> 'd Server \<Rightarrow> 'd Server" where
  "raise_Height response s =
     (case response of
        Some r \<Rightarrow> if rIndex r > Height s then s\<lparr>Height := rIndex r\<rparr> else s
      | None \<Rightarrow> s)"

definition persist_step :: "'d Database \<Rightarrow> Context \<Rightarrow> State \<Rightarrow> 'd Server \<Rightarrow> 'w \<Rightarrow> ('d, 'w) put_config" where
  "persist_step dbi ctx gs s w =
     (case cache_Get (NodeCache s) (Height s) of (key, val, ok) \<Rightarrow>
        if \<not> ok then
          (Answered (None, Some (StatusError Internal ''can't to find msg in the coordinator's cache'')), ctx, gs, s, w)
        else
          (case DB_Put dbi key val (DB s) of
             (Some err, d) \<Rightarrow>
               (Answered (Some nack, Some (StatusError Internal ''failed to save msg on coordinator'')), ctx, gs, s\<lparr>DB := d\<rparr>, w)
           | (None, d) \<Rightarrow> (Committing 0 (Followers s), ctx, gs, s\<lparr>DB := d\<rparr>, w)))"

fun put_step :: "'w grpc \<Rightarrow> 'd Database \<Rightarrow> Entry \<Rightarrow> ('d, 'w) put_config \<Rightarrow> ('d, 'w) put_config go" where
  "put_step g dbi req (Beginning, ctx, gs, s, w) =
     gbind (put_start s) (\<lambda>(s1, gs1). Inr (Proposing (put_ctype s) 0 (Followers s1), ctx, gs1, s1, w))"
| "put_step g dbi req (Proposing ct pid [], ctx, gs, s, w) = Inr (Precommitting (Followers s), ctx, gs, s, w)"
| "put_step g dbi req (Proposing ct pid (f # fs), ctx, gs, s, w) = Inr (Retrying ct pid f fs, put_context s ctx, gs, s, w)"
| "put_step g dbi req (Retrying ct pid f fs, ctx, gs, s, w) =
     (let proposeReq = \<lparr>pKey = eKey req, pValue = eValue req, pCommitType = ct, pIndex = Height s\<rparr>
      in gbind (mon_propose_sent pid s gs) (\<lambda>(s1, gs1). Inr (ProposeSent ct pid f fs proposeReq, ctx, gs1, s1, w)))"
| "put_step g dbi req (ProposeSent ct pid f fs proposeReq, ctx, gs, s, w) =
     (case peer_Propose g f ctx proposeReq w of (r, w1) \<Rightarrow> Inr (ProposeReplied ct pid f fs r, ctx, gs, s, w1))"
| "put_step g dbi req (ProposeReplied ct pid f fs (response, err), ctx, gs, s, w) =
     (let s1 = raise_Height response s
      in if propose_again response then Inr (Retrying ct pid f fs, ctx, gs, s1, w)
         else gbind (propose_reply pid req response err s1 gs) (\<lambda>(ret, s2, gs2).
           case ret of
             Some reply \<Rightarrow> Inr (Answered reply, ctx, gs2, s2, w)
           | None \<Rightarrow> Inr (Proposing ct (Suc pid) fs, ctx, gs2, s2, w)))"
| "put_step g dbi req (Precommitting [], ctx, gs, s, w) = Inr (Persisting, ctx, gs, s, w)"
| "put_step g dbi req (Precommitting (f # fs), ctx, gs, s, w) =
     Inr (PrecommitSent f fs \<lparr>pcIndex = Height s\<rparr>, put_context s ctx, gs, s, w)"
| "put_step g dbi req (PrecommitSent f fs q, ctx, gs, s, w) =
     (case peer_Precommit g f ctx q w of (r, w1) \<Rightarrow> Inr (PrecommitReplied fs r, ctx, gs, s, w1))"
| "put_step g dbi req (PrecommitReplied fs r, ctx, gs, s, w) =
     gbind (phase_reply r) (\<lambda>ret.
       case ret of
         Some reply \<Rightarrow> Inr (Answered reply, ctx, gs, s, w)
       | None \<Rightarrow> Inr (Precommitting fs, ctx, gs, s, w))"
| "put_step g dbi req (Persisting, ctx, gs, s, w) = Inr (persist_step dbi ctx gs s w)"
| "put_step g dbi req (Committing pid [], ctx, gs, s, w) = Inr (Finishing, ctx, gs, s, w)"
| "put_step g dbi req (Committing pid (f # fs), ctx, gs, s, w) =
     gbind (mon_commit_sent pid s gs) (\<lambda>(s1, gs1).
       Inr (CommitSent pid f fs \<lparr>cIndex = Height s1, cIsRollback = False\<rparr>, ctx, gs1, s1, w))"
| "put_step g dbi req (CommitSent pid f fs q, ctx, gs, s, w) =
     (case peer_Commit g f ctx q w of (r, w1) \<Rightarrow> Inr (CommitReplied pid fs r, ctx, gs, s, w1))"
| "put_step g dbi req (CommitReplied pid fs r, ctx, gs, s, w) =
     gbind (phase_reply r) (\<lambda>ret.
       case ret of
         Some reply \<Rightarrow> Inr (Answered reply, ctx, gs, s, w)
       | None \<Rightarrow> gbind (mon_committed pid s gs) (\<lambda>(s1, gs1). Inr (Committing (Suc pid) fs, ctx, gs1, s1, w)))"
| "put_step g dbi req (Finishing, ctx, gs, s, w) =
     gbind (put_finish s w) (\<lambda>(reply, s1, w1). Inr (Answered reply, ctx, gs, s1, w1))"
| "put_step g dbi req (Answered reply, ctx, gs, s, w) = Inr (Answered reply, ctx, gs, s, w)"

text \<open>A call alone.\<close>

fun put_steps_alone :: "'w grpc \<Rightarrow> 'd Database \<Rightarrow> Entry \<Rightarrow> nat \<Rightarrow> ('d, 'w) put_config \<Rightarrow> ('d, 'w) put_config go" where
  "put_steps_alone g dbi req 0 c = Inr c"
| "put_steps_alone g dbi req (Suc n) c = gbind (put_step g dbi req c) (put_steps_alone g dbi req n)"

text \<open>What a call that has come to an end gives, as \<^verbatim>\<open>Put\<close> gives it.\<close>

fun answer :: "('d, 'w) put_config go \<Rightarrow> (Response reply \<times> 'd Server \<times> 'w) go option" where
  "answer (Inl p) = Some (Inl p)"
| "answer (Inr (Answered reply, ctx, gs, s, w)) = Some (Inr (reply, s, w))"
| "answer (Inr c) = None"

section \<open>Steps and \<^verbatim>\<open>Put\<close>\<close>

definition after_propose ::
    "'w grpc \<Rightarrow> 'd Database \<Rightarrow> (Response reply option \<times> 'd Server \<times> State \<times> Context \<times> 'w) go option \<Rightarrow>
       (Response reply \<times> 'd Server \<times> 'w) go option" where
  "after_propose g dbi r =
     (case r of
        None \<Rightarrow> None
      | Some (Inl p) \<Rightarrow> Some (Inl p)
      | Some (Inr (Some reply, s2, gs2, ctx2, w2)) \<Rightarrow> Some (Inr (reply, s2, w2))
      | Some (Inr (None, s2, gs2, ctx2, w2)) \<Rightarrow> Some (put_decide g dbi s2 gs2 ctx2 w2))"

text \<open>What is left of \<^verbatim>\<open>Put\<close> at each position.\<close>

definition loop_rest ::
    "'w grpc \<Rightarrow> Entry \<Rightarrow> CommitType \<Rightarrow> nat \<Rightarrow> CommitClient \<Rightarrow> CommitClient list \<Rightarrow> Context \<Rightarrow> State \<Rightarrow> 'd Server \<Rightarrow> 'w \<Rightarrow>
       (Response reply option \<times> 'd Server \<times> State \<times> Context \<times> 'w) go option" where
  "loop_rest g req ct pid f fs ctx gs s w =
     (case propose_loop g pid f ctx ct req s gs w of
        None \<Rightarrow> None
      | Some (Inl p) \<Rightarrow> Some (Inl p)
      | Some (Inr ((response, err), s1, gs1, w1)) \<Rightarrow>
          (case propose_reply pid req response err s1 gs1 of
             Inl p \<Rightarrow> Some (Inl p)
           | Inr (Some r, s2, gs2) \<Rightarrow> Some (Inr (Some r, s2, gs2, ctx, w1))
           | Inr (None, s2, gs2) \<Rightarrow> propose_phase g ct req (Suc pid) fs ctx s2 gs2 w1))"

definition replied_rest ::
    "'w grpc \<Rightarrow> Entry \<Rightarrow> CommitType \<Rightarrow> nat \<Rightarrow> CommitClient \<Rightarrow> CommitClient list \<Rightarrow> Response reply \<Rightarrow> Context \<Rightarrow> State \<Rightarrow> 'd Server \<Rightarrow> 'w \<Rightarrow>
       (Response reply option \<times> 'd Server \<times> State \<times> Context \<times> 'w) go option" where
  "replied_rest g req ct pid f fs r ctx gs s w =
     (case r of (response, err) \<Rightarrow>
        if propose_again response then loop_rest g req ct pid f fs ctx gs (raise_Height response s) w
        else (case propose_reply pid req response err (raise_Height response s) gs of
                Inl p \<Rightarrow> Some (Inl p)
              | Inr (Some r, s2, gs2) \<Rightarrow> Some (Inr (Some r, s2, gs2, ctx, w))
              | Inr (None, s2, gs2) \<Rightarrow> propose_phase g ct req (Suc pid) fs ctx s2 gs2 w))"

definition precommit_rest ::
    "'w grpc \<Rightarrow> 'd Database \<Rightarrow> CommitClient list \<Rightarrow> Context \<Rightarrow> State \<Rightarrow> 'd Server \<Rightarrow> 'w \<Rightarrow> (Response reply \<times> 'd Server \<times> 'w) go" where
  "precommit_rest g dbi fs ctx gs s w =
     gbind (precommit_phase g s fs ctx w) (\<lambda>(ret, ctx1, w1).
       case ret of Some reply \<Rightarrow> Inr (reply, s, w1) | None \<Rightarrow> put_persist g dbi s gs ctx1 w1)"

definition precommit_replied_rest ::
    "'w grpc \<Rightarrow> 'd Database \<Rightarrow> CommitClient list \<Rightarrow> Response reply \<Rightarrow> Context \<Rightarrow> State \<Rightarrow> 'd Server \<Rightarrow> 'w \<Rightarrow> (Response reply \<times> 'd Server \<times> 'w) go" where
  "precommit_replied_rest g dbi fs r ctx gs s w =
     gbind (phase_reply r) (\<lambda>ret. case ret of Some reply \<Rightarrow> Inr (reply, s, w) | None \<Rightarrow> precommit_rest g dbi fs ctx gs s w)"

definition commit_rest ::
    "'w grpc \<Rightarrow> nat \<Rightarrow> CommitClient list \<Rightarrow> Context \<Rightarrow> State \<Rightarrow> 'd Server \<Rightarrow> 'w \<Rightarrow> (Response reply \<times> 'd Server \<times> 'w) go" where
  "commit_rest g pid fs ctx gs s w =
     gbind (commit_phase g pid fs ctx s gs w) (\<lambda>(ret, s1, gs1, w1).
       case ret of Some reply \<Rightarrow> Inr (reply, s1, w1) | None \<Rightarrow> put_finish s1 w1)"

definition commit_replied_rest ::
    "'w grpc \<Rightarrow> nat \<Rightarrow> CommitClient list \<Rightarrow> Response reply \<Rightarrow> Context \<Rightarrow> State \<Rightarrow> 'd Server \<Rightarrow> 'w \<Rightarrow> (Response reply \<times> 'd Server \<times> 'w) go" where
  "commit_replied_rest g pid fs r ctx gs s w =
     gbind (phase_reply r) (\<lambda>ret.
       case ret of
         Some reply \<Rightarrow> Inr (reply, s, w)
       | None \<Rightarrow> gbind (mon_committed pid s gs) (\<lambda>(s1, gs1). commit_rest g (Suc pid) fs ctx gs1 s1 w))"

fun put_rest :: "'w grpc \<Rightarrow> 'd Database \<Rightarrow> Entry \<Rightarrow> ('d, 'w) put_config \<Rightarrow> (Response reply \<times> 'd Server \<times> 'w) go option" where
  "put_rest g dbi req (Beginning, ctx, gs, s, w) = Put g dbi s ctx req w"
| "put_rest g dbi req (Proposing ct pid fs, ctx, gs, s, w) = after_propose g dbi (propose_phase g ct req pid fs ctx s gs w)"
| "put_rest g dbi req (Retrying ct pid f fs, ctx, gs, s, w) = after_propose g dbi (loop_rest g req ct pid f fs ctx gs s w)"
| "put_rest g dbi req (ProposeSent ct pid f fs q, ctx, gs, s, w) =
     (case peer_Propose g f ctx q w of (r, w1) \<Rightarrow> after_propose g dbi (replied_rest g req ct pid f fs r ctx gs s w1))"
| "put_rest g dbi req (ProposeReplied ct pid f fs r, ctx, gs, s, w) = after_propose g dbi (replied_rest g req ct pid f fs r ctx gs s w)"
| "put_rest g dbi req (Precommitting fs, ctx, gs, s, w) = Some (precommit_rest g dbi fs ctx gs s w)"
| "put_rest g dbi req (PrecommitSent f fs q, ctx, gs, s, w) =
     (case peer_Precommit g f ctx q w of (r, w1) \<Rightarrow> Some (precommit_replied_rest g dbi fs r ctx gs s w1))"
| "put_rest g dbi req (PrecommitReplied fs r, ctx, gs, s, w) = Some (precommit_replied_rest g dbi fs r ctx gs s w)"
| "put_rest g dbi req (Persisting, ctx, gs, s, w) = Some (put_persist g dbi s gs ctx w)"
| "put_rest g dbi req (Committing pid fs, ctx, gs, s, w) = Some (commit_rest g pid fs ctx gs s w)"
| "put_rest g dbi req (CommitSent pid f fs q, ctx, gs, s, w) =
     (case peer_Commit g f ctx q w of (r, w1) \<Rightarrow> Some (commit_replied_rest g pid fs r ctx gs s w1))"
| "put_rest g dbi req (CommitReplied pid fs r, ctx, gs, s, w) = Some (commit_replied_rest g pid fs r ctx gs s w)"
| "put_rest g dbi req (Finishing, ctx, gs, s, w) = Some (put_finish s w)"
| "put_rest g dbi req (Answered reply, ctx, gs, s, w) = Some (Inr (reply, s, w))"

text \<open>One round of the retry loop is its three steps.\<close>

lemma propose_once_steps:
  "propose_once g pid f ctx ct req s gs w =
     gbind (mon_propose_sent pid s gs) (\<lambda>(s1, gs1).
       case peer_Propose g f ctx \<lparr>pKey = eKey req, pValue = eValue req, pCommitType = ct, pIndex = Height s\<rparr> w of
         ((response, err), w1) \<Rightarrow> Inr ((response, err), raise_Height response s1, gs1, w1))"
  by (simp add: propose_once_def raise_Height_def Let_def)

lemma loop_rest_steps:
  "loop_rest g req ct pid f fs ctx gs s w =
     (case mon_propose_sent pid s gs of
        Inl p \<Rightarrow> Some (Inl p)
      | Inr (s1, gs1) \<Rightarrow>
          (case peer_Propose g f ctx \<lparr>pKey = eKey req, pValue = eValue req, pCommitType = ct, pIndex = Height s\<rparr> w of
             (r, w1) \<Rightarrow> replied_rest g req ct pid f fs r ctx gs1 s1 w1))"
proof (cases "mon_propose_sent pid s gs")
  case (Inl p)
  then show ?thesis unfolding loop_rest_def by (subst propose_loop.simps) (simp add: propose_once_steps)
next
  case (Inr x)
  obtain s1 gs1 where x: "x = (s1, gs1)" by (cases x)
  obtain response err w1 where p:
    "peer_Propose g f ctx \<lparr>pKey = eKey req, pValue = eValue req, pCommitType = ct, pIndex = Height s\<rparr> w = ((response, err), w1)"
    by (metis surj_pair)
  show ?thesis unfolding loop_rest_def replied_rest_def
    by (subst propose_loop.simps) (simp add: propose_once_steps Inr x p loop_rest_def)
qed

lemma put_step_rest:
  "put_rest g dbi req c = (case put_step g dbi req c of Inl p \<Rightarrow> Some (Inl p) | Inr c' \<Rightarrow> put_rest g dbi req c')"
proof (cases "(g, dbi, req, c)" rule: put_step.cases)
  case (4 g dbi req ct pid f fs ctx gs s w)
  then show ?thesis
    by (auto simp: loop_rest_steps [of g req ct pid f fs ctx gs s w] after_propose_def gbind_def split: sum.splits prod.splits)
next
  case (6 g dbi req ct pid f fs response err ctx gs s w)
  then show ?thesis
    by (auto simp: replied_rest_def after_propose_def gbind_def Let_def split: sum.splits option.splits prod.splits)
qed (auto simp: Put_def after_propose_def put_decide_def put_persist_def persist_step_def loop_rest_def precommit_rest_def
    precommit_replied_rest_def commit_rest_def commit_replied_rest_def gbind_def split: sum.splits prod.splits option.splits if_splits)

lemma put_rest_step: "put_step g dbi req c = Inr c' \<Longrightarrow> put_rest g dbi req c = put_rest g dbi req c'"
  by (subst put_step_rest) simp

lemma answer_rest: "answer (Inr c) = Some r \<Longrightarrow> put_rest g dbi req c = Some r"
  by (cases "Inr c :: ('a, 'b) put_config go" rule: answer.cases) auto

lemma put_steps_alone_rest:
  "answer (put_steps_alone g dbi req n c) = Some r \<Longrightarrow> put_rest g dbi req c = Some r"
proof (induction n arbitrary: c)
  case (Suc n)
  then show ?case by (subst put_step_rest) (auto simp: gbind_def split: sum.splits)
qed (simp add: answer_rest)

definition ends :: "'w grpc \<Rightarrow> 'd Database \<Rightarrow> Entry \<Rightarrow> ('d, 'w) put_config \<Rightarrow> (Response reply \<times> 'd Server \<times> 'w) go \<Rightarrow> bool" where
  "ends g dbi req c r \<longleftrightarrow> (\<exists>n. answer (put_steps_alone g dbi req n c) = Some r)"

lemma ends_panic: "put_step g dbi req c = Inl p \<Longrightarrow> ends g dbi req c (Inl p)"
  unfolding ends_def by (rule exI [of _ "Suc 0"]) simp

lemma ends_step: "put_step g dbi req c = Inr c' \<Longrightarrow> ends g dbi req c' r \<Longrightarrow> ends g dbi req c r"
  unfolding ends_def by (erule exE, rule_tac x = "Suc n" in exI) simp

lemma ends_next:
  assumes "put_rest g dbi req c = Some r"
    and "\<And>c'. put_step g dbi req c = Inr c' \<Longrightarrow> put_rest g dbi req c' = Some r \<Longrightarrow> ends g dbi req c' r"
  shows "ends g dbi req c r"
  using assms put_step_rest [of g dbi req c]
  by (cases "put_step g dbi req c") (auto intro: ends_panic ends_step)


lemma ends_Answered: "put_rest g dbi req (Answered reply, x) = Some r \<Longrightarrow> ends g dbi req (Answered reply, x) r"
  unfolding ends_def by (rule exI [of _ 0], cases x) simp

lemma ends_Finishing: "put_rest g dbi req (Finishing, x) = Some r \<Longrightarrow> ends g dbi req (Finishing, x) r"
  by (rule ends_next, assumption, cases x) (auto simp del: put_rest.simps elim!: gbind_InrE intro!: ends_Answered)

lemma ends_CommitReplied:
  assumes "put_rest g dbi req (CommitReplied pid fs r0, x) = Some r"
    and "\<And>x. put_rest g dbi req (Committing (Suc pid) fs, x) = Some r \<Longrightarrow> ends g dbi req (Committing (Suc pid) fs, x) r"
  shows "ends g dbi req (CommitReplied pid fs r0, x) r"
  using assms(2)
  by (intro ends_next [OF assms(1)], cases x)
    (auto simp del: put_rest.simps elim!: gbind_InrE intro!: ends_Answered split: option.splits)

lemma ends_CommitSent:
  assumes "put_rest g dbi req (CommitSent pid f fs q, x) = Some r"
    and "\<And>x. put_rest g dbi req (Committing (Suc pid) fs, x) = Some r \<Longrightarrow> ends g dbi req (Committing (Suc pid) fs, x) r"
  shows "ends g dbi req (CommitSent pid f fs q, x) r"
  by (rule ends_next [OF assms(1)], cases x)
    (auto simp del: put_rest.simps intro: ends_CommitReplied [OF _ assms(2)] split: prod.splits)

lemma ends_Committing:
  "put_rest g dbi req (Committing pid fs, x) = Some r \<Longrightarrow> ends g dbi req (Committing pid fs, x) r"
proof (induction fs arbitrary: pid x)
  case Nil
  show ?case by (rule ends_next [OF Nil], cases x) (auto simp del: put_rest.simps intro: ends_Finishing)
next
  case (Cons f fs)
  show ?case
    by (rule ends_next [OF Cons.prems], cases x)
      (auto simp del: put_rest.simps elim!: gbind_InrE intro: ends_CommitSent [OF _ Cons.IH])
qed

lemma ends_Persisting: "put_rest g dbi req (Persisting, x) = Some r \<Longrightarrow> ends g dbi req (Persisting, x) r"
  by (rule ends_next, assumption, cases x)
    (auto simp: persist_step_def simp del: put_rest.simps intro: ends_Answered ends_Committing split: prod.splits option.splits if_splits)

lemma ends_PrecommitReplied:
  assumes "put_rest g dbi req (PrecommitReplied fs r0, x) = Some r"
    and "\<And>x. put_rest g dbi req (Precommitting fs, x) = Some r \<Longrightarrow> ends g dbi req (Precommitting fs, x) r"
  shows "ends g dbi req (PrecommitReplied fs r0, x) r"
  using assms(2)
  by (intro ends_next [OF assms(1)], cases x)
    (auto simp del: put_rest.simps elim!: gbind_InrE intro!: ends_Answered split: option.splits)

lemma ends_PrecommitSent:
  assumes "put_rest g dbi req (PrecommitSent f fs q, x) = Some r"
    and "\<And>x. put_rest g dbi req (Precommitting fs, x) = Some r \<Longrightarrow> ends g dbi req (Precommitting fs, x) r"
  shows "ends g dbi req (PrecommitSent f fs q, x) r"
  by (rule ends_next [OF assms(1)], cases x)
    (auto simp del: put_rest.simps intro: ends_PrecommitReplied [OF _ assms(2)] split: prod.splits)

lemma ends_Precommitting:
  "put_rest g dbi req (Precommitting fs, x) = Some r \<Longrightarrow> ends g dbi req (Precommitting fs, x) r"
proof (induction fs arbitrary: x)
  case Nil
  show ?case by (rule ends_next [OF Nil], cases x) (auto simp del: put_rest.simps intro: ends_Persisting)
next
  case (Cons f fs)
  show ?case
    by (rule ends_next [OF Cons.prems], cases x) (auto simp del: put_rest.simps intro: ends_PrecommitSent [OF _ Cons.IH])
qed

text \<open>One round of the retry loop ends the call, goes on to the next follower, or starts the next round.\<close>

lemma round_steps:
  assumes "propose_once g pid f ctx ct req s gs w = Inr ((resp, err), s1, gs1, w1)"
  obtains s0 q where "put_step g dbi req (Retrying ct pid f fs, ctx, gs, s, w) = Inr (ProposeSent ct pid f fs q, ctx, gs1, s0, w)"
    "put_step g dbi req (ProposeSent ct pid f fs q, ctx, gs1, s0, w) = Inr (ProposeReplied ct pid f fs (resp, err), ctx, gs1, s0, w1)"
    "s1 = raise_Height resp s0"
  using assms by (auto simp: propose_once_steps elim!: gbind_InrE split: prod.splits)

lemma ends_round:
  assumes rest: "put_rest g dbi req (Retrying ct pid f fs, ctx, gs, s, w) = Some r"
    and proposing: "\<And>x. put_rest g dbi req (Proposing ct (Suc pid) fs, x) = Some r \<Longrightarrow> ends g dbi req (Proposing ct (Suc pid) fs, x) r"
  shows "case propose_once g pid f ctx ct req s gs w of
      Inl p \<Rightarrow> ends g dbi req (Retrying ct pid f fs, ctx, gs, s, w) r
    | Inr ((resp, err), s1, gs1, w1) \<Rightarrow>
        if propose_again resp then put_rest g dbi req (Retrying ct pid f fs, ctx, gs1, s1, w1) = Some r \<and>
          (ends g dbi req (Retrying ct pid f fs, ctx, gs1, s1, w1) r \<longrightarrow> ends g dbi req (Retrying ct pid f fs, ctx, gs, s, w) r)
        else ends g dbi req (Retrying ct pid f fs, ctx, gs, s, w) r"
proof (cases "propose_once g pid f ctx ct req s gs w")
  case (Inl p)
  then have "ends g dbi req (Retrying ct pid f fs, ctx, gs, s, w) r"
    by (intro ends_next [OF rest]) (auto simp: propose_once_steps elim!: gbind_InrE split: prod.splits)
  then show ?thesis using Inl by simp
next
  case (Inr o1)
  then obtain resp err s1 gs1 w1 where o1: "propose_once g pid f ctx ct req s gs w = Inr ((resp, err), s1, gs1, w1)"
    by (cases o1) auto
  let ?c = "(Retrying ct pid f fs, ctx, gs, s, w)" and ?again = "(Retrying ct pid f fs, ctx, gs1, s1, w1)"
  obtain s0 q where st: "put_step g dbi req ?c = Inr (ProposeSent ct pid f fs q, ctx, gs1, s0, w)"
      "put_step g dbi req (ProposeSent ct pid f fs q, ctx, gs1, s0, w) = Inr (ProposeReplied ct pid f fs (resp, err), ctx, gs1, s0, w1)"
    and s1: "s1 = raise_Height resp s0" by (rule round_steps [OF o1, where dbi = dbi and fs = fs])
  let ?replied = "(ProposeReplied ct pid f fs (resp, err), ctx, gs1, s0, w1)"
  have rest0: "put_rest g dbi req ?replied = Some r"
    using rest by (simp only: put_rest_step [OF st(1)] put_rest_step [OF st(2)])
  have from_reply: "ends g dbi req ?replied r \<Longrightarrow> ends g dbi req ?c r" using st by (blast intro: ends_step)
  show ?thesis
  proof (cases "propose_again resp")
    case True
    then have st: "put_step g dbi req ?replied = Inr ?again" using s1 by simp
    then have "put_rest g dbi req ?again = Some r" using rest0 put_step_rest [of g dbi req ?replied] by simp
    moreover have "ends g dbi req ?again r \<Longrightarrow> ends g dbi req ?c r" by (rule from_reply) (rule ends_step [OF st])
    ultimately show ?thesis using o1 True by (simp del: put_rest.simps)
  next
    case False
    then have "ends g dbi req ?replied r"
      by (intro ends_next [OF rest0])
        (auto simp: Let_def simp del: put_rest.simps elim!: gbind_InrE intro: ends_Answered proposing split: option.splits)
    then show ?thesis using o1 False from_reply by simp
  qed
qed

lemma ends_Retrying:
  assumes rest: "put_rest g dbi req (Retrying ct pid f fs, ctx, gs, s, w) = Some r"
    and proposing: "\<And>x. put_rest g dbi req (Proposing ct (Suc pid) fs, x) = Some r \<Longrightarrow> ends g dbi req (Proposing ct (Suc pid) fs, x) r"
  shows "ends g dbi req (Retrying ct pid f fs, ctx, gs, s, w) r"
proof -
  let ?c = "\<lambda>gs s w. (Retrying ct pid f fs, ctx, gs, s, w)"
  obtain r0 where loop: "propose_loop g pid f ctx ct req s gs w = Some r0"
    using rest by (cases "propose_loop g pid f ctx ct req s gs w") (auto simp: after_propose_def loop_rest_def)
  show ?thesis
  proof (rule propose_loop_rule [OF loop, where
      I = "\<lambda>s' gs' w'. put_rest g dbi req (?c gs' s' w') = Some r \<and> (ends g dbi req (?c gs' s' w') r \<longrightarrow> ends g dbi req (?c gs s w) r)"
      and Q = "\<lambda>_. ends g dbi req (?c gs s w) r"])
    show "put_rest g dbi req (?c gs s w) = Some r \<and> (ends g dbi req (?c gs s w) r \<longrightarrow> ends g dbi req (?c gs s w) r)"
      using rest by simp
  next
    fix s' gs' w'
    assume I: "put_rest g dbi req (?c gs' s' w') = Some r \<and> (ends g dbi req (?c gs' s' w') r \<longrightarrow> ends g dbi req (?c gs s w) r)"
    from ends_round [OF conjunct1 [OF I] proposing] conjunct2 [OF I]
    show "case propose_once g pid f ctx ct req s' gs' w' of Inl p \<Rightarrow> ends g dbi req (?c gs s w) r
      | Inr ((resp, err), s1, gs1, w1) \<Rightarrow>
          if propose_again resp then put_rest g dbi req (?c gs1 s1 w1) = Some r \<and>
            (ends g dbi req (?c gs1 s1 w1) r \<longrightarrow> ends g dbi req (?c gs s w) r)
          else ends g dbi req (?c gs s w) r"
      by (auto simp del: put_rest.simps split: sum.splits if_splits)
  qed
qed

lemma ends_Proposing:
  "put_rest g dbi req (Proposing ct pid fs, x) = Some r \<Longrightarrow> ends g dbi req (Proposing ct pid fs, x) r"
proof (induction fs arbitrary: pid x)
  case Nil
  show ?case by (rule ends_next [OF Nil], cases x) (auto simp del: put_rest.simps intro: ends_Precommitting)
next
  case (Cons f fs)
  show ?case
    by (rule ends_next [OF Cons.prems], cases x) (auto simp del: put_rest.simps intro: ends_Retrying Cons.IH)
qed

lemma ends_Beginning: "put_rest g dbi req (Beginning, x) = Some r \<Longrightarrow> ends g dbi req (Beginning, x) r"
  by (rule ends_next, assumption, cases x) (auto simp del: put_rest.simps elim!: gbind_InrE intro: ends_Proposing)

text \<open>
  The steps are those of \<^verbatim>\<open>Put\<close>: a call that is left alone comes, after some number of steps,
  to exactly the reply, the state and the effects that \<^verbatim>\<open>Put\<close> gives, or to the same panic; and it
  never comes to an end if \<^verbatim>\<open>Put\<close> does not return.
\<close>

lemma put_steps_are_Put:
  "(\<exists>n. answer (put_steps_alone g dbi req n (Beginning, ctx, gs, s, w)) = Some r) \<longleftrightarrow> Put g dbi s ctx req w = Some r"
  using put_steps_alone_rest [of g dbi req _ "(Beginning, ctx, gs, s, w)" r] ends_Beginning [of g dbi req "(ctx, gs, s, w)" r]
  by (auto simp: ends_def)

section \<open>Calls that overlap\<close>

text \<open>A call with its request and its local variables.\<close>

type_synonym put_call = "Entry \<times> put_pc \<times> Context \<times> State"

definition new_call :: "Context \<Rightarrow> Entry \<Rightarrow> put_call" where
  "new_call ctx req = (req, Beginning, ctx, nil_state)"

text \<open>The schedule names the call that takes the next step.\<close>

fun run_calls ::
    "'w grpc \<Rightarrow> 'd Database \<Rightarrow> nat list \<Rightarrow> put_call list \<times> 'd Server \<times> 'w \<Rightarrow> (put_call list \<times> 'd Server \<times> 'w) go" where
  "run_calls g dbi [] x = Inr x"
| "run_calls g dbi (i # is) (cs, s, w) =
     (if i < length cs then
        (case cs ! i of (req, pc, ctx, gs) \<Rightarrow>
           gbind (put_step g dbi req (pc, ctx, gs, s, w)) (\<lambda>(pc', ctx', gs', s', w').
             run_calls g dbi is (cs[i := (req, pc', ctx', gs')], s', w')))
      else run_calls g dbi is (cs, s, w))"

text \<open>Every step keeps the invariant of a node, for a set \<open>P\<close> that has the pair of the request.\<close>

lemma persist_step_ok:
  assumes "database (DB_Put dbi) (DB_Get dbi)" and "node_ok dbi conf d0 P s" and "persist_step dbi ctx gs s w = (pc', ctx', gs', s', w')"
  shows "node_ok dbi conf d0 P s'"
proof (cases "cache_lookup (NodeCache s) (Height s)")
  case None
  then show ?thesis using assms(2,3) by (simp add: persist_step_def cache_Get_None)
next
  case (Some kv)
  then obtain k v where kv: "cache_lookup (NodeCache s) (Height s) = Some (k, v)" by (cases kv) auto
  then have "(k, v) \<in> P" using assms(2) by (auto simp: node_ok_def node_cache_def)
  from node_ok_stored [OF assms(1,2) this] show ?thesis using assms(3) kv
    by (auto simp: persist_step_def cache_Get_Some split: prod.splits option.splits)
qed

lemma node_ok_raise_Height: "node_ok dbi conf d0 P s \<Longrightarrow> node_ok dbi conf d0 P (raise_Height response s)"
  by (auto simp: raise_Height_def split: option.splits)

lemma put_step_ok:
  assumes db: "database (DB_Put dbi) (DB_Get dbi)" and ok: "node_ok dbi conf d0 P s" and req: "(eKey req, eValue req) \<in> P"
    and step: "put_step g dbi req (pc, ctx, gs, s, w) = Inr (pc', ctx', gs', s', w')"
  shows "node_ok dbi conf d0 P s'"
proof (cases "(g, dbi, req, pc, ctx, gs, s, w)" rule: put_step.cases)
  case (1 g dbi req ctx gs s w)
  then show ?thesis using step ok by (auto elim!: gbind_InrE dest!: mon_blocks_only(6) intro: node_ok_monitor_only)
next
  case (4 g dbi req ct pid f fs ctx gs s w)
  then show ?thesis using step ok by (auto simp: Let_def elim!: gbind_InrE dest!: mon_monitor_only(1) intro: node_ok_monitor_only)
next
  case (6 g dbi req ct pid f fs response err ctx gs s w)
  then show ?thesis using step node_ok_raise_Height [OF ok, of response] req
    by (auto simp: Let_def elim!: gbind_InrE split: if_splits option.splits
        dest!: propose_reply_ok [OF node_ok_raise_Height [OF ok, of response]])
next
  case (13 g dbi req pid f fs ctx gs s w)
  then show ?thesis using step ok by (auto elim!: gbind_InrE dest!: mon_monitor_only(3) intro: node_ok_monitor_only)
next
  case (15 g dbi req pid fs r ctx gs s w)
  then show ?thesis using step ok
    by (auto elim!: gbind_InrE dest!: mon_monitor_only(4) intro: node_ok_monitor_only split: option.splits)
next
  case (16 g dbi req ctx gs s w)
  then show ?thesis using step ok by (auto simp: put_finish_def incr_Height_def Let_def elim!: gbind_InrE)
qed (use step ok persist_step_ok [OF db ok] in \<open>auto elim!: gbind_InrE split: prod.splits option.splits\<close>)

lemma run_calls_ok:
  assumes db: "database (DB_Put dbi) (DB_Get dbi)"
  shows "node_ok dbi conf d0 P s \<Longrightarrow> \<forall>(req, _)\<in>set cs. (eKey req, eValue req) \<in> P \<Longrightarrow>
    run_calls g dbi is (cs, s, w) = Inr (cs', s', w') \<Longrightarrow> node_ok dbi conf d0 P s'"
proof (induction "is" arbitrary: cs s w)
  case (Cons i "is")
  show ?case
  proof (cases "i < length cs")
    case True
    obtain req pc ctx gs where c: "cs ! i = (req, pc, ctx, gs)" by (cases "cs ! i") auto
    with True have req: "(eKey req, eValue req) \<in> P" using Cons.prems(2) nth_mem [OF True] by auto
    from Cons.prems(3) True c obtain pc1 ctx1 gs1 s1 w1 where
      st: "put_step g dbi req (pc, ctx, gs, s, w) = Inr (pc1, ctx1, gs1, s1, w1)" and
      r: "run_calls g dbi is (cs[i := (req, pc1, ctx1, gs1)], s1, w1) = Inr (cs', s', w')"
      by (auto elim!: gbind_InrE)
    have "\<forall>(req, _)\<in>set (cs[i := (req, pc1, ctx1, gs1)]). (eKey req, eValue req) \<in> P"
      using Cons.prems(2) req by (auto dest!: set_update_subset_insert [THEN subsetD])
    from Cons.IH [OF put_step_ok [OF db Cons.prems(1) req st] this r] show ?thesis .
  qed (use Cons in simp)
qed simp

text \<open>
  C11. Integrity under overlapping calls, with respect to the steps of \<^verbatim>\<open>Put\<close>: on a coordinator that
  starts with an empty cache and no pending timeout, in whatever order the steps of any number of
  calls of \<^verbatim>\<open>Put\<close> come, those taken while another call waits for a reply included, each key of its
  database has the value it had or one that some call brought for it.
\<close>

theorem overlapping_puts_integrity:
  assumes "database (DB_Put dbi) (DB_Get dbi)" and "NodeCache s = cache_New" and "timers s = []"
    and "run_calls g dbi schedule (map (new_call ctx) reqs, s, w) = Inr (cs, s', w')"
  shows "DB_Get dbi k (DB s') = DB_Get dbi k (DB s) \<or>
    (\<exists>req\<in>set reqs. eKey req = k \<and> DB_Get dbi k (DB s') = Inr (eValue req))"
proof -
  let ?P = "(\<lambda>req. (eKey req, eValue req)) ` set reqs"
  have "node_ok dbi (srv_Config s) (DB s) ?P s"
    using assms(2,3) by (simp add: node_ok_def timers_ok_def node_cache_def)
  from run_calls_ok [OF assms(1) this _ assms(4)] have "node_ok dbi (srv_Config s) (DB s) ?P s'"
    by (auto simp: new_call_def)
  then show ?thesis by (auto simp: node_ok_def)
qed

definition overlap_start :: "put_call list \<times> (string, bytes) gomap Server \<times> (string, bytes) gomap world" where
  "overlap_start = ([new_call Background example_entry, new_call Background \<lparr>eKey = ''key2'', eValue = [9]\<rparr>],
     example_server ''coordinator'' TWO_PHASE [''a'', ''b''], example_world TWO_PHASE [])"

text \<open>
  The second call begins while the first one waits for the reply to its first proposal; then
  the first one goes on and stores its value on the coordinator and on both followers.
\<close>

definition overlap_schedule :: "nat list" where
  "overlap_schedule = replicate 4 0 @ replicate 2 1 @ replicate 21 0"

lemma overlap_run:
  "(case run_calls (cluster_grpc mem_dbi) mem_dbi overlap_schedule overlap_start of
      Inl _ \<Rightarrow> None
    | Inr (cs, s, w) \<Rightarrow> Some (values_of ''key1'' s w)) = Some [Some [118, 49], Some [118, 49], Some [118, 49]]"
  by code_simp

theorem overlapping_puts_integrity_witness:
  "\<exists>cs s w. run_calls (cluster_grpc mem_dbi) mem_dbi overlap_schedule overlap_start = Inr (cs, s, w) \<and>
     DB_Get mem_dbi ''key1'' gm_empty \<noteq> Inr [118, 49] \<and> DB_Get mem_dbi ''key1'' (DB s) = Inr [118, 49] \<and>
     DB_Get mem_dbi ''key2'' (DB s) \<in> {DB_Get mem_dbi ''key2'' gm_empty, Inr [9]}"
proof -
  let ?s = "example_server ''coordinator'' TWO_PHASE [''a'', ''b'']" and ?reqs = "[example_entry, \<lparr>eKey = ''key2'', eValue = [9]\<rparr>]"
  obtain cs s w where r: "run_calls (cluster_grpc mem_dbi) mem_dbi overlap_schedule overlap_start = Inr (cs, s, w)"
      and v: "values_of ''key1'' s w = [Some [118, 49], Some [118, 49], Some [118, 49]]"
    using overlap_run by (auto split: sum.splits)
  have st: "overlap_start = (map (new_call Background) ?reqs, ?s, example_world TWO_PHASE [])" by (simp add: overlap_start_def)
  have start: "NodeCache ?s = cache_New" "timers ?s = []" "DB ?s = gm_empty" by code_simp+
  have empty: "DB_Get mem_dbi ''key1'' gm_empty = Inl (PlainError ''Key not found'')" by code_simp
  note integrity = overlapping_puts_integrity [OF mem_database start(1,2) r [unfolded st], unfolded start(3)]
  have "DB_Get mem_dbi ''key1'' (DB s) \<noteq> DB_Get mem_dbi ''key1'' gm_empty" using v empty by (auto simp: values_of_def)
  then have "DB_Get mem_dbi ''key1'' (DB s) = Inr [118, 49]"
    using integrity [of "''key1''"] by (auto simp: example_entry_def)
  moreover have "DB_Get mem_dbi ''key2'' (DB s) \<in> {DB_Get mem_dbi ''key2'' gm_empty, Inr [9]}"
    using integrity [of "''key2''"] by (auto simp: example_entry_def)
  ultimately show ?thesis using r empty by auto
qed

text \<open>
  Two calls of \<^verbatim>\<open>Put\<close> that overlap end the coordinator, although no message is lost and both
  followers are willing: when a second call begins while the first one is running, its initial
  state comes into the trace of the first one. The first call still runs through all phases, so
  that the coordinator and both followers have its value in their databases; then, where it
  would answer the client, the monitor panics.
\<close>

lemma overlapping_puts_panic:
  "(case run_calls (cluster_grpc mem_dbi) mem_dbi (overlap_schedule @ [0]) overlap_start of
      Inl (Panicked _) \<Rightarrow> True | _ \<Rightarrow> False)"
  by code_simp

end
