(* ===== verification/Recovery.thy ===== *)
theory Recovery
  imports Divergence
begin

text \<open>
  How a coordinator catches up. A follower that is ahead refuses a proposal and tells its height;
  the coordinator takes over that height and proposes again. The call may still fail, because an
  earlier follower has the value at the old height, but afterwards no follower is ahead any more.

  The locale \<open>faithful\<close> adds to \<open>reliable\<close> that an error of a handler is delivered as an error.
\<close>

locale faithful = reliable +
  assumes commit_failed: "up w a \<Longrightarrow> Commit dbi (view w a) (inc ctx) c = Inr ((r, Some e), s') \<Longrightarrow>
    srv_Config s' = srv_Config (view w a) \<Longrightarrow>
    \<exists>e' w'. invoke_Commit g a ctx c w = (Inl e', w') \<and> view w' = (view w)(a := s') \<and> up w' = up w"

section \<open>Handlers of a follower that is ahead\<close>

lemma ahead_Propose:
  assumes "willing s" and "h < Height s"
  obtains s' where "Propose s ctx (proposal ct req h) = Inr ((Some \<lparr>rType = NACK, rIndex = Height s\<rparr>, None), s')"
    "willing s'" "Height s' = Height s" "srv_Config s' = srv_Config s"
proof -
  let ?s = "(SetProgressForCommitPhase s h False)\<lparr>NodeCache := cache_Set (NodeCache s) h (eKey req) (eValue req)\<rparr>"
  show thesis
  proof (rule that [of ?s])
    show "Propose s ctx (proposal ct req h) = Inr ((Some \<lparr>rType = NACK, rIndex = Height s\<rparr>, None), ?s)"
      using assms by (auto simp: willing_def Propose_def ProposeHandler_def SetProgressForCommitPhase_def
          Let_def call_hook_def proposal_def)
    show "willing ?s" using assms(1) by (simp add: willing_def SetProgressForCommitPhase_def)
  qed (auto simp: SetProgressForCommitPhase_def)
qed

text \<open>A commit on a willing node: acknowledged, with the height one higher, or failed with the height as it was.\<close>

lemma willing_CommitHandler_cases:
  assumes "willing t"
  obtains (acked) d where "CommitHandler dbi t q (CommitHook t) = Inr ((Some ack, None), t\<lparr>DB := d\<rparr>)"
    | (failed) r e nc d where "CommitHandler dbi t q (CommitHook t) = Inr ((r, Some e), t\<lparr>NodeCache := nc, DB := d\<rparr>)"
proof -
  obtain c where c: "CommitHook t = Some c" "\<And>x. c x" using assms by (auto simp: willing_def)
  show thesis
  proof (cases "cache_lookup (NodeCache t) (cIndex q)")
    case None
    then have "CommitHandler dbi t q (CommitHook t) = Inr ((Some nack, Some (no_value_error (cIndex q))),
        t\<lparr>NodeCache := cache_Delete (NodeCache t) (cIndex q), DB := DB t\<rparr>)"
      using c by (simp add: CommitHandler_def call_hook_def cache_Get_None)
    then show thesis by (rule failed)
  next
    case (Some kv)
    then obtain k v where kv: "cache_lookup (NodeCache t) (cIndex q) = Some (k, v)" by (cases kv) auto
    obtain r d where d: "DB_Put dbi k v (DB t) = (r, d)" by fastforce
    show thesis
    proof (cases r)
      case None
      then show thesis using c kv d by (intro acked [of d]) (simp add: CommitHandler_def call_hook_def cache_Get_Some)
    next
      case (Some e)
      then show thesis using c kv d
        by (intro failed [of None e d "NodeCache t"]) (simp add: CommitHandler_def call_hook_def cache_Get_Some)
    qed
  qed
qed

lemma willing_Commit_cases:
  assumes "willing s" and "FromIncomingContext ctx = Some md" and "gm_lookup md ''mode'' = None"
  obtains (acked) s' where "Commit dbi s ctx q = Inr ((Some ack, None), s')" "willing s'"
      "srv_Config s' = srv_Config s" "Height s' = Height s + 1"
    | (failed) r e s' where "Commit dbi s ctx q = Inr ((r, Some e), s')" "willing s'"
      "srv_Config s' = srv_Config s" "Height s' = Height s"
proof -
  let ?s = "if three_phase s then SetProgressForCommitPhase s (Height s) True else s"
  have s: "willing ?s" "srv_Config ?s = srv_Config s" "Height ?s = Height s"
    using assms(1) by (auto simp: willing_def SetProgressForCommitPhase_def)
  from s(1) show thesis
  proof (cases rule: willing_CommitHandler_cases [of ?s dbi q])
    case (acked d)
    let ?s' = "incr_Height (?s\<lparr>DB := d\<rparr>)"
    have "Commit dbi s ctx q = Inr ((Some ack, None), ?s')"
      using acked assms(2,3) by (cases "three_phase s") (simp_all add: Commit_def after_commit_def ack_def)
    moreover have "willing ?s'" using s(1) by (auto simp: willing_def incr_Height_def)
    moreover have "srv_Config ?s' = srv_Config s" "Height ?s' = Height s + 1"
      using s(2,3) by (simp_all add: incr_Height_def)
    ultimately show thesis by (rule that(1))
  next
    case (failed r e nc d)
    let ?s' = "?s\<lparr>NodeCache := nc, DB := d\<rparr>"
    have "Commit dbi s ctx q = Inr ((if three_phase s then None else r, Some e), ?s')"
      using failed assms(2,3) by (cases "three_phase s") (simp_all add: Commit_def)
    moreover have "willing ?s'" using s(1) by (auto simp: willing_def)
    moreover have "srv_Config ?s' = srv_Config s" "Height ?s' = Height s" using s(2,3) by simp_all
    ultimately show thesis by (rule that(2))
  qed
qed

section \<open>The proposals\<close>

context reliable
begin

text \<open>One that is ahead refuses it once; then the coordinator has its height.\<close>

text \<open>A follower that is ahead refuses the first proposal, and the coordinator takes over its height.\<close>

lemma propose_loop_ahead:
  assumes st: "status b (monitor s) gs ps [] ''none''" and f: "up w (Connection f)" "willing (view w (Connection f))"
    and ahead: "Height s < Height (view w (Connection f))"
  obtains s1 gs1 w1 b1 t where
    "propose_loop g pid f ctx ct req s gs w = propose_loop g pid f ctx ct req s1 gs1 w1"
    "status b1 (monitor s1) gs1 ps [] ''none''" "kept s s1" "NodeCache s1 = NodeCache s" "Height s1 = Height (view w (Connection f))"
    "view w1 = (view w)(Connection f := t)" "up w1 = up w" "willing t" "Height t = Height (view w (Connection f))"
proof -
  let ?a = "Connection f" and ?h = "Height (view w (Connection f))"
  let ?r = "\<lparr>rType = NACK, rIndex = ?h\<rparr>"
  obtain t where p: "Propose (view w ?a) (inc ctx) (proposal ct req (Height s)) = Inr ((Some ?r, None), t)"
    "willing t" "Height t = ?h" "srv_Config t = srv_Config (view w ?a)"
    using ahead_Propose [OF f(2) ahead] by metis
  from propose_served [OF f(1) p(1,4)] obtain w' where
    i: "invoke_Propose g ?a ctx (proposal ct req (Height s)) w = (Inr ?r, w')" "view w' = (view w)(?a := t)" "up w' = up w"
    by (auto simp: served_def)
  from st i(1) obtain b1 s1 gs1 where l: "status b1 (monitor s1) gs1 ps [] ''none''"
    "propose_once g pid f ctx ct req s gs w = Inr (fst (stub_result (Inr ?r, w')), s1, gs1, w')"
    "propose_loop g pid f ctx ct req s gs w =
       (if acked (Inr ?r) then Some (Inr (fst (stub_result (Inr ?r, w')), s1, gs1, w'))
        else propose_loop g pid f ctx ct req s1 gs1 w')"
    by (rule propose_loop_step [where pid = pid])
  from propose_once_cases [OF l(2)] i(1) have k: "kept s s1" "Height s1 = ?h" "NodeCache s1 = NodeCache s"
    using ahead by (auto simp: bumped_height_def)
  have "propose_loop g pid f ctx ct req s gs w = propose_loop g pid f ctx ct req s1 gs1 w'"
    using l(3) by (simp add: acked_def)
  then show thesis using l(1) k p(2,3) i(2,3) by (intro that [of s1 gs1 w' b1 t]) simp_all
qed

lemma propose_loop_catches_up:
  assumes st: "status b (monitor s) gs ps [] ''none''" and f: "up w (Connection f)" "willing (view w (Connection f))"
  obtains resp s1 gs1 w1 b1 s' where
    "propose_loop g pid f ctx ct req s gs w = Some (Inr ((Some resp, None), s1, gs1, w1))" "rType resp = ACK"
    "status b1 (monitor s1) gs1 ps [] ''none''" "kept s s1" "NodeCache s1 = NodeCache s"
    "Height s1 = max (Height s) (Height (view w (Connection f)))"
    "view w1 = (view w)(Connection f := s')" "up w1 = up w" "willing s'" "Height s' = Height (view w (Connection f))"
    "node_cache s' (Height s1) = Some (eKey req, eValue req)"
proof (cases "Height (view w (Connection f)) \<le> Height s")
  case True
  obtain resp s1 gs1 w1 b1 s' where
    "propose_loop g pid f ctx ct req s gs w = Some (Inr ((Some resp, None), s1, gs1, w1))" "rType resp = ACK"
    "status b1 (monitor s1) gs1 ps [] ''none''" "kept s s1" "NodeCache s1 = NodeCache s" "Height s1 = Height s"
    "view w1 = (view w)(Connection f := s')" "up w1 = up w" "willing s'" "Height s' = Height (view w (Connection f))"
    "node_cache s' = (node_cache (view w (Connection f)))(Height s := Some (eKey req, eValue req))"
    by (rule propose_loop_level [OF st f True])
  then show thesis using True by (intro that [of resp s1 gs1 w1 b1 s']) simp_all
next
  case False
  let ?a = "Connection f"
  from False have "Height s < Height (view w ?a)" by simp
  from propose_loop_ahead [OF st f this] obtain s1 gs1 w1 b1 t where n:
    "propose_loop g pid f ctx ct req s gs w = propose_loop g pid f ctx ct req s1 gs1 w1"
    "status b1 (monitor s1) gs1 ps [] ''none''" "kept s s1" "NodeCache s1 = NodeCache s" "Height s1 = Height (view w ?a)"
    "view w1 = (view w)(?a := t)" "up w1 = up w" "willing t" "Height t = Height (view w ?a)" by metis
  have f': "up w1 ?a" "willing (view w1 ?a)" "Height (view w1 ?a) \<le> Height s1" using f(1) n(5-9) by auto
  obtain resp s2 gs2 w2 b2 s' where r:
    "propose_loop g pid f ctx ct req s1 gs1 w1 = Some (Inr ((Some resp, None), s2, gs2, w2))" "rType resp = ACK"
    "status b2 (monitor s2) gs2 ps [] ''none''" "kept s1 s2" "NodeCache s2 = NodeCache s1" "Height s2 = Height s1"
    "view w2 = (view w1)(?a := s')" "up w2 = up w1" "willing s'" "Height s' = Height (view w1 ?a)"
    "node_cache s' = (node_cache (view w1 ?a))(Height s1 := Some (eKey req, eValue req))"
    by (rule propose_loop_level [OF n(2) f'])
  have "kept s s2" using n(3) r(4) by (rule kept_trans)
  then show thesis using False n r by (intro that [of resp s2 gs2 w2 b2 s']) simp_all
qed

lemma propose_phase_catches_up:
  assumes "status b (monitor s) gs [0..<pid] [] ''none''" and "fs \<noteq> []"
    and "\<And>f. f \<in> set fs \<Longrightarrow> up w (Connection f) \<and> willing (view w (Connection f))"
  shows "\<exists>s1 gs1 ctx1 w1. propose_phase g ct req pid fs ctx s gs w = Some (Inr (None, s1, gs1, ctx1, w1)) \<and>
    kept s s1 \<and> ctx_outgoing ctx1 = ctx_outgoing ctx \<and> up w1 = up w \<and>
    (\<forall>a. Height (view w1 a) = Height (view w a) \<and> (willing (view w a) \<longrightarrow> willing (view w1 a))) \<and>
    (\<forall>f\<in>set fs. Height (view w (Connection f)) \<le> Height s1) \<and>
    Height s1 \<le> fold (\<lambda>f. max (Height (view w (Connection f)))) fs (Height s) \<and>
    node_cache (view w1 (Connection (last fs))) (Height s1) = Some (eKey req, eValue req) \<and>
    cache_lookup (NodeCache s1) (Height s1) = Some (eKey req, eValue req)"
  using assms
proof (induction fs arbitrary: pid ctx s gs w b)
  case (Cons f fs)
  let ?kv = "(eKey req, eValue req)" and ?a = "Connection f"
  have f: "up w ?a" "willing (view w ?a)" using Cons.prems(3) by auto
  obtain resp s1 gs1 w1 b1 s' where l:
    "propose_loop g pid f (put_context s ctx) ct req s gs w = Some (Inr ((Some resp, None), s1, gs1, w1))" "rType resp = ACK"
    "status b1 (monitor s1) gs1 [0..<pid] [] ''none''" "kept s s1" "NodeCache s1 = NodeCache s"
    "Height s1 = max (Height s) (Height (view w ?a))"
    "view w1 = (view w)(?a := s')" "up w1 = up w" "willing s'" "Height s' = Height (view w ?a)"
    "node_cache s' (Height s1) = Some ?kv"
    by (rule propose_loop_catches_up [OF Cons.prems(1) f])
  obtain s2 gs2 where n:
    "propose_phase g ct req pid (f # fs) ctx s gs w = propose_phase g ct req (Suc pid) fs (put_context s ctx) s2 gs2 w1"
    "status b1 (monitor s2) gs2 [0..<Suc pid] [] ''none''" "kept s s2" "Height s2 = Height s1"
    "cache_lookup (NodeCache s2) (Height s1) = Some ?kv"
    by (rule propose_phase_next [OF l(1-4)])
  have h: "Height (view w1 a) = Height (view w a)" "willing (view w a) \<longrightarrow> willing (view w1 a)" for a
    using l(7,9,10) by auto
  have hs: "Height s1 = max (Height (view w ?a)) (Height s)" using l(6) by (rule trans) (rule max.commute)
  show ?case
  proof (cases "fs = []")
    case True
    then show ?thesis using n h hs l(7,8,11) by auto
  next
    case False
    have "up w1 (Connection x) \<and> willing (view w1 (Connection x))" if "x \<in> set fs" for x
      using Cons.prems(3) [of x] that h(2) l(8) by auto
    then obtain s3 gs3 ctx3 w3 where ih:
      "propose_phase g ct req (Suc pid) fs (put_context s ctx) s2 gs2 w1 = Some (Inr (None, s3, gs3, ctx3, w3))"
      "kept s2 s3" "ctx_outgoing ctx3 = ctx_outgoing ctx" "up w3 = up w1"
      "\<forall>a. Height (view w3 a) = Height (view w1 a) \<and> (willing (view w1 a) \<longrightarrow> willing (view w3 a))"
      "\<forall>f\<in>set fs. Height (view w1 (Connection f)) \<le> Height s3"
      "Height s3 \<le> fold (\<lambda>f. max (Height (view w1 (Connection f)))) fs (Height s2)"
      "node_cache (view w3 (Connection (last fs))) (Height s3) = Some ?kv"
      "cache_lookup (NodeCache s3) (Height s3) = Some ?kv"
      using Cons.IH [OF n(2) False, of w1 "put_context s ctx"] by auto
    have "Height s1 \<le> Height s3" using ih(2) n(4) by (simp add: kept_def)
    moreover have "kept s s3" using n(3) ih(2) by (rule kept_trans)
    ultimately show ?thesis using ih n(1,4) h hs l(8) False by (auto simp del: propose_phase.simps)
  qed
qed simp

end

section \<open>The commits\<close>

context faithful
begin

text \<open>One commit: it fails and ends the call, or it is acknowledged and the next follower's turn comes.\<close>

lemma commit_phase_one:
  assumes f: "up w (Connection f)" "willing (view w (Connection f))" and ctx: "ctx_outgoing ctx = None"
    and phase: "commit_phase g pid (f # fs) ctx s gs w = Inr (ret, s1, gs1, w1)"
  obtains (failed) reply r e s' where "ret = Some reply" "Height s1 = Height s" "up w1 = up w"
      "view w1 = (view w)(Connection f := s')" "willing s'" "Height s' = Height (view w (Connection f))"
      "Commit dbi (view w (Connection f)) (inc ctx) \<lparr>cIndex = Height s, cIsRollback = False\<rparr> = Inr ((r, Some e), s')"
    | (acked) s3 gs3 w' s' where "commit_phase g (Suc pid) fs ctx s3 gs3 w' = Inr (ret, s1, gs1, w1)" "Height s3 = Height s"
      "up w' = up w" "view w' = (view w)(Connection f := s')" "willing s'" "Height s' = Height (view w (Connection f)) + 1"
proof -
  let ?a = "Connection f" and ?q = "\<lparr>cIndex = Height s, cIsRollback = False\<rparr>"
  obtain s2 gs2 where m: "mon_commit_sent pid s gs = Inr (s2, gs2)" using phase by (auto elim!: gbind_InrE)
  have s2: "Height s2 = Height s" using kept_monitor_only [OF mon_monitor_only(3) [OF m]] by simp
  obtain md where md: "FromIncomingContext (inc ctx) = Some md" "gm_lookup md ''mode'' = None"
    using inc_mode [OF ctx] by blast
  from f(2) md show thesis
  proof (cases rule: willing_Commit_cases [of "view w ?a" "inc ctx" md dbi ?q])
    case (acked s')
    from commit_served [OF f(1) acked(1,3)] obtain w' where
      i: "invoke_Commit g ?a ctx ?q w = (Inr ack, w')" "view w' = (view w)(?a := s')" "up w' = up w"
      by (auto simp: served_def)
    obtain s3 gs3 where m3: "mon_committed pid s2 gs2 = Inr (s3, gs3)"
        and rest: "commit_phase g (Suc pid) fs ctx s3 gs3 w' = Inr (ret, s1, gs1, w1)"
      using phase m s2 i(1) by (auto simp: peer_defs phase_reply_def ack_def elim!: gbind_InrE)
    have "Height s3 = Height s" using kept_monitor_only [OF mon_monitor_only(4) [OF m3]] s2 by simp
    with i acked show thesis by (intro that(2) [OF rest]) simp_all
  next
    case (failed r e s')
    from commit_failed [OF f(1) failed(1,3)] obtain e' w' where
      i: "invoke_Commit g ?a ctx ?q w = (Inl e', w')" "view w' = (view w)(?a := s')" "up w' = up w" by blast
    then have "ret = Some (Some nack, None)" "s1 = s2" "w1 = w'"
      using phase m s2 by (auto simp: peer_defs phase_reply_def elim!: gbind_InrE)
    with i failed s2 show thesis by (intro that(1)) simp_all
  qed
qed

text \<open>
  With two followers of which the second has the value at the current height, the commits leave no
  follower ahead, whatever the first one answers.
\<close>

lemma commit_phase_two:
  assumes f: "Connection f1 \<noteq> Connection f2"
      "\<And>f. f \<in> {f1, f2} \<Longrightarrow> up w (Connection f) \<and> willing (view w (Connection f)) \<and> Height (view w (Connection f)) \<le> Height s"
    and kv: "node_cache (view w (Connection f2)) (Height s) = Some kv" "takes dbi kv" and ctx: "ctx_outgoing ctx = None"
    and wrap: "unat (Height s) + 1 < 2 ^ 64"
    and phase: "commit_phase g pid [f1, f2] ctx s gs w = Inr (ret, s1, gs1, w1)"
  shows "up w1 = up w \<and> Height s1 = Height s \<and> (\<forall>f\<in>{f1, f2}. willing (view w1 (Connection f)) \<and>
    Height (view w1 (Connection f)) \<le> (if ret = None then Height s + 1 else Height s))"
proof -
  have le: "h \<le> Height s \<Longrightarrow> h + 1 \<le> Height s + 1" "h \<le> Height s \<Longrightarrow> h \<le> Height s + 1" for h :: uint64
    using wrap unat_add_lem [of "Height s" 1] unat_add_lem [of h 1] by (auto simp: word_le_nat_alt)
  have one: "up w (Connection f1)" "willing (view w (Connection f1))" using f(2) [of f1] by auto
  from one ctx phase show ?thesis
  proof (cases rule: commit_phase_one)
    case (failed reply r e s')
    then show ?thesis using f by auto
  next
    case (acked s3 gs3 w' s')
    have two: "up w' (Connection f2)" "willing (view w' (Connection f2))" "view w' (Connection f2) = view w (Connection f2)"
      using f(1) f(2) [of f2] acked by auto
    from two(1,2) ctx acked(1) show ?thesis
    proof (cases rule: commit_phase_one)
      case (failed reply r e t)
      obtain md where md: "FromIncomingContext (inc ctx) = Some md" "gm_lookup md ''mode'' = None"
        using inc_mode [OF ctx] by blast
      have "node_cache (view w' (Connection f2)) (cIndex \<lparr>cIndex = Height s3, cIsRollback = False\<rparr>) = Some kv"
        using kv(1) two(3) acked(2) by simp
      from willing_Commit [OF two(2) this kv(2) md] failed(7) show ?thesis by (metis option.distinct(1) prod.inject sum.inject(2))
    next
      case (acked s4 gs4 w2 t)
      then show ?thesis using f(1) f(2) [of f1] f(2) [of f2] \<open>Height s3 = Height s\<close> \<open>up w' = up w\<close>
          \<open>view w' = (view w)(Connection f1 := s')\<close> \<open>willing s'\<close> \<open>Height s' = Height (view w (Connection f1)) + 1\<close> le
        by auto
    qed
  qed
qed

end

section \<open>Calls of \<^verbatim>\<open>Put\<close>\<close>

text \<open>The two followers can be reached, accept everything, and have room above their heights.\<close>

definition pair_ready :: "('w \<Rightarrow> conn \<Rightarrow> 'd Server) \<Rightarrow> ('w \<Rightarrow> conn \<Rightarrow> bool) \<Rightarrow> 'd Server \<Rightarrow> 'w \<Rightarrow> bool" where
  "pair_ready view up s w \<longleftrightarrow>
     length (Followers s) = 2 \<and> distinct (map Connection (Followers s)) \<and> mon_ok (monitor s) \<and>
     unat (Height s) + 1 < 2 ^ 64 \<and>
     (\<forall>f\<in>set (Followers s). up w (Connection f) \<and> willing (view w (Connection f)) \<and>
        unat (Height (view w (Connection f))) + 1 < 2 ^ 64)"

context faithful
begin

lemma precommit_phase_heights:
  "precommit_phase g s fs ctx w = Inr (ret, ctx1, w1) \<Longrightarrow> Height (view w1 a) = Height (view w a)"
  using precommit_phase_clean [of s fs ctx w ret ctx1 w1 "- 1" kv "{}" for kv]
  by (auto simp: clean_def no_future_def same_data_def)

lemma put_decide_two:
  assumes fs: "Followers s = [f1, f2]" "Connection f1 \<noteq> Connection f2"
      "\<And>f. f \<in> {f1, f2} \<Longrightarrow> up w (Connection f) \<and> willing (view w (Connection f)) \<and> Height (view w (Connection f)) \<le> Height s"
    and kv: "node_cache (view w (Connection f2)) (Height s) = Some kv" "takes dbi kv" "cache_lookup (NodeCache s) (Height s) = Some kv"
    and ctx: "ctx_outgoing ctx = None" and wrap: "unat (Height s) + 1 < 2 ^ 64"
    and put: "put_decide g dbi s gs ctx w = Inr (reply, s', w')"
  shows "\<forall>f\<in>{f1, f2}. up w' (Connection f) \<and> willing (view w' (Connection f)) \<and> Height (view w' (Connection f)) \<le> Height s'"
proof -
  let ?F = "{Connection f1, Connection f2}"
  have "able view up ?F {Connection f2} (Height s) kv w" using fs(3) kv(1) by (auto simp: able_def)
  from precommit_phase_able [OF this, of "[f1, f2]" s ctx] obtain ctx1 w1 where
    p: "precommit_phase g s [f1, f2] ctx w = Inr (None, ctx1, w1)" "able view up ?F {Connection f2} (Height s) kv w1"
      "ctx_outgoing ctx1 = None" using ctx by auto
  obtain k v where k: "kv = (k, v)" by (cases kv)
  obtain d where d: "DB_Put dbi k v (DB s) = (None, d)"
    using kv(2) by (cases "DB_Put dbi k v (DB s)") (metis fst_conv snd_conv takes_def k)
  let ?s = "s\<lparr>DB := d\<rparr>"
  obtain ret s1 gs1 w2 where c: "commit_phase g 0 [f1, f2] ctx1 ?s gs w1 = Inr (ret, s1, gs1, w2)"
      "(case ret of Some reply \<Rightarrow> Inr (reply, s1, w2) | None \<Rightarrow> put_finish s1 w2) = Inr (reply, s', w')"
    using put p(1) d kv(3) fs(1) by (auto simp: put_decide_def put_persist_def cache_Get_Some k elim!: gbind_InrE)
  have pre: "up w1 (Connection f) \<and> willing (view w1 (Connection f)) \<and> Height (view w1 (Connection f)) \<le> Height ?s" if "f \<in> {f1, f2}" for f
    using p(2) fs(3) [OF that] that precommit_phase_heights [OF p(1), of "Connection f"] by (auto simp: able_def)
  have "node_cache (view w1 (Connection f2)) (Height ?s) = Some kv" "unat (Height ?s) + 1 < 2 ^ 64"
    using p(2) wrap by (auto simp: able_def)
  from commit_phase_two [OF fs(2) pre this(1) kv(2) p(3) this(2) c(1)] have
    r: "up w2 = up w1" "Height s1 = Height s" "\<forall>f\<in>{f1, f2}. willing (view w2 (Connection f)) \<and>
      Height (view w2 (Connection f)) \<le> (if ret = None then Height s + 1 else Height s)" by auto
  show ?thesis using c(2) r pre
    by (cases ret) (auto simp: put_finish_def Let_def incr_Height_def elim!: gbind_InrE)
qed

lemma Put_catches_up:
  assumes ready: "pair_ready view up s w" and ctx: "ctx_outgoing ctx = None" and takes: "takes dbi (eKey req, eValue req)"
  obtains reply s' w' where "Put g dbi s ctx req w = Some (Inr (reply, s', w'))" "same_setup s s'" "mon_ok (monitor s')"
    "\<And>f. f \<in> set (Followers s) \<Longrightarrow> up w' (Connection f) \<and> willing (view w' (Connection f)) \<and>
      Height (view w' (Connection f)) \<le> Height s'"
proof -
  have "length (Followers s) = Suc (Suc 0)" using ready by (simp add: pair_ready_def)
  then obtain f1 f2 where fs1: "Followers s = [f1, f2]" unfolding length_Suc_conv by blast
  then have fs: "Followers s = [f1, f2]" "Connection f1 \<noteq> Connection f2" using ready by (auto simp: pair_ready_def)
  have ok: "mon_ok (monitor s)" and f: "\<And>f. f \<in> {f1, f2} \<Longrightarrow> up w (Connection f) \<and> willing (view w (Connection f))"
    using ready fs(1) by (auto simp: pair_ready_def)
  obtain m gs where start: "put_start s = Inr (s\<lparr>monitor := m\<rparr>, gs)" "status True m gs [] [] ''none''"
    using put_start_status [OF ok] by blast
  let ?s = "s\<lparr>monitor := m\<rparr>" and ?kv = "(eKey req, eValue req)"
  have "status True (monitor ?s) gs [0..<0] [] ''none''" using start(2) by simp
  from propose_phase_catches_up [OF this, of "[f1, f2]" w "put_ctype s" req ctx] f obtain s1 gs1 ctx1 w1 where
    p: "propose_phase g (put_ctype s) req 0 [f1, f2] ctx ?s gs w = Some (Inr (None, s1, gs1, ctx1, w1))"
      "kept ?s s1" "ctx_outgoing ctx1 = ctx_outgoing ctx" "up w1 = up w"
      "\<forall>a. Height (view w1 a) = Height (view w a) \<and> (willing (view w a) \<longrightarrow> willing (view w1 a))"
      "\<forall>f\<in>{f1, f2}. Height (view w (Connection f)) \<le> Height s1"
      "Height s1 \<le> max (Height (view w (Connection f2))) (max (Height (view w (Connection f1))) (Height s))"
      "node_cache (view w1 (Connection f2)) (Height s1) = Some ?kv"
      "cache_lookup (NodeCache s1) (Height s1) = Some ?kv" by auto
  have put: "Put g dbi s ctx req w = Some (put_decide g dbi s1 gs1 ctx1 w1)"
    using start(1) p(1) fs(1) by (simp add: Put_def)
  then obtain reply s' w' where d: "put_decide g dbi s1 gs1 ctx1 w1 = Inr (reply, s', w')" "same_setup s s'" "mon_ok (monitor s')"
    using put_status [OF ok put] fs(1) by (auto split: sum.splits)
  have "unat (Height s1) + 1 < 2 ^ 64"
    using p(7) ready fs(1) by (auto simp: pair_ready_def word_le_nat_alt max_def split: if_splits)
  moreover have "up w1 (Connection f) \<and> willing (view w1 (Connection f)) \<and> Height (view w1 (Connection f)) \<le> Height s1"
    if "f \<in> {f1, f2}" for f using p(4,5,6) f [OF that] that by auto
  moreover have "Followers s1 = [f1, f2]" using p(2) fs(1) by (simp add: kept_def)
  ultimately have "\<forall>f\<in>{f1, f2}. up w' (Connection f) \<and> willing (view w' (Connection f)) \<and> Height (view w' (Connection f)) \<le> Height s'"
    using put_decide_two [OF _ fs(2) _ p(8) takes p(9) _ _ d(1)] p(3) ctx by auto
  then show thesis using put d fs(1) by (intro that [of reply s' w']) auto
qed

end

section \<open>The cluster\<close>

lemma deliver_failed:
  assumes "cluster_up w a" and "h (nodes w a) = Inr ((r, Some e), s')"
    and "srv_Config s' = srv_Config (nodes w a)" and "call (nodes w a, ()) = local_call h (nodes w a, ())"
  shows "\<exists>e' w'. deliver call a w = (Inl e', w') \<and> nodes w' = (nodes w)(a := s') \<and> cluster_up w' = cluster_up w"
  using assms
  by (auto simp: deliver_def local_call_def cluster_up_def rpc_reply_def fun_eq_iff split: option.splits)

lemma cluster_faithful:
  assumes "database (DB_Put dbi) (DB_Get dbi)"
  shows "faithful (cluster_grpc dbi) dbi nodes cluster_up incoming"
proof (intro faithful.intro cluster_reliable assms faithful_axioms.intro)
  fix w :: "'a world" and a ctx c r e s'
  assume up: "cluster_up w a" and "Commit dbi (nodes w a) (incoming ctx) c = Inr ((r, Some e), s')"
    and "srv_Config s' = srv_Config (nodes w a)"
  then show "\<exists>e' w'. invoke_Commit (cluster_grpc dbi) a ctx c w = (Inl e', w') \<and> nodes w' = (nodes w)(a := s') \<and> cluster_up w' = cluster_up w"
    unfolding cluster_grpc_def grpc.simps Commit_Commit_Handler_def
    by (rule deliver_failed) (rule checked_call_up [where h = "\<lambda>c q s. Commit dbi s c q", OF up])
qed

interpretation mem_faithful: faithful "cluster_grpc mem_dbi" mem_dbi nodes cluster_up incoming
  by (rule cluster_faithful) (rule mem_database)

text \<open>
  C8. Recovery: on a transport without losses, with two followers that accept everything, at most
  one call fails because a follower is ahead of the coordinator. Whatever the heights of the nodes
  are and whatever they have cached, the first call of \<^verbatim>\<open>Put\<close> returns without a panic, and the one
  after it is acknowledged.
\<close>

theorem Put_recovers:
  assumes "faithful g dbi view up inc" and "pair_ready view up s w"
    and "ctx_outgoing ctx1 = None" and "ctx_outgoing ctx2 = None"
    and "takes dbi (eKey req1, eValue req1)" and "takes dbi (eKey req2, eValue req2)"
  shows "\<exists>reply s1 w1 s2 w2. Put g dbi s ctx1 req1 w = Some (Inr (reply, s1, w1)) \<and>
    Put g dbi s1 ctx2 req2 w1 = Some (Inr ((Some ack, None), s2, w2))"
proof -
  obtain reply s1 w1 where p: "Put g dbi s ctx1 req1 w = Some (Inr (reply, s1, w1))" "same_setup s s1" "mon_ok (monitor s1)"
    "\<And>f. f \<in> set (Followers s) \<Longrightarrow> up w1 (Connection f) \<and> willing (view w1 (Connection f)) \<and>
      Height (view w1 (Connection f)) \<le> Height s1"
    by (rule faithful.Put_catches_up [OF assms(1,2,3,5)]) blast
  have fs: "Followers s1 = Followers s" "length (Followers s1) = 2"
    using p(2) assms(2) by (auto simp: same_setup_def pair_ready_def)
  have "reliable g dbi view up inc" using assms(1) by (simp add: faithful_def)
  from reliable.Put_able [OF this fs(2) p(3) assms(4) _ assms(6), of w1] p(4) fs(1)
  have "\<exists>s2 w2. Put g dbi s1 ctx2 req2 w1 = Some (Inr ((Some ack, None), s2, w2))" by metis
  then show ?thesis using p(1) by blast
qed

lemma behind_ready:
  "pair_ready nodes cluster_up (example_server ''coordinator'' TWO_PHASE [''a'', ''b'']) behind_world"
proof -
  have "''127.0.0.1'' \<in> set (Whitelist (srv_Config (example_server ''follower'' TWO_PHASE [''c''])))"
      "Height (example_server ''follower'' TWO_PHASE [''c'']) = 0"
      "Height (example_server ''coordinator'' TWO_PHASE [''a'', ''b'']) = 0" by code_simp+
  moreover have "fates behind_world = []" by (simp add: behind_world_def example_world_def Let_def)
  moreover have "nodes behind_world ''a'' = example_server ''follower'' TWO_PHASE [''c'']"
      "nodes behind_world ''b'' = (example_server ''follower'' TWO_PHASE [''c''])\<lparr>Height := 1\<rparr>"
    by (simp_all add: behind_world_def nodes_def Let_def example_world_def)
  moreover have "willing ((example_server ''follower'' TWO_PHASE [''c''])\<lparr>Height := 1\<rparr>)"
    using example_willing by (simp add: willing_def)
  ultimately show ?thesis using example_willing
    by (simp add: pair_ready_def example_coordinator cluster_up_def)
qed

theorem Put_recovers_witness:
  "\<exists>reply s1 w1 s2 w2.
     Put (cluster_grpc mem_dbi) mem_dbi (example_server ''coordinator'' TWO_PHASE [''a'', ''b''])
       Background example_entry behind_world = Some (Inr (reply, s1, w1)) \<and>
     Put (cluster_grpc mem_dbi) mem_dbi s1 Background example_entry w1 = Some (Inr ((Some ack, None), s2, w2))"
  by (rule Put_recovers [OF mem_faithful.faithful_axioms behind_ready])
    (simp_all add: example_takes Background_def)

end
