(* ===== verification/Stale_Heights.thy ===== *)
theory Stale_Heights
  imports Recovery
begin

text \<open>
  Why a follower that is ahead of the coordinator breaks atomicity. The first follower has taken the
  proposal at the old height when the second one raises the coordinator's height; nothing is
  proposed to the first follower again, so at the commit it looks up an index at which this call
  has left it nothing. What the call does then depends on what the first follower has cached there:
  nothing, or the value of an earlier call.
\<close>

section \<open>The phases\<close>

lemma Commit_no_value:
  assumes "willing s" and "node_cache s (cIndex q) = None"
    and "FromIncomingContext ctx = Some md" and "gm_lookup md ''mode'' = None"
  obtains r e s' where "Commit dbi s ctx q = Inr ((r, Some e), s')" "DB s' = DB s" "srv_Config s' = srv_Config s"
proof -
  obtain c where c: "CommitHook s = Some c" "\<And>x. c x" using assms(1) by (auto simp: willing_def)
  let ?s = "if three_phase s then SetProgressForCommitPhase s (Height s) True else s"
  let ?t = "?s\<lparr>NodeCache := cache_Delete (NodeCache ?s) (cIndex q)\<rparr>"
  have "CommitHandler dbi ?s q (CommitHook ?s) = Inr ((Some nack, Some (no_value_error (cIndex q))), ?t)"
    using c assms(2) by (auto simp: CommitHandler_def call_hook_def cache_Get_None node_cache_def SetProgressForCommitPhase_def)
  then have "\<exists>r. Commit dbi s ctx q = Inr ((r, Some (no_value_error (cIndex q))), ?t)"
    using assms(3,4) by (cases "three_phase s") (auto simp: Commit_def Let_def)
  moreover have "DB ?t = DB s" "srv_Config ?t = srv_Config s" by (auto simp: SetProgressForCommitPhase_def)
  ultimately show thesis using that by blast
qed

context network
begin

lemma precommit_phase_same:
  assumes "precommit_phase g s fs ctx w = Inr (ret, ctx1, w1)"
  shows "DB (view w1 a) = DB (view w a) \<and> node_cache (view w1 a) = node_cache (view w a)"
  using assms
proof (induction fs arbitrary: ctx w)
  case (Cons f fs)
  obtain r w2 where i: "invoke_Precommit g (Connection f) (put_context s ctx) \<lparr>pcIndex = Height s\<rparr> w = (r, w2)"
    by fastforce
  obtain ictx where o: "outcome view (\<lambda>x. Precommit x ictx \<lparr>pcIndex = Height s\<rparr>) (Connection f) w (r, w2)"
    using precommit [of "\<lparr>pcIndex = Height s\<rparr>" "Connection f" w "put_context s ctx"] i by auto
  have n: "DB (view w2 a) = DB (view w a) \<and> node_cache (view w2 a) = node_cache (view w a)"
    using o by (auto simp: outcome_def split: sum.splits dest!: Precommit_cases)
  obtain ret' where "phase_reply (fst (stub_result (r, w2))) = Inr ret'"
    using Cons.prems(1) i by (cases r) (auto simp: peer_defs elim!: gbind_InrE)
  then show ?case using Cons.prems(1) i n Cons.IH [of _ w2] by (cases r; cases ret') (auto simp: peer_defs)
qed simp

end

context reliable
begin

text \<open>The proposals to two followers of which the second one alone is ahead.\<close>

lemma propose_phase_second_ahead:
  assumes st: "status b (monitor s) gs [0..<0] [] ''none''" and a: "Connection f1 \<noteq> Connection f2"
    and f: "\<And>f. f \<in> {f1, f2} \<Longrightarrow> up w (Connection f) \<and> willing (view w (Connection f))"
    and h: "Height (view w (Connection f1)) \<le> Height s" "Height s < Height (view w (Connection f2))"
  obtains s1 gs1 ctx1 w1 where
    "propose_phase g ct req 0 [f1, f2] ctx s gs w = Some (Inr (None, s1, gs1, ctx1, w1))"
    "kept s s1" "Height s1 = Height (view w (Connection f2))" "ctx_outgoing ctx1 = ctx_outgoing ctx"
    "cache_lookup (NodeCache s1) (Height s1) = Some (eKey req, eValue req)" "same_data (view w) (view w1)"
    "\<And>f. f \<in> {f1, f2} \<Longrightarrow> up w1 (Connection f) \<and> willing (view w1 (Connection f))"
    "node_cache (view w1 (Connection f1)) (Height s1) = node_cache (view w (Connection f1)) (Height s1)"
    "node_cache (view w1 (Connection f2)) (Height s1) = Some (eKey req, eValue req)"
proof -
  let ?kv = "(eKey req, eValue req)" and ?a1 = "Connection f1" and ?a2 = "Connection f2"
  have u1: "up w ?a1" "willing (view w ?a1)" using f [of f1] by auto
  obtain resp s1 gs1 w1 b1 t1 where l1:
    "propose_loop g 0 f1 (put_context s ctx) ct req s gs w = Some (Inr ((Some resp, None), s1, gs1, w1))" "rType resp = ACK"
    "status b1 (monitor s1) gs1 [0..<0] [] ''none''" "kept s s1" "NodeCache s1 = NodeCache s" "Height s1 = Height s"
    "view w1 = (view w)(?a1 := t1)" "up w1 = up w" "willing t1" "Height t1 = Height (view w ?a1)"
    "node_cache t1 = (node_cache (view w ?a1))(Height s := Some ?kv)"
    by (rule propose_loop_level [OF st u1 h(1)])
  obtain s2 gs2 where n1:
    "propose_phase g ct req 0 [f1, f2] ctx s gs w = propose_phase g ct req (Suc 0) [f2] (put_context s ctx) s2 gs2 w1"
    "status b1 (monitor s2) gs2 [0..<Suc 0] [] ''none''" "kept s s2" "Height s2 = Height s1"
    by (rule propose_phase_next [OF l1(1-4)])
  have u2: "up w1 ?a2" "willing (view w1 ?a2)" "view w1 ?a2 = view w ?a2" using f [of f2] a l1(7,8) by auto
  obtain resp2 s3 gs3 w3 b3 t2 where l2:
    "propose_loop g (Suc 0) f2 (put_context s2 (put_context s ctx)) ct req s2 gs2 w1 = Some (Inr ((Some resp2, None), s3, gs3, w3))"
    "rType resp2 = ACK" "status b3 (monitor s3) gs3 [0..<Suc 0] [] ''none''" "kept s2 s3" "NodeCache s3 = NodeCache s2"
    "Height s3 = max (Height s2) (Height (view w1 ?a2))"
    "view w3 = (view w1)(?a2 := t2)" "up w3 = up w1" "willing t2" "Height t2 = Height (view w1 ?a2)"
    "node_cache t2 (Height s3) = Some ?kv"
    by (rule propose_loop_catches_up [OF n1(2) u2(1,2)])
  obtain s4 gs4 where n2:
    "propose_phase g ct req (Suc 0) [f2] (put_context s ctx) s2 gs2 w1 =
       propose_phase g ct req (Suc (Suc 0)) [] (put_context s2 (put_context s ctx)) s4 gs4 w3"
    "status b3 (monitor s4) gs4 [0..<Suc (Suc 0)] [] ''none''" "kept s2 s4" "Height s4 = Height s3"
    "cache_lookup (NodeCache s4) (Height s3) = Some ?kv"
    by (rule propose_phase_next [OF l2(1-4)])
  have run: "propose_phase g ct req 0 [f1, f2] ctx s gs w = Some (Inr (None, s4, gs4, put_context s2 (put_context s ctx), w3))"
    using n1(1) n2(1) by simp
  have h4: "Height s4 = Height (view w ?a2)" using n2(4) l2(6) n1(4) l1(6) u2(3) h(2) by (simp add: max_def less_imp_le)
  have ne: "Height s4 \<noteq> Height s" using h4 h(2) by auto
  show thesis
  proof (rule that [OF run _ h4])
    show "kept s s4" using n1(3) n2(3) by (rule kept_trans)
    show "cache_lookup (NodeCache s4) (Height s4) = Some ?kv" using n2(4,5) by simp
    show "same_data (view w) (view w3)" using propose_phase_height [OF run] by simp
    show "up w3 (Connection f) \<and> willing (view w3 (Connection f))" if "f \<in> {f1, f2}" for f
      using f [OF that] that l1(7,8,9) l2(7,8,9) by auto
    show "node_cache (view w3 ?a1) (Height s4) = node_cache (view w ?a1) (Height s4)"
      using a l1(7,11) l2(7) ne by simp
    show "node_cache (view w3 ?a2) (Height s4) = Some ?kv" using l2(7,11) n2(4) by simp
  qed simp
qed

text \<open>The commits, when each follower has some value at the index.\<close>

lemma commit_phase_each:
  assumes "\<And>f. f \<in> set fs \<Longrightarrow> up w (Connection f) \<and> willing (view w (Connection f)) \<and>
      node_cache (view w (Connection f)) (Height s) = Some (c (Connection f)) \<and> takes dbi (c (Connection f))"
    and "distinct (map Connection fs)" and "ctx_outgoing ctx = None"
    and "commit_phase g pid fs ctx s gs w = Inr (ret, s1, gs1, w1)"
  shows "ret = None \<and> DB s1 = DB s \<and>
    (\<forall>a k. DB_Get dbi k (DB (view w1 a)) =
       (if a \<in> Connection ` set fs \<and> k = fst (c a) then Inr (snd (c a)) else DB_Get dbi k (DB (view w a))))"
  using assms
proof (induction fs arbitrary: pid s gs w)
  case (Cons f fs)
  let ?a = "Connection f" and ?q = "\<lparr>cIndex = Height s, cIsRollback = False\<rparr>"
  obtain s2 gs2 where m: "mon_commit_sent pid s gs = Inr (s2, gs2)" using Cons.prems(4) by (auto elim!: gbind_InrE)
  have s2: "Height s2 = Height s" "DB s2 = DB s" using kept_monitor_only [OF mon_monitor_only(3) [OF m]] by (auto simp: kept_def)
  have w: "up w ?a" "willing (view w ?a)" "node_cache (view w ?a) (cIndex ?q) = Some (c ?a)" "takes dbi (c ?a)"
    using Cons.prems(1) [of f] by auto
  obtain md where "FromIncomingContext (inc ctx) = Some md" "gm_lookup md ''mode'' = None"
    using inc_mode [OF Cons.prems(3)] by blast
  from willing_Commit [OF w(2,3,4) this] obtain s' where
    p: "Commit dbi (view w ?a) (inc ctx) ?q = Inr ((Some ack, None), s')" "willing s'"
      "srv_Config s' = srv_Config (view w ?a)" "node_cache s' = node_cache (view w ?a)" .
  have "DB_Put dbi (fst (c ?a)) (snd (c ?a)) (DB (view w ?a)) = (None, DB s')"
    using Commit_cases [OF p(1)] w(3) by (auto simp: commit_effect_def ack_def)
  then have db: "DB_Get dbi k (DB s') = (if k = fst (c ?a) then Inr (snd (c ?a)) else DB_Get dbi k (DB (view w ?a)))" for k
    using put_get put_other by auto
  from commit_served [OF w(1) p(1,3)] obtain w' where
    i: "invoke_Commit g ?a ctx ?q w = (Inr ack, w')" "view w' = (view w)(?a := s')" "up w' = up w"
    by (auto simp: served_def)
  obtain s3 gs3 where m3: "mon_committed pid s2 gs2 = Inr (s3, gs3)"
      and rest: "commit_phase g (Suc pid) fs ctx s3 gs3 w' = Inr (ret, s1, gs1, w1)"
    using Cons.prems(4) m s2 i(1) by (auto simp: peer_defs phase_reply_def ack_def elim!: gbind_InrE)
  have s3: "Height s3 = Height s" "DB s3 = DB s"
    using kept_monitor_only [OF mon_monitor_only(4) [OF m3]] s2 by (auto simp: kept_def)
  have "up w' (Connection x) \<and> willing (view w' (Connection x)) \<and>
      node_cache (view w' (Connection x)) (Height s3) = Some (c (Connection x)) \<and> takes dbi (c (Connection x))" if "x \<in> set fs" for x
    using Cons.prems(1) [of x] that i(2,3) p(2,4) s3(1) by auto
  from Cons.IH [OF this _ Cons.prems(3) rest] Cons.prems(2) s3(2) i(2) db show ?case by auto
qed simp

end

section \<open>Calls of \<^verbatim>\<open>Put\<close>\<close>

text \<open>Two followers that can be reached and accept everything, of which the second one alone is ahead of the coordinator.\<close>

definition second_ahead ::
    "('w \<Rightarrow> conn \<Rightarrow> 'd Server) \<Rightarrow> ('w \<Rightarrow> conn \<Rightarrow> bool) \<Rightarrow> 'd Server \<Rightarrow> 'w \<Rightarrow> CommitClient \<Rightarrow> CommitClient \<Rightarrow> bool" where
  "second_ahead view up s w f1 f2 \<longleftrightarrow>
     Followers s = [f1, f2] \<and> Connection f1 \<noteq> Connection f2 \<and> mon_ok (monitor s) \<and>
     (\<forall>f\<in>{f1, f2}. up w (Connection f) \<and> willing (view w (Connection f))) \<and>
     Height (view w (Connection f1)) \<le> Height s \<and> Height s < Height (view w (Connection f2))"

context reliable
begin

text \<open>The call comes to its commits with the height of the second follower, its value in its own database.\<close>

lemma Put_second_ahead:
  assumes ahead: "second_ahead view up s w f1 f2" and ctx: "ctx_outgoing ctx = None" and takes: "takes dbi (eKey req, eValue req)"
  obtains r ctx1 s1 gs1 w1 ret s2 gs2 w2 where "Put g dbi s ctx req w = Some (Inr r)"
    "commit_phase g 0 [f1, f2] ctx1 s1 gs1 w1 = Inr (ret, s2, gs2, w2)"
    "(case ret of Some reply \<Rightarrow> Inr (reply, s2, w2) | None \<Rightarrow> put_finish s2 w2) = Inr r"
    "Height s1 = Height (view w (Connection f2))" "ctx_outgoing ctx1 = None" "holds dbi (eKey req, eValue req) s1"
    "\<forall>a. DB (view w1 a) = DB (view w a)"
    "\<forall>f\<in>{f1, f2}. up w1 (Connection f) \<and> willing (view w1 (Connection f))"
    "node_cache (view w1 (Connection f1)) (Height s1) = node_cache (view w (Connection f1)) (Height s1)"
    "node_cache (view w1 (Connection f2)) (Height s1) = Some (eKey req, eValue req)"
proof -
  let ?kv = "(eKey req, eValue req)" and ?F = "{Connection f1, Connection f2}"
  have fs: "Followers s = [f1, f2]" "Connection f1 \<noteq> Connection f2" "mon_ok (monitor s)"
    and h: "Height (view w (Connection f1)) \<le> Height s" "Height s < Height (view w (Connection f2))"
    and f: "\<And>f. f \<in> {f1, f2} \<Longrightarrow> up w (Connection f) \<and> willing (view w (Connection f))"
    using ahead by (auto simp: second_ahead_def)
  obtain m gs where start: "put_start s = Inr (s\<lparr>monitor := m\<rparr>, gs)" "status True m gs [] [] ''none''"
    using put_start_status [OF fs(3)] by blast
  let ?s = "s\<lparr>monitor := m\<rparr>"
  have "status True (monitor ?s) gs [0..<0] [] ''none''" "Height (view w (Connection f1)) \<le> Height ?s"
    "Height ?s < Height (view w (Connection f2))" using start(2) h by simp_all
  from propose_phase_second_ahead [OF this(1) fs(2) f this(2,3)] obtain s1 gs1 ctx1 w1 where
    p: "propose_phase g (put_ctype s) req 0 [f1, f2] ctx ?s gs w = Some (Inr (None, s1, gs1, ctx1, w1))"
    "kept ?s s1" "Height s1 = Height (view w (Connection f2))" "ctx_outgoing ctx1 = ctx_outgoing ctx"
    "cache_lookup (NodeCache s1) (Height s1) = Some ?kv" "same_data (view w) (view w1)"
    "\<And>f. f \<in> {f1, f2} \<Longrightarrow> up w1 (Connection f) \<and> willing (view w1 (Connection f))"
    "node_cache (view w1 (Connection f1)) (Height s1) = node_cache (view w (Connection f1)) (Height s1)"
    "node_cache (view w1 (Connection f2)) (Height s1) = Some ?kv" by metis
  have put: "Put g dbi s ctx req w = Some (put_decide g dbi s1 gs1 ctx1 w1)"
    using start(1) p(1) fs(1) by (simp add: Put_def)
  obtain r where r: "put_decide g dbi s1 gs1 ctx1 w1 = Inr r"
    using put_status [OF fs(3) put] fs(1) by (auto split: sum.splits)
  have "able view up ?F {Connection f2} (Height s1) ?kv w1" using p(7,9) by (auto simp: able_def)
  from precommit_phase_able [OF this, of "[f1, f2]" s1 ctx1] obtain ctx2 w2 where
    pc: "precommit_phase g s1 [f1, f2] ctx1 w1 = Inr (None, ctx2, w2)" "able view up ?F {Connection f2} (Height s1) ?kv w2"
      "ctx_outgoing ctx2 = None" using ctx p(4) by auto
  note same = precommit_phase_same [OF pc(1)]
  obtain d where d: "DB_Put dbi (eKey req) (eValue req) (DB s1) = (None, d)"
    using takes by (cases "DB_Put dbi (eKey req) (eValue req) (DB s1)") (metis fst_conv snd_conv takes_def)
  have fs1: "Followers s1 = [f1, f2]" using p(2) fs(1) by (simp add: kept_def)
  let ?s1 = "s1\<lparr>DB := d\<rparr>"
  obtain ret s2 gs2 w3 where c: "commit_phase g 0 [f1, f2] ctx2 ?s1 gs1 w2 = Inr (ret, s2, gs2, w3)"
      "(case ret of Some reply \<Rightarrow> Inr (reply, s2, w3) | None \<Rightarrow> put_finish s2 w3) = Inr r"
    using r pc(1) d p(5) fs1 by (auto simp: put_decide_def put_persist_def cache_Get_Some elim!: gbind_InrE)
  have "holds dbi ?kv ?s1" using put_get d by (simp add: holds_def)
  then show thesis
    using put r c pc(2,3) p(3,6,8,9) same by (intro that [of r ctx2 ?s1 gs1 w2 ret s2 gs2 w3]) (auto simp: able_def same_data_def)
qed

end

text \<open>
  C23. A follower that is ahead of the coordinator makes \<^verbatim>\<open>Put\<close> fail half way. Over a transport without
  losses, with two willing followers of which the second one alone is ahead, and the first one
  having nothing in its cache at the second one's height: the client gets a refusal, the
  coordinator's database has the value, and no follower's database has changed.
\<close>

theorem stale_height_not_atomic:
  assumes "faithful g dbi view up inc" and "second_ahead view up s w f1 f2"
    and "node_cache (view w (Connection f1)) (Height (view w (Connection f2))) = None"
    and "ctx_outgoing ctx = None" and "takes dbi (eKey req, eValue req)"
  shows "\<exists>s' w'. Put g dbi s ctx req w = Some (Inr ((Some nack, None), s', w')) \<and>
    DB_Get dbi (eKey req) (DB s') = Inr (eValue req) \<and> (\<forall>a. DB (view w' a) = DB (view w a))"
proof -
  have rel: "reliable g dbi view up inc" using assms(1) by (simp add: faithful_def)
  obtain r ctx1 s1 gs1 w1 ret s2 gs2 w2 where p: "Put g dbi s ctx req w = Some (Inr r)"
    "commit_phase g 0 [f1, f2] ctx1 s1 gs1 w1 = Inr (ret, s2, gs2, w2)"
    "(case ret of Some reply \<Rightarrow> Inr (reply, s2, w2) | None \<Rightarrow> put_finish s2 w2) = Inr r"
    "Height s1 = Height (view w (Connection f2))" "ctx_outgoing ctx1 = None" "holds dbi (eKey req, eValue req) s1"
    "\<forall>a. DB (view w1 a) = DB (view w a)"
    "\<forall>f\<in>{f1, f2}. up w1 (Connection f) \<and> willing (view w1 (Connection f))"
    "node_cache (view w1 (Connection f1)) (Height s1) = node_cache (view w (Connection f1)) (Height s1)"
    "node_cache (view w1 (Connection f2)) (Height s1) = Some (eKey req, eValue req)"
    by (rule reliable.Put_second_ahead [OF rel assms(2,4,5)])
  let ?a = "Connection f1" and ?q = "\<lparr>cIndex = Height s1, cIsRollback = False\<rparr>"
  obtain s3 gs3 where m: "mon_commit_sent 0 s1 gs1 = Inr (s3, gs3)" using p(2) by (auto elim!: gbind_InrE)
  have s3: "Height s3 = Height s1" "DB s3 = DB s1" using kept_monitor_only [OF mon_monitor_only(3) [OF m]] by (auto simp: kept_def)
  have up: "up w1 ?a" "willing (view w1 ?a)" "node_cache (view w1 ?a) (cIndex ?q) = None"
    using p(4,8,9) assms(3) by auto
  obtain md where "FromIncomingContext (inc ctx1) = Some md" "gm_lookup md ''mode'' = None"
    using reliable.inc_mode [OF rel p(5)] by blast
  from Commit_no_value [OF up(2,3) this] obtain x e t where
    c: "Commit dbi (view w1 ?a) (inc ctx1) ?q = Inr ((x, Some e), t)" "DB t = DB (view w1 ?a)" "srv_Config t = srv_Config (view w1 ?a)" .
  from faithful.commit_failed [OF assms(1) up(1) c(1,3)] obtain e' w' where
    i: "invoke_Commit g ?a ctx1 ?q w1 = (Inl e', w')" "view w' = (view w1)(?a := t)" by blast
  have "r = ((Some nack, None), s3, w')"
    using p(2,3) m s3 i(1) by (auto simp: peer_defs phase_reply_def elim!: gbind_InrE)
  moreover have "DB (view w' a) = DB (view w a)" for a using i(2) c(2) p(7) by simp
  ultimately show ?thesis using p(1,6) s3(2) by (simp add: holds_def)
qed

theorem stale_height_not_atomic_witness:
  "\<exists>s' w'. Put (cluster_grpc mem_dbi) mem_dbi (example_server ''coordinator'' TWO_PHASE [''a'', ''b''])
       Background example_entry behind_world = Some (Inr ((Some nack, None), s', w')) \<and>
     DB_Get mem_dbi ''key1'' (DB s') = Inr [118, 49] \<and> DB_Get mem_dbi ''key1'' (DB (nodes w' ''b'')) = Inl (PlainError ''Key not found'')"
proof -
  let ?s = "example_server ''coordinator'' TWO_PHASE [''a'', ''b'']"
  let ?f = "\<lambda>a. \<lparr>Connection = a, client_traced = False\<rparr>"
  have "Height ?s = 0" "Height (nodes behind_world ''a'') = 0" "Height (nodes behind_world ''b'') = 1"
    "node_cache (nodes behind_world ''a'') 1 = None" "DB_Get mem_dbi ''key1'' (DB (nodes behind_world ''b'')) = Inl (PlainError ''Key not found'')"
    by code_simp+
  moreover have "second_ahead nodes cluster_up ?s behind_world (?f ''a'') (?f ''b'')"
    using behind_ready calculation(1-3) by (simp add: pair_ready_def second_ahead_def example_coordinator)
  ultimately show ?thesis
    using stale_height_not_atomic [OF mem_faithful.faithful_axioms, of ?s behind_world "?f ''a''" "?f ''b''" Background example_entry]
    by (auto simp: example_takes [unfolded example_entry_def, simplified] Background_def example_entry_def)
qed

text \<open>
  C24. In the same situation, when the first follower has the value of an earlier call in its cache at
  the second one's height, \<^verbatim>\<open>Put\<close> acknowledges and the nodes diverge: the coordinator and the second
  follower have the new value, the first follower has written the old pair instead and reads
  everything else, the new key included, as before.
\<close>

theorem stale_cache_diverges:
  assumes "reliable g dbi view up inc" and "second_ahead view up s w f1 f2"
    and "node_cache (view w (Connection f1)) (Height (view w (Connection f2))) = Some (k', v')"
    and "ctx_outgoing ctx = None" and "takes dbi (eKey req, eValue req)" and "takes dbi (k', v')"
  shows "\<exists>s' w'. Put g dbi s ctx req w = Some (Inr ((Some ack, None), s', w')) \<and>
    DB_Get dbi (eKey req) (DB s') = Inr (eValue req) \<and>
    DB_Get dbi (eKey req) (DB (view w' (Connection f2))) = Inr (eValue req) \<and>
    (\<forall>k. DB_Get dbi k (DB (view w' (Connection f1))) =
       (if k = k' then Inr v' else DB_Get dbi k (DB (view w (Connection f1)))))"
proof -
  let ?kv = "(eKey req, eValue req)" and ?a1 = "Connection f1" and ?a2 = "Connection f2"
  obtain r ctx1 s1 gs1 w1 ret s2 gs2 w2 where p: "Put g dbi s ctx req w = Some (Inr r)"
    "commit_phase g 0 [f1, f2] ctx1 s1 gs1 w1 = Inr (ret, s2, gs2, w2)"
    "(case ret of Some reply \<Rightarrow> Inr (reply, s2, w2) | None \<Rightarrow> put_finish s2 w2) = Inr r"
    "Height s1 = Height (view w ?a2)" "ctx_outgoing ctx1 = None" "holds dbi ?kv s1"
    "\<forall>a. DB (view w1 a) = DB (view w a)"
    "\<forall>f\<in>{f1, f2}. up w1 (Connection f) \<and> willing (view w1 (Connection f))"
    "node_cache (view w1 ?a1) (Height s1) = node_cache (view w ?a1) (Height s1)"
    "node_cache (view w1 ?a2) (Height s1) = Some ?kv"
    by (rule reliable.Put_second_ahead [OF assms(1,2,4,5)])
  define c where "c = (\<lambda>a. if a = ?a1 then (k', v') else ?kv)"
  have ne: "?a1 \<noteq> ?a2" using assms(2) by (simp add: second_ahead_def)
  have "up w1 (Connection f) \<and> willing (view w1 (Connection f)) \<and>
      node_cache (view w1 (Connection f)) (Height s1) = Some (c (Connection f)) \<and> takes dbi (c (Connection f))"
    if "f \<in> set [f1, f2]" for f
    using that p(4,8,9,10) assms(3,5,6) ne by (auto simp: c_def)
  from reliable.commit_phase_each [OF assms(1) this _ p(5,2)] ne have
    e: "ret = None" "DB s2 = DB s1" "\<And>a k. DB_Get dbi k (DB (view w2 a)) =
       (if a \<in> {?a1, ?a2} \<and> k = fst (c a) then Inr (snd (c a)) else DB_Get dbi k (DB (view w1 a)))" by auto
  obtain s' where "r = ((Some ack, None), s', w2)" "DB s' = DB s2"
    using p(3) e(1) by (auto simp: put_finish_def Let_def incr_Height_def elim!: gbind_InrE)
  then show ?thesis using p(1,6,7) e ne by (auto simp: holds_def c_def)
qed

definition stale_world :: "(string, bytes) gomap world" where
  "stale_world =
     (let n = nodes behind_world ''a''
      in behind_world\<lparr>members := gm_update ''a'' (n\<lparr>NodeCache := cache_Set (NodeCache n) 1 ''key1'' [2]\<rparr>) (members behind_world)\<rparr>)"

theorem stale_cache_diverges_witness:
  "\<exists>s' w'. Put (cluster_grpc mem_dbi) mem_dbi (example_server ''coordinator'' TWO_PHASE [''a'', ''b''])
       Background example_entry stale_world = Some (Inr ((Some ack, None), s', w')) \<and>
     DB_Get mem_dbi ''key1'' (DB s') = Inr [118, 49] \<and> DB_Get mem_dbi ''key1'' (DB (nodes w' ''a'')) = Inr [2]"
proof -
  let ?s = "example_server ''coordinator'' TWO_PHASE [''a'', ''b'']"
  let ?f = "\<lambda>a. \<lparr>Connection = a, client_traced = False\<rparr>"
  have h: "Height ?s = 0" "Height (nodes stale_world ''a'') = 0" "Height (nodes stale_world ''b'') = 1"
    "node_cache (nodes stale_world ''a'') 1 = Some (''key1'', [2])"
    by code_simp+
  have "nodes stale_world = (nodes behind_world)(''a'' := (nodes behind_world ''a'')\<lparr>NodeCache :=
      cache_Set (NodeCache (nodes behind_world ''a'')) 1 ''key1'' [2]\<rparr>)" "fates stale_world = fates behind_world"
    by (simp_all add: stale_world_def Let_def)
  then have "second_ahead nodes cluster_up ?s stale_world (?f ''a'') (?f ''b'')"
    using behind_ready h(1-3) by (simp add: pair_ready_def second_ahead_def example_coordinator cluster_up_def willing_def)
  moreover have "takes mem_dbi (''key1'', [2])"
    by (simp add: takes_def mem_dbi_def BadgerDB_def BadgerDB_Put_def mem_badger_def)
  ultimately show ?thesis
    using stale_cache_diverges [OF mem_reliable.reliable_axioms, of ?s stale_world "?f ''a''" "?f ''b''" "''key1''" "[2]" Background example_entry] h(3,4)
    by (auto simp: example_takes [unfolded example_entry_def, simplified] Background_def example_entry_def)
qed

end
