(* ===== verification/Splice.thy ===== *)
theory Splice
  imports Overlap Stale_Heights
begin

text \<open>
  What overlapping calls of \<^verbatim>\<open>Put\<close> can do to each other's data without the monitor seeing it. Two calls
  propose to the first follower, one after the other, at the same index; the follower keeps the
  later value. In the trace the second call begins anew and makes the same steps as the first one,
  because the monitored state has no values in it; so the first call can go on from there.
\<close>

section \<open>Runs of one call among others\<close>

lemma run_calls_alone:
  assumes "i < length cs" and "cs ! i = (req, pc, ctx, gs)"
    and "put_steps_alone g dbi req n (pc, ctx, gs, s, w) = Inr (pc', ctx', gs', s', w')"
  shows "run_calls g dbi (replicate n i @ rest) (cs, s, w) = run_calls g dbi rest (cs[i := (req, pc', ctx', gs')], s', w')"
  using assms
proof (induction n arbitrary: cs pc ctx gs s w)
  case 0
  then show ?case using list_update_id [of cs i] by simp
next
  case (Suc n)
  obtain pc1 ctx1 gs1 s1 w1 where step: "put_step g dbi req (pc, ctx, gs, s, w) = Inr (pc1, ctx1, gs1, s1, w1)"
    and more: "put_steps_alone g dbi req n (pc1, ctx1, gs1, s1, w1) = Inr (pc', ctx', gs', s', w')"
    using Suc.prems(3) by (auto elim!: gbind_InrE)
  from Suc.IH [of "cs[i := (req, pc1, ctx1, gs1)]", OF _ _ more] Suc.prems(1,2) step show ?case by simp
qed

text \<open>The monitored state after a block of the monitor depends on the one before it only.\<close>

lemma mon_block_states:
  "mon_propose_sent pid s gs = Inr (s1, gs1) \<Longrightarrow> mon_propose_sent pid t gs = Inr (t1, gs2) \<Longrightarrow> gs2 = gs1"
  "mon_prepared pid s gs = Inr (s1, gs1) \<Longrightarrow> mon_prepared pid t gs = Inr (t1, gs2) \<Longrightarrow> gs2 = gs1"
  by (auto simp: mon_propose_sent_def mon_prepared_def outbox_step_def inbox_step_def Let_def elim!: gbind_InrE)

lemma put_start_state: "put_start s = Inr (s1, gs1) \<Longrightarrow> put_start t = Inr (t1, gs2) \<Longrightarrow> gs2 = gs1"
  by (auto simp: put_start_def Starting_eq elim!: gbind_InrE)

text \<open>\<open>gs\<close> is the monitored state of a call whose first follower has acknowledged its first proposal.\<close>

definition first_prepared :: "'d Server \<Rightarrow> State \<Rightarrow> bool" where
  "first_prepared s gs \<longleftrightarrow> (\<exists>s0 gs0 s1 gs1 s2 s3 s4 s5. put_start (s2 :: 'd Server) = Inr (s0, gs0) \<and>
     mon_propose_sent 0 (s3 :: 'd Server) gs0 = Inr (s1, gs1) \<and> mon_prepared 0 (s4 :: 'd Server) gs1 = Inr (s5, gs) \<and> s = s5)"

lemma first_prepared_unique:
  assumes "first_prepared s gs" and "first_prepared t gs'"
  shows "gs' = gs"
  using assms unfolding first_prepared_def
  by (elim exE conjE) (metis put_start_state mon_block_states)

context reliable
begin

section \<open>The first proposal of a call\<close>

lemma first_proposal:
  assumes fs: "Followers s = f # fs" and ok: "mon_ok (monitor s)"
    and f: "up w (Connection f)" "willing (view w (Connection f))" "Height (view w (Connection f)) \<le> Height s"
  obtains gs2 s2 w1 t where
    "put_steps_alone g dbi req 5 (Beginning, ctx, gs, s, w) = Inr (Proposing (put_ctype s) 1 fs, put_context s ctx, gs2, s2, w1)"
    "first_prepared s2 gs2" "status True (monitor s2) gs2 [0..<1] [] ''none''" "kept s s2" "Height s2 = Height s"
    "view w1 = (view w)(Connection f := t)" "up w1 = up w" "willing t" "same_data (view w) (view w1)"
    "node_cache t (Height s) = Some (eKey req, eValue req)"
proof -
  let ?kv = "(eKey req, eValue req)"
  obtain m gs0 where start: "put_start s = Inr (s\<lparr>monitor := m\<rparr>, gs0)" "status True m gs0 [] [] ''none''"
    using put_start_status [OF ok] by blast
  let ?s = "s\<lparr>monitor := m\<rparr>" and ?ctx = "put_context s ctx"
  have st: "status True (monitor ?s) gs0 [0..<0] [] ''none''" and level: "Height (view w (Connection f)) \<le> Height ?s"
    using start(2) f(3) by simp_all
  obtain resp s1 gs1 w1 b1 t where once:
    "propose_once g 0 f ?ctx (put_ctype s) req ?s gs0 w = Inr ((Some resp, None), s1, gs1, w1)" "rType resp = ACK"
    "status b1 (monitor s1) gs1 [0..<0] [] ''none''" "kept ?s s1" "NodeCache s1 = NodeCache ?s" "Height s1 = Height ?s"
    "view w1 = (view w)(Connection f := t)" "up w1 = up w" "willing t" "Height t = Height (view w (Connection f))"
    "node_cache t = (node_cache (view w (Connection f)))(Height ?s := Some ?kv)"
    by (rule propose_once_level [OF st f(1,2) level])
  have "status (True \<and> set [0..<0] \<noteq> {0, Suc 0}) (monitor s1) gs1 [0..<0] [] ''none''"
    using propose_once_status [OF st, of g 0 f ?ctx "put_ctype s" req w] once(1) by auto
  then have st1: "status True (monitor s1) gs1 [0..<0] [] ''none''" by simp
  obtain s2 gs2 where rep: "propose_reply 0 req (Some resp) None s1 gs1 = Inr (None, s2, gs2)"
      "status True (monitor s2) gs2 ([0..<0] @ [0]) [] ''none''"
    using propose_reply_status [OF st1, of 0 resp req] once(2) by auto
  obtain s0 q where steps: "put_step g dbi req (Retrying (put_ctype s) 0 f fs, ?ctx, gs0, ?s, w) = Inr (ProposeSent (put_ctype s) 0 f fs q, ?ctx, gs1, s0, w)"
      "put_step g dbi req (ProposeSent (put_ctype s) 0 f fs q, ?ctx, gs1, s0, w) = Inr (ProposeReplied (put_ctype s) 0 f fs (Some resp, None), ?ctx, gs1, s0, w1)"
    and s1: "s1 = raise_Height (Some resp) s0" by (rule round_steps [OF once(1), where dbi = dbi and fs = fs])
  have "put_context ?s ctx = ?ctx" by (simp add: put_context_def three_phase_def)
  then have run: "put_steps_alone g dbi req 5 (Beginning, ctx, gs, s, w) = Inr (Proposing (put_ctype s) 1 fs, ?ctx, gs2, s2, w1)"
    using start(1) fs steps once(2) rep(1) s1
    by (simp add: eval_nat_numeral propose_again_def del: put_step.simps(4,5))
  let ?c = "s1\<lparr>NodeCache := cache_Set (NodeCache s1) (Height s1) (eKey req) (eValue req)\<rparr>"
  have m2: "mon_prepared 0 ?c gs1 = Inr (s2, gs2)"
    using rep(1) once(2) by (auto simp: propose_reply_def Let_def elim!: gbind_InrE)
  obtain s3 where m1: "mon_propose_sent 0 ?s gs0 = Inr (s3, gs1)"
    using once(1) by (auto simp: propose_once_steps elim!: gbind_InrE split: prod.splits)
  have "first_prepared s2 gs2" using start(1) m1 m2 unfolding first_prepared_def by blast
  moreover have "kept s s2" "Height s2 = Height s"
    using kept_monitor_only [OF mon_monitor_only(2) [OF m2]] once(4,6) by (auto simp: kept_def)
  moreover have "same_data (view w) (view w1)" using propose_once_height [OF once(1)] by simp
  ultimately show thesis using run rep(2) once(7,8,9,11) by (intro that [of gs2 s2 w1 t]) auto
qed

section \<open>The rest of the call\<close>

lemma put_decide_each:
  assumes st: "status True (monitor s) gs [0..<2] [] ''none''" and fs: "Followers s = [f1, f2]" "Connection f1 \<noteq> Connection f2"
    and f: "\<And>f. f \<in> {f1, f2} \<Longrightarrow> up w (Connection f) \<and> willing (view w (Connection f)) \<and>
      node_cache (view w (Connection f)) (Height s) = Some (c (Connection f)) \<and> takes dbi (c (Connection f))"
    and kv: "cache_lookup (NodeCache s) (Height s) = Some kv" "takes dbi kv" and ctx: "ctx_outgoing ctx = None"
  shows "\<exists>s' w'. put_decide g dbi s gs ctx w = Inr ((Some ack, None), s', w') \<and> holds dbi kv s' \<and>
    (\<forall>a k. DB_Get dbi k (DB (view w' a)) =
       (if a \<in> {Connection f1, Connection f2} \<and> k = fst (c a) then Inr (snd (c a)) else DB_Get dbi k (DB (view w a))))"
proof -
  let ?F = "{Connection f1, Connection f2}"
  have "able view up ?F {Connection f1} (Height s) (c (Connection f1)) w" using f by (auto simp: able_def)
  from precommit_phase_able [OF this, of "[f1, f2]" s ctx] ctx obtain ctx1 w1 where
    pc: "precommit_phase g s [f1, f2] ctx w = Inr (None, ctx1, w1)" "able view up ?F {Connection f1} (Height s) (c (Connection f1)) w1"
      "ctx_outgoing ctx1 = None" by auto
  note same = precommit_phase_same [OF pc(1)]
  obtain k v where k: "kv = (k, v)" by (cases kv)
  obtain d where d: "DB_Put dbi k v (DB s) = (None, d)"
    using kv(2) by (cases "DB_Put dbi k v (DB s)") (metis fst_conv snd_conv takes_def k)
  let ?s = "s\<lparr>DB := d\<rparr>"
  have "True \<longleftrightarrow> True \<and> (set [0..<2] = {0, Suc 0} \<or> Followers s = [])" by auto
  from put_decide_status [OF st this, of g dbi ctx w] obtain r where r: "put_decide g dbi s gs ctx w = Inr r"
    by (auto split: sum.splits)
  obtain ret s2 gs2 w2 where cp: "commit_phase g 0 [f1, f2] ctx1 ?s gs w1 = Inr (ret, s2, gs2, w2)"
      "(case ret of Some reply \<Rightarrow> Inr (reply, s2, w2) | None \<Rightarrow> put_finish s2 w2) = Inr r"
    using r pc(1) d kv(1) fs(1) k by (auto simp: put_decide_def put_persist_def cache_Get_Some elim!: gbind_InrE)
  have "up w1 (Connection f) \<and> willing (view w1 (Connection f)) \<and>
      node_cache (view w1 (Connection f)) (Height ?s) = Some (c (Connection f)) \<and> takes dbi (c (Connection f))"
    if "f \<in> set [f1, f2]" for f
    using that f [of f] pc(2) same [of "Connection f"] by (auto simp: able_def)
  from commit_phase_each [OF this _ pc(3) cp(1)] fs(2) have
    e: "ret = None" "DB s2 = d" "\<And>a k. DB_Get dbi k (DB (view w2 a)) =
       (if a \<in> ?F \<and> k = fst (c a) then Inr (snd (c a)) else DB_Get dbi k (DB (view w a)))" using same by auto
  obtain s' where "r = ((Some ack, None), s', w2)" "DB s' = d"
    using cp(2) e(1,2) by (auto simp: put_finish_def Let_def incr_Height_def elim!: gbind_InrE)
  then show ?thesis using r e(3) put_get d k by (auto simp: holds_def)
qed

lemma second_proposal:
  assumes st: "status True (monitor s) gs [0..<1] [] ''none''" and fs: "Followers s = [f1, f2]" "Connection f1 \<noteq> Connection f2"
    and f1: "up w (Connection f1)" "willing (view w (Connection f1))" "node_cache (view w (Connection f1)) (Height s) = Some kv1"
    and f2: "up w (Connection f2)" "willing (view w (Connection f2))" "Height (view w (Connection f2)) \<le> Height s"
    and takes: "takes dbi kv1" "takes dbi (eKey req, eValue req)" and ctx: "ctx_outgoing ctx = None"
  shows "\<exists>s' w'. put_rest g dbi req (Proposing ct 1 [f2], ctx, gs, s, w) = Some (Inr ((Some ack, None), s', w')) \<and>
    DB_Get dbi (eKey req) (DB s') = Inr (eValue req) \<and>
    DB_Get dbi (eKey req) (DB (view w' (Connection f2))) = Inr (eValue req) \<and>
    (\<forall>k. DB_Get dbi k (DB (view w' (Connection f1))) =
       (if k = fst kv1 then Inr (snd kv1) else DB_Get dbi k (DB (view w (Connection f1)))))"
proof -
  let ?kv = "(eKey req, eValue req)"
  obtain resp s1 gs1 w1 b1 t where l:
    "propose_loop g 1 f2 (put_context s ctx) ct req s gs w = Some (Inr ((Some resp, None), s1, gs1, w1))" "rType resp = ACK"
    "status b1 (monitor s1) gs1 [0..<1] [] ''none''" "kept s s1" "NodeCache s1 = NodeCache s" "Height s1 = Height s"
    "view w1 = (view w)(Connection f2 := t)" "up w1 = up w" "willing t" "Height t = Height (view w (Connection f2))"
    "node_cache t = (node_cache (view w (Connection f2)))(Height s := Some ?kv)"
    by (rule propose_loop_level [OF st f2])
  obtain s2 gs2 where n:
    "propose_phase g ct req 1 [f2] ctx s gs w = propose_phase g ct req (Suc 1) [] (put_context s ctx) s2 gs2 w1"
    "status b1 (monitor s2) gs2 [0..<Suc 1] [] ''none''" "kept s s2" "Height s2 = Height s1"
    "cache_lookup (NodeCache s2) (Height s1) = Some ?kv"
    by (rule propose_phase_next [OF l(1-4)])
  have run: "propose_phase g ct req 1 [f2] ctx s gs w = Some (Inr (None, s2, gs2, put_context s ctx, w1))" using n(1) by simp
  from propose_phase_status [OF run st] have st2: "status True (monitor s2) gs2 [0..<2] [] ''none''"
    by (auto simp: numeral_2_eq_2)
  define c where "c = (\<lambda>a. if a = Connection f1 then kv1 else ?kv)"
  have ready: "up w1 (Connection f) \<and> willing (view w1 (Connection f)) \<and>
      node_cache (view w1 (Connection f)) (Height s2) = Some (c (Connection f)) \<and> takes dbi (c (Connection f))"
    if "f \<in> {f1, f2}" for f using that f1 f2 l(6-9,11) n(4) takes fs(2) by (auto simp: c_def)
  have fs2: "Followers s2 = [f1, f2]" using n(3) fs(1) by (simp add: kept_def)
  have kv2: "cache_lookup (NodeCache s2) (Height s2) = Some ?kv" "ctx_outgoing (put_context s ctx) = None" using n(4,5) ctx by simp_all
  from put_decide_each [OF st2 fs2 fs(2) ready kv2(1) takes(2) kv2(2)] obtain s' w' where
    d: "put_decide g dbi s2 gs2 (put_context s ctx) w1 = Inr ((Some ack, None), s', w')" "holds dbi ?kv s'"
      "\<forall>a k. DB_Get dbi k (DB (view w' a)) =
         (if a \<in> {Connection f1, Connection f2} \<and> k = fst (c a) then Inr (snd (c a)) else DB_Get dbi k (DB (view w1 a)))" by metis
  have "put_rest g dbi req (Proposing ct 1 [f2], ctx, gs, s, w) = Some (Inr ((Some ack, None), s', w'))"
    using run d(1) by (simp add: after_propose_def)
  then show ?thesis using d(2,3) fs(2) l(7) by (auto simp: holds_def c_def)
qed

end

section \<open>Two calls\<close>

lemma answer_Answered:
  "answer c = Some (Inr (reply, s, w)) \<Longrightarrow> \<exists>ctx gs. c = Inr (Answered reply, ctx, gs, s, w)"
  by (cases c rule: answer.cases) auto

text \<open>
  C9. Overlapping calls of \<^verbatim>\<open>Put\<close> can leave the nodes with different data behind an acknowledgement, and
  the monitor does not see it. Take a transport without losses and two willing followers, neither of
  them ahead of the coordinator, and any two requests that the databases take. There is an
  interleaving of the steps of the two calls (both propose to the first follower, then the first
  call goes on alone) in which the first call is acknowledged, the coordinator and the second
  follower have its value, and the first follower has written the pair of the second call and reads
  everything else, the first key included, as before.
\<close>

theorem overlapping_puts_diverge:
  assumes "reliable g dbi view up inc" and "Followers s = [f1, f2]" and "Connection f1 \<noteq> Connection f2" and "mon_ok (monitor s)"
    and "\<And>f. f \<in> {f1, f2} \<Longrightarrow> up w (Connection f) \<and> willing (view w (Connection f)) \<and> Height (view w (Connection f)) \<le> Height s"
    and "ctx_outgoing ctx = None" and "takes dbi (eKey req1, eValue req1)" and "takes dbi (eKey req2, eValue req2)"
  shows "\<exists>n cs s' w'. run_calls g dbi (replicate 5 0 @ replicate 5 1 @ replicate n 0)
      ([new_call ctx req1, new_call ctx req2], s, w) = Inr (cs, s', w') \<and>
    fst (snd (cs ! 0)) = Answered (Some ack, None) \<and>
    DB_Get dbi (eKey req1) (DB s') = Inr (eValue req1) \<and>
    DB_Get dbi (eKey req1) (DB (view w' (Connection f2))) = Inr (eValue req1) \<and>
    (\<forall>k. DB_Get dbi k (DB (view w' (Connection f1))) =
       (if k = eKey req2 then Inr (eValue req2) else DB_Get dbi k (DB (view w (Connection f1)))))"
proof -
  let ?a1 = "Connection f1" and ?a2 = "Connection f2"
  have f1: "up w ?a1" "willing (view w ?a1)" "Height (view w ?a1) \<le> Height s"
    and f2: "up w ?a2" "willing (view w ?a2)" "Height (view w ?a2) \<le> Height s" using assms(5) by blast+
  obtain gsA s2 w1 t where A:
    "put_steps_alone g dbi req1 5 (Beginning, ctx, nil_state, s, w) = Inr (Proposing (put_ctype s) 1 [f2], put_context s ctx, gsA, s2, w1)"
    "first_prepared s2 gsA" "status True (monitor s2) gsA [0..<1] [] ''none''" "kept s s2" "Height s2 = Height s"
    "view w1 = (view w)(?a1 := t)" "up w1 = up w" "willing t" "same_data (view w) (view w1)"
    by (rule reliable.first_proposal [OF assms(1,2,4) f1])
  have "Followers s2 = [f1, f2]" "mon_ok (monitor s2)" "up w1 ?a1" "willing (view w1 ?a1)" "Height (view w1 ?a1) \<le> Height s2"
    using A(3-9) assms(2) f1 status_mon_ok by (auto simp: kept_def same_data_def simp del: fun_upd_apply) (simp_all add: A(6,8))
  from reliable.first_proposal [OF assms(1) this] obtain gsB s3 w2 t' where B:
    "put_steps_alone g dbi req2 5 (Beginning, ctx, nil_state, s2, w1) = Inr (Proposing (put_ctype s2) 1 [f2], put_context s2 ctx, gsB, s3, w2)"
    "first_prepared s3 gsB" "status True (monitor s3) gsB [0..<1] [] ''none''" "kept s2 s3" "Height s3 = Height s2"
    "view w2 = (view w1)(?a1 := t')" "up w2 = up w1" "willing t'" "same_data (view w1) (view w2)"
    "node_cache t' (Height s2) = Some (eKey req2, eValue req2)" by metis
  have gs: "gsB = gsA" using first_prepared_unique [OF A(2) B(2)] .
  have pre: "Followers s3 = [f1, f2]" "up w2 ?a1" "willing (view w2 ?a1)" "node_cache (view w2 ?a1) (Height s3) = Some (eKey req2, eValue req2)"
    "up w2 ?a2" "willing (view w2 ?a2)" "Height (view w2 ?a2) \<le> Height s3" "ctx_outgoing (put_context s ctx) = None"
    using A(4-8) B(4-8,10) assms(2,3,6) f1 f2 by (auto simp: kept_def put_context_def WithTimeout_def)
  from reliable.second_proposal [OF assms(1) B(3) pre(1) assms(3) pre(2-7) assms(8,7) pre(8), of "put_ctype s"] obtain s' w' where
    rest: "put_rest g dbi req1 (Proposing (put_ctype s) 1 [f2], put_context s ctx, gsB, s3, w2) = Some (Inr ((Some ack, None), s', w'))"
    and data: "DB_Get dbi (eKey req1) (DB s') = Inr (eValue req1)"
    "DB_Get dbi (eKey req1) (DB (view w' ?a2)) = Inr (eValue req1)"
    "\<forall>k. DB_Get dbi k (DB (view w' ?a1)) = (if k = eKey req2 then Inr (eValue req2) else DB_Get dbi k (DB (view w2 ?a1)))"
    by auto
  from ends_Proposing [OF rest] obtain n where
    "answer (put_steps_alone g dbi req1 n (Proposing (put_ctype s) 1 [f2], put_context s ctx, gsA, s3, w2)) = Some (Inr ((Some ack, None), s', w'))"
    unfolding ends_def gs by blast
  from answer_Answered [OF this] obtain ctx' gs' where
    fin: "put_steps_alone g dbi req1 n (Proposing (put_ctype s) 1 [f2], put_context s ctx, gsA, s3, w2) = Inr (Answered (Some ack, None), ctx', gs', s', w')"
    by blast
  let ?cs = "[new_call ctx req1, new_call ctx req2]"
  let ?A = "(req1, Proposing (put_ctype s) 1 [f2], put_context s ctx, gsA)"
    and ?B = "(req2, Proposing (put_ctype s2) 1 [f2], put_context s2 ctx, gsB)"
  have "run_calls g dbi (replicate 5 0 @ replicate 5 1 @ replicate n 0) (?cs, s, w) =
      run_calls g dbi (replicate 5 1 @ replicate n 0) (?cs[0 := ?A], s2, w1)"
    by (rule run_calls_alone [OF _ _ A(1)]) (simp_all add: new_call_def)
  also have "\<dots> = run_calls g dbi (replicate n 0) (?cs[0 := ?A, 1 := ?B], s3, w2)"
    by (rule run_calls_alone [OF _ _ B(1)]) (simp_all add: new_call_def)
  also have "\<dots> = Inr (?cs[0 := ?A, 1 := ?B, 0 := (req1, Answered (Some ack, None), ctx', gs')], s', w')"
    using run_calls_alone [OF _ _ fin, of 0 "?cs[0 := ?A, 1 := ?B]" "[]"] by simp
  finally have run: "run_calls g dbi (replicate 5 0 @ replicate 5 1 @ replicate n 0) (?cs, s, w) =
      Inr (?cs[0 := ?A, 1 := ?B, 0 := (req1, Answered (Some ack, None), ctx', gs')], s', w')" .
  have "DB (view w2 ?a1) = DB (view w ?a1)" using A(9) B(9) by (simp add: same_data_def)
  then show ?thesis using data by (intro exI conjI) (rule run, simp_all)
qed

theorem overlapping_puts_diverge_witness:
  "\<exists>n cs s' w'. run_calls (cluster_grpc mem_dbi) mem_dbi (replicate 5 0 @ replicate 5 1 @ replicate n 0) overlap_start = Inr (cs, s', w') \<and>
     fst (snd (cs ! 0)) = Answered (Some ack, None) \<and> DB_Get mem_dbi ''key1'' (DB s') = Inr [118, 49] \<and>
     DB_Get mem_dbi ''key1'' (DB (nodes w' ''a'')) = Inl (PlainError ''Key not found'') \<and> DB_Get mem_dbi ''key2'' (DB (nodes w' ''a'')) = Inr [9]"
proof -
  let ?s = "example_server ''coordinator'' TWO_PHASE [''a'', ''b'']" and ?w = "example_world TWO_PHASE []"
  let ?f = "\<lambda>a. \<lparr>Connection = a, client_traced = False\<rparr>" and ?req = "\<lparr>eKey = ''key2'', eValue = [9]\<rparr>"
  have f: "cluster_up ?w (Connection f) \<and> willing (nodes ?w (Connection f)) \<and> Height (nodes ?w (Connection f)) \<le> Height ?s"
    if "f \<in> {?f ''a'', ?f ''b''}" for f
    using example_ready [of f] that by (simp only: example_coordinator(1) list.set)
  have takes: "takes mem_dbi (eKey ?req, eValue ?req)"
    by (simp add: takes_def mem_dbi_def BadgerDB_def BadgerDB_Put_def mem_badger_def)
  have empty: "DB_Get mem_dbi ''key1'' (DB (nodes ?w ''a'')) = Inl (PlainError ''Key not found'')" by code_simp
  have ctx: "ctx_outgoing Background = None" and ne: "Connection (?f ''a'') \<noteq> Connection (?f ''b'')" by (simp_all add: Background_def)
  from overlapping_puts_diverge [OF mem_reliable.reliable_axioms example_coordinator(1) ne example_coordinator(2) f ctx example_takes takes]
  obtain n cs s' w' where "run_calls (cluster_grpc mem_dbi) mem_dbi (replicate 5 0 @ replicate 5 1 @ replicate n 0) overlap_start = Inr (cs, s', w')"
      "fst (snd (cs ! 0)) = Answered (Some ack, None)" "DB_Get mem_dbi ''key1'' (DB s') = Inr [118, 49]"
      "\<forall>k. DB_Get mem_dbi k (DB (nodes w' ''a'')) = (if k = ''key2'' then Inr [9] else DB_Get mem_dbi k (DB (nodes ?w ''a'')))"
    by (auto simp: overlap_start_def example_entry_def)
  moreover have "DB_Get mem_dbi ''key1'' (DB (nodes w' ''a'')) = Inl (PlainError ''Key not found'')"
      "DB_Get mem_dbi ''key2'' (DB (nodes w' ''a'')) = Inr [9]" using calculation(4) empty by simp_all
  ultimately show ?thesis by blast
qed

end
