(* ===== verification/Monitor_Laws.thy ===== *)
theory Monitor_Laws
  imports Monitored_Put
begin

text \<open>
  What it means that the monitor accepts a trace, whoever logged it: the check of a trace is the
  check of each event against the one before it, and accepted traces have the safety properties
  of the commit protocol, provided that the events of the network leave the coordinator's
  variables alone. The generated checks of the two network actions do not see to that.
\<close>

section \<open>Traces\<close>

definition event_before :: "Event list \<Rightarrow> nat \<Rightarrow> Event" where
  "event_before es i = (if i = 0 then es ! 0 else es ! (i - 1))"

lemma check_events_no_error: "(\<And>j p e. CheckEvent j p e \<noteq> Inr (Some x)) \<Longrightarrow> check_events i prev es \<noteq> Inr (Some x)"
  by (induction es arbitrary: i prev) (auto simp: gbind_eq_Inr split: option.splits)

lemma check_events_nth:
  "i > 0 \<Longrightarrow> check_events i prev es = Inr None \<longleftrightarrow>
     (\<forall>j<length es. CheckEvent (i + j) (if j = 0 then prev else es ! (j - 1)) (es ! j) = Inr None)"
proof (induction es arbitrary: i prev)
  case (Cons e es)
  have "check_events i prev (e # es) = Inr None \<longleftrightarrow>
      CheckEvent i prev e = Inr None \<and> check_events (Suc i) e es = Inr None"
    using Cons.prems by (auto simp: gbind_eq_Inr split: option.splits)
  also have "\<dots> \<longleftrightarrow> CheckEvent i prev e = Inr None \<and>
      (\<forall>j<length es. CheckEvent (Suc i + j) (if j = 0 then e else es ! (j - 1)) (es ! j) = Inr None)"
    using Cons.IH [of "Suc i" e] by simp
  also have "\<dots> \<longleftrightarrow> (\<forall>j<length (e # es).
      CheckEvent (i + j) (if j = 0 then prev else (e # es) ! (j - 1)) ((e # es) ! j) = Inr None)"
    by (simp add: All_less_Suc2 nth_Cons' cong: if_cong)
  finally show ?case .
qed simp

lemma CheckTrace_nth:
  "CheckTrace m = Inr None \<longleftrightarrow>
     (\<forall>i<length (events m). CheckEvent i (event_before (events m) i) (events m ! i) = Inr None)"
proof (cases "events m")
  case (Cons e es)
  have "CheckTrace m = Inr None \<longleftrightarrow> CheckEvent 0 e e = Inr None \<and> check_events 1 e es = Inr None"
    unfolding CheckTrace_def Cons by (auto simp: gbind_eq_Inr split: option.splits)
  also have "\<dots> \<longleftrightarrow> CheckEvent 0 e e = Inr None \<and>
      (\<forall>j<length es. CheckEvent (1 + j) (if j = 0 then e else es ! (j - 1)) (es ! j) = Inr None)"
    using check_events_nth [of 1 e es] by simp
  also have "\<dots> \<longleftrightarrow> (\<forall>i<length (events m). CheckEvent i (event_before (events m) i) (events m ! i) = Inr None)"
    by (simp add: Cons All_less_Suc2 event_before_def nth_Cons' cong: if_cong)
  finally show ?thesis .
qed (simp add: CheckTrace_def)

section \<open>The decision\<close>

definition network_event :: "EventType \<Rightarrow> bool" where
  "network_event t = (case t of NetworkTakeMessage \<Rightarrow> True | NetworkDeliverMessage \<Rightarrow> True
     | InvalidEvent _ \<Rightarrow> True | _ \<Rightarrow> False)"

lemmas check_defs = CheckCSendPrepare_def CheckPHandlePrepare_def CheckCReceivePrepare_def
  CheckCReceiveAbort_def CheckCSendCommit_def CheckCSendAbort_def CheckPHandleCommit_def
  CheckCReceiveCommit_def CheckPHandleAbort_def

lemma CheckEvent_decision:
  assumes "CheckEvent i prev e = Inr None" and "\<not> network_event (etyp e)" and "etyp e \<noteq> Initial"
  shows "tmDecision (estate e) = tmDecision (estate prev) \<or>
    etyp e = CSendCommit \<and> tmDecision (estate prev) \<noteq> TString ''abort'' \<and> tmDecision (estate e) = TString ''commit'' \<or>
    etyp e = CSendAbort \<and> tmDecision (estate prev) \<noteq> TString ''commit'' \<and> tmDecision (estate e) = TString ''abort''"
  using assms
  by (cases "etyp e")
    (auto simp: CheckEvent_def network_event_def check_defs gbind_eq_Inr Let_def require_ok_iff
      And_def Eq_def Neq_def tla_Not_def str_def)

lemma CheckEvent_prepared:
  assumes "CheckEvent i prev e = Inr None" and "\<not> network_event (etyp e)" and "etyp e \<noteq> Initial"
  shows "if etyp e = CReceivePrepare
    then \<exists>xs r rs. tmPrepared (estate prev) = TSeq xs \<and> params e = r # rs \<and> tmPrepared (estate e) = TSeq (xs @ [r])
    else tmPrepared (estate e) = tmPrepared (estate prev)"
  using assms
  by (cases "etyp e")
    (auto simp: CheckEvent_def network_event_def check_defs gbind_eq_Inr Let_def require_ok_iff
      And_def Eq_def Neq_def tla_Not_def str_def tm_append_def Append_def param0_def
      elim!: as_Seq.elims split: list.splits)

text \<open>
  A run of the protocol from its initial state, in which the network does not touch the
  coordinator's variables.
\<close>

definition framed :: "Event list \<Rightarrow> bool" where
  "framed es \<longleftrightarrow> es \<noteq> [] \<and> etyp (es ! 0) = Initial \<and>
     (\<forall>i\<in>set [1..<length es]. etyp (es ! i) \<noteq> Initial \<and>
        (network_event (etyp (es ! i)) \<longrightarrow>
           tmPrepared (estate (es ! i)) = tmPrepared (estate (es ! (i - 1))) \<and>
           tmDecision (estate (es ! i)) = tmDecision (estate (es ! (i - 1)))))"

text \<open>The participants whose reply the coordinator has received, in the order of the trace.\<close>

definition received :: "Event list \<Rightarrow> TLA list" where
  "received es = concat (map (\<lambda>e. if etyp e = CReceivePrepare then take 1 (params e) else []) es)"

lemma accepted_step:
  assumes "CheckTrace m = Inr None" and "0 < i" and "i < length (events m)"
  shows "CheckEvent i (events m ! (i - 1)) (events m ! i) = Inr None"
proof -
  have "CheckEvent i (event_before (events m) i) (events m ! i) = Inr None"
    using assms(1,3) CheckTrace_nth by blast
  then show ?thesis using assms(2) by (simp add: event_before_def)
qed

lemma accepted_prepared:
  assumes "CheckTrace m = Inr None" and "framed (events m)" and "i < length (events m)"
  shows "tmPrepared (estate (events m ! i)) = TSeq (received (take (Suc i) (events m)))"
  using assms(3)
proof (induction i)
  case 0
  let ?e = "events m ! 0"
  have "etyp ?e = Initial" using assms(2) by (simp add: framed_def)
  moreover from this have "CheckInitial 0 zero_event ?e = Inr None"
    using assms(1) 0 by (auto simp: CheckTrace_nth CheckEvent_def)
  then have "tmPrepared (estate ?e) = TSeq []"
    by (simp add: CheckInitial_def Let_def require_ok_iff Eq_def seq_def)
  ultimately show ?case using 0 by (simp add: received_def take_Suc_conv_app_nth)
next
  case (Suc i)
  let ?e = "events m ! Suc i" and ?p = "events m ! i"
  have ih: "tmPrepared (estate ?p) = TSeq (received (take (Suc i) (events m)))" using Suc by simp
  have tk: "received (take (Suc (Suc i)) (events m)) = received (take (Suc i) (events m)) @ received [?e]"
    using Suc.prems by (simp add: take_Suc_conv_app_nth received_def)
  have f: "etyp ?e \<noteq> Initial" "network_event (etyp ?e) \<Longrightarrow> tmPrepared (estate ?e) = tmPrepared (estate ?p)"
    using assms(2) Suc.prems by (auto simp: framed_def)
  show ?case
  proof (cases "network_event (etyp ?e)")
    case True
    then have "received [?e] = []" by (auto simp: received_def network_event_def)
    then show ?thesis using f(2) True ih tk by simp
  next
    case False
    have "CheckEvent (Suc i) ?p ?e = Inr None" using accepted_step [OF assms(1), of "Suc i"] Suc.prems by simp
    from CheckEvent_prepared [OF this False f(1)] ih tk show ?thesis
      by (auto simp: received_def split: if_splits)
  qed
qed

lemma gfold_set_put_values:
  "gfold set_put xs m = Inr m' \<Longrightarrow> gm_lookup m' k = Some v \<Longrightarrow> v \<in> set xs \<or> gm_lookup m k = Some v"
proof (induction xs arbitrary: m)
  case (Cons x xs)
  then obtain m1 where m1: "set_put x m = Inr m1" "gfold set_put xs m1 = Inr m'"
    by (auto simp: gbind_eq_Inr)
  then obtain k' where "m1 = gm_update k' x m" by (auto simp: set_put_def gbind_eq_Inr)
  with Cons.IH [OF m1(2) Cons.prems(2)] show ?case by (auto split: if_splits)
qed simp

lemma received_event:
  assumes "TString r \<in> set (received es)"
  shows "\<exists>j<length es. etyp (es ! j) = CReceivePrepare \<and> take 1 (params (es ! j)) = [TString r]"
proof -
  from assms obtain e where "e \<in> set es" "etyp e = CReceivePrepare" "TString r \<in> set (take 1 (params e))"
    by (auto simp: received_def split: if_splits)
  moreover from this have "take 1 (params e) = [TString r]" by (cases "params e") auto
  ultimately show ?thesis by (metis in_set_conv_nth)
qed

text \<open>The trace of a call of \<^verbatim>\<open>Put\<close> that ends at a failing commit.\<close>

definition example_trace :: Monitor where
  "example_trace =
     (case Put (const_grpc (Inr ack) (Inr ack) (Inl unavailable)) mem_dbi
        (example_server ''coordinator'' TWO_PHASE [''a'', ''b'']) Background example_entry () of
       Some (Inr (_, s', _)) \<Rightarrow> monitor s' | _ \<Rightarrow> NewMonitor)"

lemma example_trace:
  "CheckTrace example_trace = Inr None" "framed (events example_trace)"
  "map etyp (events example_trace) ! 9 = CSendCommit" "length (events example_trace) = 11"
  "tmDecision (estate (events example_trace ! 9)) = TString ''commit''"
proof -
  let ?s = "example_server ''coordinator'' TWO_PHASE [''a'', ''b'']"
  let ?P = "Put (const_grpc (Inr ack) (Inr ack) (Inl unavailable)) mem_dbi ?s Background example_entry ()"
  have n: "length (Followers ?s) = 2" "mon_ok (monitor ?s)" by code_simp+
  have "run_reply ?P = Some (Inr (Some nack, None))" by code_simp
  then obtain s' w' where e: "?P = Some (Inr ((Some nack, None), s', w'))"
    using run_reply_Some by (metis surj_pair)
  with put_status [OF n(2) e] n(1) show "CheckTrace example_trace = Inr None"
    by (simp add: example_trace_def mon_ok_def)
  show "framed (events example_trace)" "map etyp (events example_trace) ! 9 = CSendCommit"
      "length (events example_trace) = 11" "tmDecision (estate (events example_trace ! 9)) = TString ''commit''"
    by code_simp+
qed

section \<open>Safety of accepted traces\<close>

text \<open>
  C14. In an accepted trace of one run (its first event, and no other, is an initial state) whose
  network events leave the coordinator's list of prepared participants and its decision alone, the
  coordinator sends a commit only after it has received the prepared reply of both participants,
  \<open>r1\<close> and \<open>r2\<close>.
\<close>

theorem commit_only_after_prepared:
  assumes "CheckTrace m = Inr None" and "framed (events m)" and "i < length (events m)"
    and "etyp (events m ! i) = CSendCommit" and "r \<in> {''r1'', ''r2''}"
  shows "\<exists>j<i. etyp (events m ! j) = CReceivePrepare \<and> take 1 (params (events m ! j)) = [TString r]"
proof -
  have i: "0 < i" using assms(2,4) by (cases i) (auto simp: framed_def)
  let ?R = "received (take i (events m))"
  have "tmPrepared (estate (events m ! (i - 1))) = TSeq ?R"
    using accepted_prepared [OF assms(1,2), of "i - 1"] assms(3) i by simp
  moreover have "all_prepared (estate (events m ! (i - 1))) = Inr True"
    using accepted_step [OF assms(1) i assms(3)] assms(4)
    by (auto simp: CheckEvent_def CheckCSendCommit_def gbind_eq_Inr Let_def require_ok_iff)
  ultimately have "ToSet ?R = Inr (str_set [''r1'', ''r2''])"
    using mk_set_str [of "[''r1'', ''r2'']"] by (auto simp: all_prepared_def gbind_eq_Inr str_def Eq_def)
  moreover have "gm_lookup (str_set [''r1'', ''r2'']) r = Some (TString r)"
    using assms(5) by (simp add: gm_lookup_str_set)
  ultimately have "TString r \<in> set ?R" using gfold_set_put_values [of ?R gm_empty] by (auto simp: ToSet_def)
  from received_event [OF this] show ?thesis using assms(3) by (auto simp: nth_take)
qed

theorem commit_only_after_prepared_witness:
  "\<exists>j<9. etyp (events example_trace ! j) = CReceivePrepare \<and>
     take 1 (params (events example_trace ! j)) = [TString ''r2'']"
  using commit_only_after_prepared [OF example_trace(1,2), of 9 "''r2''"] example_trace(3,4) by simp

text \<open>
  C18. In an accepted trace of one run (its first event, and no other, is an initial state) whose
  network events leave the coordinator's list of prepared participants and its decision alone, the
  decision is final: once it is to commit or to abort, every later state has the same decision.
  Without the condition on the network this is false, as \<open>network_may_tamper\<close> below shows.
\<close>

theorem decision_final:
  assumes "CheckTrace m = Inr None" and "framed (events m)" and "i \<le> j" and "j < length (events m)"
    and "tmDecision (estate (events m ! i)) \<in> {TString ''commit'', TString ''abort''}"
  shows "tmDecision (estate (events m ! j)) = tmDecision (estate (events m ! i))"
  using assms(3,4)
proof (induction rule: dec_induct)
  case (step j)
  let ?e = "events m ! Suc j" and ?p = "events m ! j"
  have f: "etyp ?e \<noteq> Initial" "network_event (etyp ?e) \<Longrightarrow> tmDecision (estate ?e) = tmDecision (estate ?p)"
    using assms(2) step.prems by (auto simp: framed_def)
  have "tmDecision (estate ?e) = tmDecision (estate ?p)"
  proof (cases "network_event (etyp ?e)")
    case False
    have "CheckEvent (Suc j) ?p ?e = Inr None" using accepted_step [OF assms(1), of "Suc j"] step.prems by simp
    from CheckEvent_decision [OF this False f(1)] step.IH step.prems assms(5) show ?thesis by auto
  qed (rule f(2))
  then show ?case using step by simp
qed simp

theorem decision_final_witness:
  "tmDecision (estate (events example_trace ! 10)) = tmDecision (estate (events example_trace ! 9))"
  using decision_final [OF example_trace(1,2), of 9 10] example_trace(4,5) by simp

text \<open>The same trace with other values in the state of its last event, a network event.\<close>

definition tampered_trace :: Monitor where
  "tampered_trace =
     (let es = events example_trace; e = es ! 10
      in \<lparr>extra = [], events = es[10 := e\<lparr>estate := (estate e)\<lparr>tmDecision := TString ''abort'', tmPrepared := TSeq []\<rparr>\<rparr>]\<rparr>)"

text \<open>
  The monitor accepts a trace in which the network itself turns the decision into an abort and
  empties the list of prepared participants after a commit has been sent: the checks of the two
  network actions do not ask for the coordinator's and the participants' variables to be
  unchanged.
\<close>

theorem network_may_tamper:
  "CheckTrace tampered_trace = Inr None \<and>
   tmDecision (estate (events tampered_trace ! 9)) = TString ''commit'' \<and>
   tmDecision (estate (events tampered_trace ! 10)) = TString ''abort''"
  by code_simp

end
