(* ===== verification/Two_Phase_Spec.thy ===== *)
theory Two_Phase_Spec
  imports Main
begin

text \<open>
  Two-phase commit as the generated monitor understands it, on typed states: one transaction
  manager, two resource managers and a network with an outbox and an inbox per node. The
  specification is independent of the Go code; the theory \<open>Monitor_Refinement\<close> shows that the
  checks of the monitor decide its steps. Its safety property is the consistency of two-phase
  commit: no two resource managers end differently.
\<close>

section \<open>States and actions\<close>

datatype rm = R1 | R2

datatype node = TM | RM rm

datatype mkind = MPrepare | MPrepared | MAborted | MCommit | MCommitted | MAbort

datatype message = Message (kind_of: mkind) (dest_of: node) (source_of: node)

datatype rm_status = Working | Prepared | Committed | Aborted

datatype decision = Undecided | ToCommit | ToAbort

datatype action =
    ASendPrepare rm
  | AVote rm rm_status
  | AReceivePrepare rm
  | AReceiveAbort rm
  | ASendCommit rm
  | ASendAbort rm
  | AHandleCommit rm
  | AReceiveCommit rm
  | AHandleAbort rm
  | ATake message
  | ADeliver message

datatype actor = Nobody | Node node | Network

record tpc =
  tm_committed :: "rm list"
  tm_prepared :: "rm list"
  tm_aborted :: "rm list"
  tm_decision :: decision
  rm_state :: "rm \<Rightarrow> rm_status"
  out_box :: "node \<Rightarrow> message list"
  in_box :: "node \<Rightarrow> message list"
  act_log :: "action list"
  last_actor :: actor

definition tpc_init :: tpc where
  "tpc_init = \<lparr>tm_committed = [], tm_prepared = [], tm_aborted = [], tm_decision = Undecided,
     rm_state = (\<lambda>_. Working), out_box = (\<lambda>_. []), in_box = (\<lambda>_. []), act_log = [], last_actor = Nobody\<rparr>"

section \<open>Steps\<close>

definition send :: "message \<Rightarrow> tpc \<Rightarrow> tpc" where
  "send m p = p\<lparr>out_box := (out_box p)(source_of m := out_box p (source_of m) @ [m])\<rparr>"

definition has_msg :: "message \<Rightarrow> tpc \<Rightarrow> bool" where
  "has_msg m p \<longleftrightarrow> m \<in> set (in_box p (dest_of m))"

definition receive :: "message \<Rightarrow> tpc \<Rightarrow> tpc" where
  "receive m p = p\<lparr>in_box := (in_box p)(dest_of m := removeAll m (in_box p (dest_of m)))\<rparr>"

definition done_by :: "action \<Rightarrow> actor \<Rightarrow> tpc \<Rightarrow> tpc" where
  "done_by a w p = p\<lparr>act_log := act_log p @ [a], last_actor := w\<rparr>"

fun enabled :: "action \<Rightarrow> tpc \<Rightarrow> bool" where
  "enabled (ASendPrepare r) p \<longleftrightarrow> tm_decision p = Undecided \<and> set (tm_prepared p) \<noteq> {R1, R2}"
| "enabled (AVote r v) p \<longleftrightarrow>
     rm_state p r = Working \<and> v \<in> {Prepared, Aborted} \<and> has_msg (Message MPrepare (RM r) TM) p"
| "enabled (AReceivePrepare r) p \<longleftrightarrow> r \<notin> set (tm_prepared p) \<and> has_msg (Message MPrepared TM (RM r)) p"
| "enabled (AReceiveAbort r) p \<longleftrightarrow> r \<notin> set (tm_aborted p) \<and> has_msg (Message MAborted TM (RM r)) p"
| "enabled (ASendCommit r) p \<longleftrightarrow> set (tm_prepared p) = {R1, R2} \<and> tm_decision p \<noteq> ToAbort"
| "enabled (ASendAbort r) p \<longleftrightarrow> tm_aborted p \<noteq> [] \<and> tm_decision p \<noteq> ToCommit \<and> r \<notin> set (tm_aborted p)"
| "enabled (AHandleCommit r) p \<longleftrightarrow> rm_state p r = Prepared \<and> has_msg (Message MCommit (RM r) TM) p"
| "enabled (AReceiveCommit r) p \<longleftrightarrow> r \<notin> set (tm_committed p) \<and> has_msg (Message MCommitted TM (RM r)) p"
| "enabled (AHandleAbort r) p \<longleftrightarrow>
     rm_state p r \<in> {Working, Prepared} \<and> has_msg (Message MAbort (RM r) TM) p"
| "enabled (ATake m) p \<longleftrightarrow> m \<in> set (out_box p (source_of m))"
| "enabled (ADeliver m) p \<longleftrightarrow> True"

fun vote_kind :: "rm_status \<Rightarrow> mkind" where
  "vote_kind Prepared = MPrepared"
| "vote_kind _ = MAborted"

fun effect :: "action \<Rightarrow> tpc \<Rightarrow> tpc" where
  "effect (ASendPrepare r) p = send (Message MPrepare (RM r) TM) p"
| "effect (AVote r v) p = send (Message (vote_kind v) TM (RM r))
     (receive (Message MPrepare (RM r) TM) (p\<lparr>rm_state := (rm_state p)(r := v)\<rparr>))"
| "effect (AReceivePrepare r) p =
     receive (Message MPrepared TM (RM r)) (p\<lparr>tm_prepared := tm_prepared p @ [r]\<rparr>)"
| "effect (AReceiveAbort r) p =
     receive (Message MAborted TM (RM r)) (p\<lparr>tm_aborted := tm_aborted p @ [r]\<rparr>)"
| "effect (ASendCommit r) p = send (Message MCommit (RM r) TM) (p\<lparr>tm_decision := ToCommit\<rparr>)"
| "effect (ASendAbort r) p = send (Message MAbort (RM r) TM) (p\<lparr>tm_decision := ToAbort\<rparr>)"
| "effect (AHandleCommit r) p = send (Message MCommitted TM (RM r))
     (receive (Message MCommit (RM r) TM) (p\<lparr>rm_state := (rm_state p)(r := Committed)\<rparr>))"
| "effect (AReceiveCommit r) p =
     receive (Message MCommitted TM (RM r)) (p\<lparr>tm_committed := tm_committed p @ [r]\<rparr>)"
| "effect (AHandleAbort r) p = send (Message MAborted TM (RM r))
     (receive (Message MAbort (RM r) TM) (p\<lparr>rm_state := (rm_state p)(r := Aborted)\<rparr>))"
| "effect (ATake m) p =
     p\<lparr>out_box := (out_box p)(source_of m := removeAll m (out_box p (source_of m)))\<rparr>"
| "effect (ADeliver m) p = p\<lparr>in_box := (in_box p)(dest_of m := in_box p (dest_of m) @ [m])\<rparr>"

fun actor_of :: "action \<Rightarrow> actor" where
  "actor_of (AVote r v) = Node (RM r)"
| "actor_of (AHandleCommit r) = Node (RM r)"
| "actor_of (AHandleAbort r) = Node (RM r)"
| "actor_of (ATake m) = Network"
| "actor_of (ADeliver m) = Network"
| "actor_of _ = Node TM"

definition tpc_next :: "action \<Rightarrow> tpc \<Rightarrow> tpc option" where
  "tpc_next a p = (if enabled a p then Some (done_by a (actor_of a) (effect a p)) else None)"

text \<open>An honest network delivers only messages that it has taken.\<close>

fun honest :: "action \<Rightarrow> tpc \<Rightarrow> bool" where
  "honest (ADeliver m) p \<longleftrightarrow> ATake m \<in> set (act_log p)"
| "honest _ p \<longleftrightarrow> True"

inductive tpc_reach :: "tpc \<Rightarrow> bool" where
  tpc_start: "tpc_reach tpc_init"
| tpc_more: "tpc_reach p \<Longrightarrow> tpc_next a p = Some t \<Longrightarrow> honest a p \<Longrightarrow> tpc_reach t"

section \<open>Consistency\<close>

text \<open>The messages that are in a box or with the network.\<close>

definition sent :: "message \<Rightarrow> tpc \<Rightarrow> bool" where
  "sent m p \<longleftrightarrow> (\<exists>n. m \<in> set (out_box p n)) \<or> (\<exists>n. m \<in> set (in_box p n)) \<or> ATake m \<in> set (act_log p)"

text \<open>A resource manager that has voted for the commit and could only be moved by an abort.\<close>

definition bound :: "rm \<Rightarrow> tpc \<Rightarrow> bool" where
  "bound r p \<longleftrightarrow> rm_state p r \<in> {Prepared, Committed} \<or> rm_state p r = Aborted \<and> tm_decision p = ToAbort"

definition tpc_inv :: "tpc \<Rightarrow> bool" where
  "tpc_inv p \<longleftrightarrow>
     (\<forall>r. sent (Message MCommit (RM r) TM) p \<longrightarrow> tm_decision p = ToCommit) \<and>
     (\<forall>r. sent (Message MAbort (RM r) TM) p \<longrightarrow> tm_decision p = ToAbort) \<and>
     (\<forall>r. sent (Message MPrepared TM (RM r)) p \<or> r \<in> set (tm_prepared p) \<longrightarrow> bound r p) \<and>
     (\<forall>r. rm_state p r = Committed \<longrightarrow> tm_decision p = ToCommit) \<and>
     (\<forall>r. tm_decision p = ToCommit \<longrightarrow> rm_state p r \<in> {Prepared, Committed})"

lemmas tpc_defs = send_def receive_def has_msg_def done_by_def

lemma sent_done_by [simp]: "sent m (done_by a w p) \<longleftrightarrow> sent m p \<or> a = ATake m"
  by (auto simp: sent_def done_by_def)

lemma sent_send: "sent m (send m' p) \<Longrightarrow> sent m p \<or> m = m'"
  by (auto simp: sent_def send_def split: if_splits)

lemma sent_receive: "sent m (receive m' p) \<Longrightarrow> sent m p"
  by (auto simp: sent_def receive_def split: if_splits)

lemma sent_has_msg: "has_msg m p \<Longrightarrow> sent m p"
  by (auto simp: sent_def has_msg_def)

lemma sent_upd [simp]:
  "sent m (p\<lparr>rm_state := f\<rparr>) = sent m p" "sent m (p\<lparr>tm_prepared := xs\<rparr>) = sent m p"
  "sent m (p\<lparr>tm_aborted := xs\<rparr>) = sent m p" "sent m (p\<lparr>tm_committed := xs\<rparr>) = sent m p"
  "sent m (p\<lparr>tm_decision := d\<rparr>) = sent m p"
  by (simp_all add: sent_def)

lemma rm_all: "(\<forall>r. P r) \<longleftrightarrow> P R1 \<and> P R2"
  by (metis rm.exhaust)

lemma tpc_sel [simp]:
  "tm_decision (send m p) = tm_decision p" "tm_decision (receive m p) = tm_decision p"
  "tm_decision (done_by a w p) = tm_decision p"
  "rm_state (send m p) = rm_state p" "rm_state (receive m p) = rm_state p" "rm_state (done_by a w p) = rm_state p"
  "tm_prepared (send m p) = tm_prepared p" "tm_prepared (receive m p) = tm_prepared p"
  "tm_prepared (done_by a w p) = tm_prepared p"
  by (simp_all add: tpc_defs)

lemma bound_sel [simp]:
  "bound r (send m p) = bound r p" "bound r (receive m p) = bound r p" "bound r (done_by a w p) = bound r p"
  "bound r (p\<lparr>tm_prepared := xs\<rparr>) = bound r p" "bound r (p\<lparr>tm_aborted := xs\<rparr>) = bound r p"
  "bound r (p\<lparr>tm_committed := xs\<rparr>) = bound r p"
  by (simp_all add: bound_def)

lemma sent_effect:
  assumes "enabled a p" and "honest a p"
  shows "sent m (done_by a (actor_of a) (effect a p)) \<Longrightarrow> sent m p \<or>
    (case a of ASendPrepare r \<Rightarrow> m = Message MPrepare (RM r) TM
     | AVote r v \<Rightarrow> m = Message (vote_kind v) TM (RM r)
     | ASendCommit r \<Rightarrow> m = Message MCommit (RM r) TM
     | ASendAbort r \<Rightarrow> m = Message MAbort (RM r) TM
     | AHandleCommit r \<Rightarrow> m = Message MCommitted TM (RM r)
     | AHandleAbort r \<Rightarrow> m = Message MAborted TM (RM r)
     | _ \<Rightarrow> False)"
proof (cases a)
  case (ATake m')
  then show "sent m (done_by a (actor_of a) (effect a p)) \<Longrightarrow> ?thesis"
    using assms by (auto simp: sent_def done_by_def split: if_splits)
next
  case (ADeliver m')
  then show "sent m (done_by a (actor_of a) (effect a p)) \<Longrightarrow> ?thesis"
    using assms by (auto simp: sent_def done_by_def split: if_splits)
qed (auto dest!: sent_send sent_receive)

text \<open>One clause of the invariant at a time; \<open>t\<close> is the state after the step.\<close>

lemma tpc_next_eq: "tpc_next a p = Some t \<longleftrightarrow> enabled a p \<and> t = done_by a (actor_of a) (effect a p)"
  by (auto simp: tpc_next_def)

lemma decision_step:
  assumes "tpc_next a p = Some t"
  shows "tm_decision t = tm_decision p \<or>
    (\<exists>r. a = ASendCommit r) \<and> tm_decision p \<noteq> ToAbort \<and> set (tm_prepared p) = {R1, R2} \<and> tm_decision t = ToCommit \<or>
    (\<exists>r. a = ASendAbort r) \<and> tm_decision p \<noteq> ToCommit \<and> tm_decision t = ToAbort"
  using assms by (cases a) (auto simp: tpc_next_eq)

lemma rm_state_step:
  assumes "tpc_next a p = Some t"
  shows "rm_state t r = rm_state p r \<or>
    a = AVote r (rm_state t r) \<and> rm_state p r = Working \<and> rm_state t r \<in> {Prepared, Aborted} \<or>
    a = AHandleCommit r \<and> rm_state p r = Prepared \<and> rm_state t r = Committed \<and> sent (Message MCommit (RM r) TM) p \<or>
    a = AHandleAbort r \<and> rm_state p r \<in> {Working, Prepared} \<and> rm_state t r = Aborted \<and> sent (Message MAbort (RM r) TM) p"
  using assms by (cases a) (auto simp: tpc_next_eq dest: sent_has_msg)

lemma prepared_step:
  assumes "tpc_next a p = Some t" and "r \<in> set (tm_prepared t)"
  shows "r \<in> set (tm_prepared p) \<or> sent (Message MPrepared TM (RM r)) p"
  using assms by (cases a) (auto simp: tpc_next_eq dest: sent_has_msg)

lemma sent_step:
  assumes "tpc_next a p = Some t" and "honest a p" and "sent m t"
  shows "sent m p \<or> (\<exists>r. m = Message MPrepare (RM r) TM) \<or> (\<exists>r. m = Message MAborted TM (RM r)) \<or>
    (\<exists>r. m = Message MCommitted TM (RM r)) \<or>
    (\<exists>r. a = AVote r Prepared \<and> m = Message MPrepared TM (RM r)) \<or>
    (\<exists>r. a = ASendCommit r \<and> m = Message MCommit (RM r) TM) \<or>
    (\<exists>r. a = ASendAbort r \<and> m = Message MAbort (RM r) TM)"
  using sent_effect [of a p m] assms by (cases a) (auto simp: tpc_next_eq)

lemma tpc_invD:
  assumes "tpc_inv p"
  shows "sent (Message MCommit (RM r) TM) p \<Longrightarrow> tm_decision p = ToCommit"
    and "sent (Message MAbort (RM r) TM) p \<Longrightarrow> tm_decision p = ToAbort"
    and "rm_state p r = Committed \<Longrightarrow> tm_decision p = ToCommit"
    and "tm_decision p = ToCommit \<Longrightarrow> rm_state p r = Prepared \<or> rm_state p r = Committed"
    and "sent (Message MPrepared TM (RM r)) p \<or> r \<in> set (tm_prepared p) \<Longrightarrow> bound r p"
  using assms by (auto simp: tpc_inv_def)

lemma tpc_inv_step:
  assumes inv: "tpc_inv p" and nxt: "tpc_next a p = Some t" and "honest a p"
  shows "tpc_inv t"
proof -
  note ds = decision_step [OF nxt] and rs = rm_state_step [OF nxt]
    and ps = prepared_step [OF nxt] and ss = sent_step [OF nxt assms(3)]
  note invD = tpc_invD [OF inv]
  have keeps: "tm_decision t = d" if "tm_decision p = d" "d \<noteq> Undecided" for d
    using ds that by (cases d) auto
  have bnd: "bound r t" if "bound r p" for r
    using that rs [of r] invD(2) [of r] keeps by (auto simp: bound_def)
  have "tm_decision t = ToCommit" if "sent (Message MCommit (RM r) TM) t" for r
    using ss [OF that] keeps invD(1) [of r] nxt by (auto simp: tpc_next_eq)
  moreover have "tm_decision t = ToAbort" if "sent (Message MAbort (RM r) TM) t" for r
    using ss [OF that] keeps invD(2) [of r] nxt by (auto simp: tpc_next_eq)
  moreover have "bound r t" if "sent (Message MPrepared TM (RM r)) t \<or> r \<in> set (tm_prepared t)" for r
    using that
  proof
    assume "r \<in> set (tm_prepared t)"
    then show ?thesis using ps bnd invD(5) by blast
  next
    assume "sent (Message MPrepared TM (RM r)) t"
    from ss [OF this] have "bound r p \<or> a = AVote r Prepared" using invD(5) by auto
    then show ?thesis using bnd nxt by (auto simp: bound_def tpc_next_eq)
  qed
  moreover have "tm_decision t = ToCommit" if "rm_state t r = Committed" for r
  proof -
    have "rm_state p r = Committed \<or> sent (Message MCommit (RM r) TM) p" using rs [of r] that by auto
    then have "tm_decision p = ToCommit" using tpc_invD [OF inv] by blast
    then show ?thesis using ds by auto
  qed
  moreover have "rm_state t r \<in> {Prepared, Committed}" if c: "tm_decision t = ToCommit" for r
  proof (cases "tm_decision p = ToCommit")
    case True
    then show ?thesis using tpc_invD(2,4) [OF inv, of r] rs [of r] by auto
  next
    case False
    then have "tm_decision p \<noteq> ToAbort" "r \<in> set (tm_prepared p)" "\<exists>q. a = ASendCommit q"
      using ds c by (auto intro: rm.exhaust [of r])
    moreover from this have "bound r p" using inv by (simp add: tpc_inv_def)
    ultimately show ?thesis using rs [of r] by (auto simp: bound_def)
  qed
  ultimately show ?thesis by (simp add: tpc_inv_def)
qed

lemma tpc_inv_init: "tpc_inv tpc_init"
  by (simp add: tpc_inv_def tpc_init_def sent_def)

lemma tpc_reach_inv: "tpc_reach p \<Longrightarrow> tpc_inv p"
  by (induction rule: tpc_reach.induct) (auto intro: tpc_inv_init tpc_inv_step)

text \<open>No resource manager has committed while another has aborted.\<close>

lemma tpc_consistent: "tpc_reach p \<Longrightarrow> rm_state p r = Committed \<Longrightarrow> rm_state p r' \<noteq> Aborted"
  using tpc_invD(3,4) [OF tpc_reach_inv] by (metis rm_status.distinct(9,11))

end
