(* ===== verification/Monitor_Refinement.thy ===== *)
theory Monitor_Refinement
  imports Two_Phase_Spec Monitor_Laws
begin

text \<open>
  The checks of the monitor against the specification of two-phase commit (theory
  \<open>Two_Phase_Spec\<close>). A typed state is written as a record of TLA+ values by \<open>tla_state\<close>. On typed
  states every check gives a verdict, so it never ends in a failed type assertion, an index out of
  range or a nil dereference, and it accepts exactly the steps of the specification. Only for the
  two actions of the network does it accept more: there it leaves the variables of the nodes
  free. Accepted traces inherit the consistency of two-phase commit.
\<close>

section \<open>Typed states as TLA+ values\<close>

fun rm_name :: "rm \<Rightarrow> string" where
  "rm_name R1 = ''r1''"
| "rm_name R2 = ''r2''"

fun node_name :: "node \<Rightarrow> string" where
  "node_name TM = ''coordinator''"
| "node_name (RM r) = rm_name r"

fun kind_name :: "mkind \<Rightarrow> string" where
  "kind_name MPrepare = ''Prepare''"
| "kind_name MPrepared = ''Prepared''"
| "kind_name MAborted = ''Aborted''"
| "kind_name MCommit = ''Commit''"
| "kind_name MCommitted = ''Committed''"
| "kind_name MAbort = ''Abort''"

fun status_name :: "rm_status \<Rightarrow> string" where
  "status_name Working = ''working''"
| "status_name Prepared = ''prepared''"
| "status_name Committed = ''committed''"
| "status_name Aborted = ''aborted''"

fun decision_name :: "decision \<Rightarrow> string" where
  "decision_name Undecided = ''none''"
| "decision_name ToCommit = ''commit''"
| "decision_name ToAbort = ''abort''"

fun actor_name :: "actor \<Rightarrow> string" where
  "actor_name Nobody = ''none''"
| "actor_name (Node n) = node_name n"
| "actor_name Network = ''Network''"

definition msg_tla :: "message \<Rightarrow> TLA" where
  "msg_tla m = msg_rec (kind_name (kind_of m)) (node_name (dest_of m)) (node_name (source_of m))"

definition rm_tla :: "rm \<Rightarrow> TLA" where
  "rm_tla r = TString (rm_name r)"

fun action_type :: "action \<Rightarrow> EventType" where
  "action_type (ASendPrepare r) = CSendPrepare"
| "action_type (AVote r v) = PHandlePrepare"
| "action_type (AReceivePrepare r) = CReceivePrepare"
| "action_type (AReceiveAbort r) = CReceiveAbort"
| "action_type (ASendCommit r) = CSendCommit"
| "action_type (ASendAbort r) = CSendAbort"
| "action_type (AHandleCommit r) = PHandleCommit"
| "action_type (AReceiveCommit r) = CReceiveCommit"
| "action_type (AHandleAbort r) = PHandleAbort"
| "action_type (ATake m) = NetworkTakeMessage"
| "action_type (ADeliver m) = NetworkDeliverMessage"

fun action_param :: "action \<Rightarrow> TLA" where
  "action_param (ASendPrepare r) = rm_tla r"
| "action_param (AVote r v) = rm_tla r"
| "action_param (AReceivePrepare r) = rm_tla r"
| "action_param (AReceiveAbort r) = rm_tla r"
| "action_param (ASendCommit r) = rm_tla r"
| "action_param (ASendAbort r) = rm_tla r"
| "action_param (AHandleCommit r) = rm_tla r"
| "action_param (AReceiveCommit r) = rm_tla r"
| "action_param (AHandleAbort r) = rm_tla r"
| "action_param (ATake m) = msg_tla m"
| "action_param (ADeliver m) = msg_tla m"

fun action_name :: "action \<Rightarrow> string" where
  "action_name (ASendPrepare r) = ''CSendPrepare''"
| "action_name (AVote r v) = ''PHandlePrepare''"
| "action_name (AReceivePrepare r) = ''CReceivePrepare''"
| "action_name (AReceiveAbort r) = ''CReceiveAbort''"
| "action_name (ASendCommit r) = ''CSendCommit''"
| "action_name (ASendAbort r) = ''CSendAbort''"
| "action_name (AHandleCommit r) = ''PHandleCommit''"
| "action_name (AReceiveCommit r) = ''CReceiveCommit''"
| "action_name (AHandleAbort r) = ''PHandleAbort''"
| "action_name (ATake m) = ''NetworkTakeMessage''"
| "action_name (ADeliver m) = ''NetworkDeliverMessage''"

fun action_votes :: "action \<Rightarrow> TLA list" where
  "action_votes (AVote r v) = [TString (status_name v)]"
| "action_votes _ = []"

definition action_tla :: "action \<Rightarrow> TLA" where
  "action_tla a = TSeq (TString (action_name a) # action_param a # action_votes a)"

definition boxes_tla :: "(node \<Rightarrow> message list) \<Rightarrow> TLA" where
  "boxes_tla f = TRecord [(''coordinator'', TSeq (map msg_tla (f TM))),
     (''r1'', TSeq (map msg_tla (f (RM R1)))), (''r2'', TSeq (map msg_tla (f (RM R2))))]"

definition status_tla :: "(rm \<Rightarrow> rm_status) \<Rightarrow> TLA" where
  "status_tla f = TRecord [(''r1'', TString (status_name (f R1))), (''r2'', TString (status_name (f R2)))]"

definition tla_state :: "tpc \<Rightarrow> State" where
  "tla_state p =
     \<lparr>who = TString (actor_name (last_actor p)), actions = TSeq (map action_tla (act_log p)),
      tmCommitted = TSeq (map rm_tla (tm_committed p)), outbox = boxes_tla (out_box p),
      inflight = TSeq [], tmPrepared = TSeq (map rm_tla (tm_prepared p)),
      tmDecision = TString (decision_name (tm_decision p)), tmAborted = TSeq (map rm_tla (tm_aborted p)),
      rmState = status_tla (rm_state p), inbox = boxes_tla (in_box p)\<rparr>"

section \<open>The writing is injective\<close>

lemma node_cases: "(n = TM \<Longrightarrow> P) \<Longrightarrow> (n = RM R1 \<Longrightarrow> P) \<Longrightarrow> (n = RM R2 \<Longrightarrow> P) \<Longrightarrow> P"
  by (metis node.exhaust rm.exhaust)

lemma node_all: "(\<forall>n. P n) \<longleftrightarrow> P TM \<and> P (RM R1) \<and> P (RM R2)"
  by (metis node.exhaust rm.exhaust)

lemma rm_name_inject [simp]: "rm_name r = rm_name r' \<longleftrightarrow> r = r'"
  by (cases r; cases r') simp_all

lemma node_name_inject [simp]: "node_name n = node_name n' \<longleftrightarrow> n = n'"
  by (cases n rule: node_cases; cases n' rule: node_cases) simp_all

lemma kind_name_inject [simp]: "kind_name k = kind_name k' \<longleftrightarrow> k = k'"
  by (cases k; cases k') simp_all

lemma status_name_inject [simp]: "status_name k = status_name k' \<longleftrightarrow> k = k'"
  by (cases k; cases k') simp_all

lemma decision_name_inject [simp]: "decision_name k = decision_name k' \<longleftrightarrow> k = k'"
  by (cases k; cases k') simp_all

lemma node_names: "node_name n \<in> {''coordinator'', ''r1'', ''r2''}"
  by (cases n rule: node_cases) simp_all

lemma actor_name_inject [simp]: "actor_name k = actor_name k' \<longleftrightarrow> k = k'"
proof -
  have "node_name n \<noteq> ''none''" "node_name n \<noteq> ''Network''" for n by (cases n rule: node_cases; simp)+
  then show ?thesis by (cases k; cases k') (auto dest: sym)
qed

lemma rm_tla_inject [simp]: "rm_tla r = rm_tla r' \<longleftrightarrow> r = r'"
  by (simp add: rm_tla_def)

lemma msg_tla_inject [simp]: "msg_tla m = msg_tla m' \<longleftrightarrow> m = m'"
  by (cases m; cases m') (auto simp: msg_tla_def)

lemma msg_rm_tla [simp]: "msg_tla m \<noteq> rm_tla r"
  by (simp add: msg_tla_def msg_rec_def rm_tla_def)

lemma action_tla_inject [simp]: "action_tla a = action_tla b \<longleftrightarrow> a = b"
  by (cases a; cases b) (auto simp: action_tla_def)

lemma map_tla_inject [simp]:
  "map rm_tla xs = map rm_tla ys \<longleftrightarrow> xs = ys" "map msg_tla ms = map msg_tla ns \<longleftrightarrow> ms = ns"
  "map action_tla as = map action_tla bs \<longleftrightarrow> as = bs"
  by (simp_all add: inj_map_eq_map inj_def)

lemma boxes_tla_inject [simp]: "boxes_tla f = boxes_tla g \<longleftrightarrow> f = g"
  unfolding boxes_tla_def fun_eq_iff node_all by simp

lemma status_tla_inject [simp]: "status_tla f = status_tla g \<longleftrightarrow> f = g"
  unfolding status_tla_def fun_eq_iff rm_all by simp

lemma tla_state_sel [simp]:
  "who (tla_state p) = TString (actor_name (last_actor p))"
  "actions (tla_state p) = TSeq (map action_tla (act_log p))"
  "tmCommitted (tla_state p) = TSeq (map rm_tla (tm_committed p))"
  "outbox (tla_state p) = boxes_tla (out_box p)"
  "inflight (tla_state p) = TSeq []"
  "tmPrepared (tla_state p) = TSeq (map rm_tla (tm_prepared p))"
  "tmDecision (tla_state p) = TString (decision_name (tm_decision p))"
  "tmAborted (tla_state p) = TSeq (map rm_tla (tm_aborted p))"
  "rmState (tla_state p) = status_tla (rm_state p)"
  "inbox (tla_state p) = boxes_tla (in_box p)"
  by (simp_all add: tla_state_def)

lemma tla_state_inject [simp]: "tla_state p = tla_state t \<longleftrightarrow> p = t"
proof
  assume "tla_state p = tla_state t"
  then have "who (tla_state p) = who (tla_state t)" "actions (tla_state p) = actions (tla_state t)"
    "tmCommitted (tla_state p) = tmCommitted (tla_state t)" "outbox (tla_state p) = outbox (tla_state t)"
    "tmPrepared (tla_state p) = tmPrepared (tla_state t)" "tmDecision (tla_state p) = tmDecision (tla_state t)"
    "tmAborted (tla_state p) = tmAborted (tla_state t)" "rmState (tla_state p) = rmState (tla_state t)"
    "inbox (tla_state p) = inbox (tla_state t)" by simp_all
  then show "p = t" by (intro tpc.equality) simp_all
qed simp

section \<open>The operators on typed states\<close>

lemma name_prefix: "node_name n @ CHR '','' # xs = node_name n' @ CHR '','' # ys \<longleftrightarrow> n = n' \<and> xs = ys"
  using node_names [of n] node_names [of n'] by (auto simp flip: node_name_inject)

lemma hash_msg_tla_inject: "hash (msg_tla m) = hash (msg_tla m') \<longleftrightarrow> m = m'"
  by (cases m; cases m') (auto simp: msg_tla_def name_prefix)

lemma gfold_set_put_lookup:
  assumes "\<forall>x\<in>set xs. \<exists>k. hash x = Inr k"
  shows "\<exists>S. gfold set_put xs m = Inr S \<and>
    (\<forall>k. gm_lookup S k \<noteq> None \<longleftrightarrow> gm_lookup m k \<noteq> None \<or> (\<exists>x\<in>set xs. hash x = Inr k))"
  using assms
proof (induction xs arbitrary: m)
  case (Cons x xs)
  then obtain k where k: "hash x = Inr k" by auto
  from Cons.IH [of "gm_update k x m"] Cons.prems obtain S where
    "gfold set_put xs (gm_update k x m) = Inr S"
    "\<forall>j. gm_lookup S j \<noteq> None \<longleftrightarrow> gm_lookup (gm_update k x m) j \<noteq> None \<or> (\<exists>x\<in>set xs. hash x = Inr j)"
    by auto
  then have S: "gfold set_put (x # xs) m = Inr S"
    "\<forall>j. gm_lookup S j \<noteq> None \<longleftrightarrow> j = k \<or> gm_lookup m j \<noteq> None \<or> (\<exists>x\<in>set xs. hash x = Inr j)"
    using k by (simp_all add: set_put_def)
  show ?case by (rule exI [of _ S]) (use S k in auto)
qed simp

lemma ToSet_msgs: "\<exists>S. ToSet (map msg_tla ms) = Inr S \<and> SetIn (msg_tla m) S = Inr (m \<in> set ms)"
proof -
  obtain S where S: "gfold set_put (map msg_tla ms) gm_empty = Inr S"
      "\<forall>k. gm_lookup S k \<noteq> None \<longleftrightarrow> (\<exists>x\<in>set (map msg_tla ms). hash x = Inr k)"
    using gfold_set_put_lookup [of "map msg_tla ms" gm_empty] by (auto simp: msg_tla_def)
  obtain k where k: "hash (msg_tla m) = Inr k" by (simp add: msg_tla_def)
  have "gm_lookup S k \<noteq> None \<longleftrightarrow> (\<exists>x\<in>set ms. hash (msg_tla x) = Inr k)" using S(2) by simp
  also have "\<dots> \<longleftrightarrow> m \<in> set ms" unfolding k [symmetric] by (auto simp: hash_msg_tla_inject)
  finally show ?thesis using S(1) k by (simp add: ToSet_def SetIn_def)
qed

lemma IndexInto_msg_tla [simp]:
  "IndexInto (msg_tla m) (str ''mdest'') = Inr (TString (node_name (dest_of m)))"
  "IndexInto (msg_tla m) (str ''msource'') = Inr (TString (node_name (source_of m)))"
  by (simp_all add: msg_tla_def str_def)

lemma boxes_tla_eqs [simp]:
  "IndexInto (boxes_tla f) (TString (node_name n)) = Inr (TSeq (map msg_tla (f n)))"
  by (cases n rule: node_cases) (simp_all add: boxes_tla_def)

lemma Except_boxes_tla:
  "\<exists>b. as_Record (boxes_tla f) = Inr b \<and>
     TRecord (Except b (node_name n) (TSeq (map msg_tla ms))) = boxes_tla (f(n := ms))"
  by (cases n rule: node_cases) (simp_all add: boxes_tla_def Except_eq)

lemma box_has_tla [simp]:
  "box_has (boxes_tla f) (msg_tla m) ''mdest'' = Inr (m \<in> set (f (dest_of m)))"
  "box_has (boxes_tla f) (msg_tla m) ''msource'' = Inr (m \<in> set (f (source_of m)))"
  using ToSet_msgs [of "f (dest_of m)" m] ToSet_msgs [of "f (source_of m)" m] by (auto simp: box_has_def)

lemma box_append_tla [simp]:
  "box_append (boxes_tla f) (msg_tla m) ''mdest'' = Inr (boxes_tla (f(dest_of m := f (dest_of m) @ [m])))"
  "box_append (boxes_tla f) (msg_tla m) ''msource'' = Inr (boxes_tla (f(source_of m := f (source_of m) @ [m])))"
  using Except_boxes_tla [of f "dest_of m" "f (dest_of m) @ [m]"] Except_boxes_tla [of f "source_of m" "f (source_of m) @ [m]"]
  by (auto simp: box_append_def Append_def)

lemma Remove_msgs: "Remove (map msg_tla ms) (msg_tla m) = map msg_tla (removeAll m ms)"
  by (induction ms) (auto simp: Remove_def Eq_def)

lemma box_remove_tla [simp]:
  "box_remove (boxes_tla f) (msg_tla m) ''mdest'' = Inr (boxes_tla (f(dest_of m := removeAll m (f (dest_of m)))))"
  "box_remove (boxes_tla f) (msg_tla m) ''msource'' = Inr (boxes_tla (f(source_of m := removeAll m (f (source_of m)))))"
  using Except_boxes_tla [of f "dest_of m" "removeAll m (f (dest_of m))"] Except_boxes_tla [of f "source_of m" "removeAll m (f (source_of m))"]
  by (auto simp: box_remove_def Remove_msgs)

lemma ToSet_rms: "ToSet (map rm_tla rs) = Inr (str_set (map rm_name rs))"
  using ToSet_str [of "map rm_name rs"] by (simp add: comp_def rm_tla_def [abs_def])

lemma all_prepared_tla [simp]: "all_prepared (tla_state p) = Inr (set (tm_prepared p) = {R1, R2})"
proof -
  have "rm_name ` A = {''r1'', ''r2''} \<longleftrightarrow> A = {R1, R2}" for A
  proof -
    have "{''r1'', ''r2''} = rm_name ` {R1, R2}" by simp
    then show ?thesis by (metis inj_image_eq_iff inj_def rm_name_inject)
  qed
  then show ?thesis using mk_set_str [of "[''r1'', ''r2'']"]
    by (simp add: all_prepared_def ToSet_rms str_def Eq_def str_set_eq_iff)
qed

lemma tm_notin_tla [simp]: "tm_notin (rm_tla r) (TSeq (map rm_tla rs)) = Inr (r \<notin> set rs)"
proof -
  have "rm_name r \<in> rm_name ` set rs \<longleftrightarrow> r \<in> set rs" by auto
  then show ?thesis by (simp add: tm_notin_def ToSet_rms SetNotIn_def SetIn_str_set rm_tla_def)
qed

lemma status_tla_eqs [simp]:
  "IndexInto (status_tla f) (rm_tla r) = Inr (TString (status_name (f r)))"
  by (cases r) (simp_all add: status_tla_def rm_tla_def)

lemma Except_status_tla:
  "\<exists>b. as_Record (status_tla f) = Inr b \<and>
     TRecord (Except b (rm_name r) (TString (status_name v))) = status_tla (f(r := v))"
  by (cases r) (auto simp: status_tla_def Except_eq)

lemma mk_msg_tla [simp]:
  "mk_msg (kind_name k) (TString (node_name d)) (TString (node_name s)) = Inr (msg_tla (Message k d s))"
  by (simp add: msg_tla_def mk_msg_str)

section \<open>The checks decide the steps\<close>

lemma mk_msg_rm [simp]:
  "mk_msg ''Prepare'' (rm_tla r) (str ''coordinator'') = Inr (msg_tla (Message MPrepare (RM r) TM))"
  "mk_msg ''Commit'' (rm_tla r) (str ''coordinator'') = Inr (msg_tla (Message MCommit (RM r) TM))"
  "mk_msg ''Abort'' (rm_tla r) (str ''coordinator'') = Inr (msg_tla (Message MAbort (RM r) TM))"
  "mk_msg ''Prepared'' (str ''coordinator'') (rm_tla r) = Inr (msg_tla (Message MPrepared TM (RM r)))"
  "mk_msg ''Committed'' (str ''coordinator'') (rm_tla r) = Inr (msg_tla (Message MCommitted TM (RM r)))"
  "mk_msg ''Aborted'' (str ''coordinator'') (rm_tla r) = Inr (msg_tla (Message MAborted TM (RM r)))"
  by (simp_all add: msg_tla_def mk_msg_str str_def rm_tla_def)

lemma tpc_eq_iff:
  "p = (t :: tpc) \<longleftrightarrow> tm_committed p = tm_committed t \<and> tm_prepared p = tm_prepared t \<and> tm_aborted p = tm_aborted t \<and>
     tm_decision p = tm_decision t \<and> rm_state p = rm_state t \<and> out_box p = out_box t \<and> in_box p = in_box t \<and>
     act_log p = act_log t \<and> last_actor p = last_actor t"
  by (auto intro: tpc.equality)

text \<open>A check that ends without a run-time error: it accepts, or it panics with its message.\<close>

definition verdict :: "check \<Rightarrow> bool" where
  "verdict c \<longleftrightarrow> c = Inr None \<or> (\<exists>msg. c = Inl (Panicked msg))"

lemma require_Inr: "require msg (Inr b) rest = (if b then rest else Inl (Panicked msg))"
  by simp

lemma verdict_simps [simp]:
  "verdict (Inr None)" "verdict (if b then c else Inl (Panicked msg)) \<longleftrightarrow> (b \<longrightarrow> verdict c)"
  by (simp_all add: verdict_def)

lemma Send_tla [simp]:
  "Send (msg_tla m) (tla_state p) (tla_state t) = Inr (out_box t = out_box (send m p) \<and> in_box t = in_box p)"
  by (auto simp: Send_def And_def Eq_def send_def)

lemma Receive_tla [simp]:
  "Receive (msg_tla m) (tla_state p) (tla_state t) =
     Inr (has_msg m p \<and> in_box t = in_box (receive m p) \<and> out_box t = out_box p)"
  by (auto simp: Receive_def And_def Eq_def receive_def has_msg_def)

lemma Reply_tla [simp]:
  "Reply (msg_tla out) (msg_tla inn) (tla_state p) (tla_state t) =
     Inr (has_msg inn p \<and> in_box t = in_box (receive inn p) \<and> out_box t = out_box (send out p))"
  by (auto simp: Reply_def And_def Eq_def receive_def send_def has_msg_def)

lemma LogAction_tla:
  "TSeq entry = action_tla a \<Longrightarrow> LogAction entry (tla_state p) (tla_state t) = Inr (act_log t = act_log p @ [a])"
  using map_tla_inject(3) [of "act_log t" "act_log p @ [a]"]
  by (simp add: LogAction_def Eq_def Append_def seq_def)

lemma LogAction_tlas [simp]:
  "LogAction [str ''CSendPrepare'', rm_tla r] (tla_state p) (tla_state t) = Inr (act_log t = act_log p @ [ASendPrepare r])"
  "LogAction [str ''PHandlePrepare'', rm_tla r, TString (status_name v)] (tla_state p) (tla_state t) = Inr (act_log t = act_log p @ [AVote r v])"
  "LogAction [str ''CReceivePrepare'', rm_tla r] (tla_state p) (tla_state t) = Inr (act_log t = act_log p @ [AReceivePrepare r])"
  "LogAction [str ''CReceiveAbort'', rm_tla r] (tla_state p) (tla_state t) = Inr (act_log t = act_log p @ [AReceiveAbort r])"
  "LogAction [str ''CSendCommit'', rm_tla r] (tla_state p) (tla_state t) = Inr (act_log t = act_log p @ [ASendCommit r])"
  "LogAction [str ''CSendAbort'', rm_tla r] (tla_state p) (tla_state t) = Inr (act_log t = act_log p @ [ASendAbort r])"
  "LogAction [str ''PHandleCommit'', rm_tla r] (tla_state p) (tla_state t) = Inr (act_log t = act_log p @ [AHandleCommit r])"
  "LogAction [str ''CReceiveCommit'', rm_tla r] (tla_state p) (tla_state t) = Inr (act_log t = act_log p @ [AReceiveCommit r])"
  "LogAction [str ''PHandleAbort'', rm_tla r] (tla_state p) (tla_state t) = Inr (act_log t = act_log p @ [AHandleAbort r])"
  "LogAction [str ''NetworkTakeMessage'', msg_tla m] (tla_state p) (tla_state t) = Inr (act_log t = act_log p @ [ATake m])"
  "LogAction [str ''NetworkDeliverMessage'', msg_tla m] (tla_state p) (tla_state t) = Inr (act_log t = act_log p @ [ADeliver m])"
  by (rule LogAction_tla, simp add: action_tla_def str_def)+

lemma LogActor_tla [simp]:
  "LogActor (str ''coordinator'') (tla_state t) = Inr (last_actor t = Node TM)"
  "LogActor (rm_tla r) (tla_state t) = Inr (last_actor t = Node (RM r))"
  "LogActor (str ''Network'') (tla_state t) = Inr (last_actor t = Network)"
  using actor_name_inject [of "last_actor t" "Node TM"] actor_name_inject [of "last_actor t" "Node (RM r)"]
    actor_name_inject [of "last_actor t" "Network"]
  by (simp_all add: LogActor_def Eq_def str_def rm_tla_def del: actor_name_inject)

lemma tm_append_tla [simp]:
  "tm_append (TSeq (map rm_tla xs)) (TSeq (map rm_tla ys)) (rm_tla r) = Inr (xs = ys @ [r])"
  using map_tla_inject(1) [of xs "ys @ [r]"] by (simp add: tm_append_def Eq_def Append_def)

lemma name_eqs [simp]:
  "decision_name d = ''none'' \<longleftrightarrow> d = Undecided" "decision_name d = ''commit'' \<longleftrightarrow> d = ToCommit"
  "decision_name d = ''abort'' \<longleftrightarrow> d = ToAbort"
  "status_name s = ''working'' \<longleftrightarrow> s = Working" "status_name s = ''prepared'' \<longleftrightarrow> s = Prepared"
  by (cases d; simp)+ (cases s; simp)+

lemma Eq_tla [simp]:
  "Eq (TSeq (map rm_tla xs)) (TSeq (map rm_tla ys)) \<longleftrightarrow> xs = ys"
  "Eq (status_tla f) (status_tla g) \<longleftrightarrow> f = g"
  "Eq (boxes_tla b) (boxes_tla c) \<longleftrightarrow> b = c"
  "Eq (TString a) (TString a') \<longleftrightarrow> a = a'" "Eq (TString a) (str a') \<longleftrightarrow> a = a'"
  "Eq (TSeq []) (TSeq [])"
  by (simp_all add: Eq_def str_def)

lemma SetIn_active [simp]:
  "gbind (mk_set [str ''working'', str ''prepared'']) (SetIn (TString (status_name s))) = Inr (s \<in> {Working, Prepared})"
  using mk_set_str [of "[''working'', ''prepared'']"] by (simp add: str_def SetIn_str_set)

lemma gbind_status_except:
  "gbind (as_Record (status_tla f)) (\<lambda>rs. gbind (as_String (rm_tla r)) (\<lambda>k.
     h (TRecord (Except rs k (str (status_name v)))))) = h (status_tla (f(r := v)))"
  using Except_status_tla [of f r v] by (auto simp: rm_tla_def str_def)

lemma Len_pos: "distinct rs \<Longrightarrow> IntGt (Len (map rm_tla rs)) 0 \<longleftrightarrow> rs \<noteq> []"
proof -
  assume "distinct rs"
  moreover have "set rs \<subseteq> {R1, R2}" by (auto intro: rm.exhaust)
  ultimately have "length rs \<le> card {R1, R2}" by (metis card_mono distinct_card finite.emptyI finite_insert)
  then have "length rs \<le> 2" by simp
  then have "length rs = 0 \<or> length rs = 1 \<or> length rs = 2" by arith
  then show ?thesis by (auto simp: IntGt_def Len_def word_sless_alt)
qed

lemma status_except [simp]:
  "gbind (as_Record (status_tla f)) (\<lambda>rs. gbind (as_String (rm_tla r)) (\<lambda>k.
     Inr (Eq x (TRecord (Except rs k (str ''committed'')))))) = Inr (x = status_tla (f(r := Committed)))"
  "gbind (as_Record (status_tla f)) (\<lambda>rs. gbind (as_String (rm_tla r)) (\<lambda>k.
     Inr (Eq x (TRecord (Except rs k (str ''aborted'')))))) = Inr (x = status_tla (f(r := Aborted)))"
  using gbind_status_except [of f r "\<lambda>y. Inr (Eq x y)" Committed] gbind_status_except [of f r "\<lambda>y. Inr (Eq x y)" Aborted]
  by (simp_all add: Eq_def)

lemma prepare_branch_tla:
  "prepare_branch (status_name v) (kind_name k) (rm_tla r) (tla_state p) (tla_state t) =
     Inr (rm_state t = (rm_state p)(r := v) \<and> has_msg (Message MPrepare (RM r) TM) p \<and>
       in_box t = in_box (receive (Message MPrepare (RM r) TM) p) \<and> out_box t = out_box (send (Message k TM (RM r)) p))"
proof -
  have m: "mk_msg (kind_name k) (str ''coordinator'') (rm_tla r) = Inr (msg_tla (Message k TM (RM r)))"
    by (simp add: msg_tla_def mk_msg_str str_def rm_tla_def)
  show ?thesis unfolding prepare_branch_def tla_state_sel m mk_msg_rm gbind_simps Reply_tla gbind_status_except
    using gbind_status_except [of "rm_state p" r "\<lambda>y. Inr (And (Eq (status_tla (rm_state t)) y) _)" v]
    by (simp add: And_def Eq_def)
qed

definition votes :: "rm \<Rightarrow> rm_status \<Rightarrow> tpc \<Rightarrow> tpc \<Rightarrow> bool" where
  "votes r v p t \<longleftrightarrow> v \<in> {Prepared, Aborted} \<and> rm_state t = (rm_state p)(r := v) \<and>
     has_msg (Message MPrepare (RM r) TM) p \<and> in_box t = in_box (receive (Message MPrepare (RM r) TM) p) \<and>
     out_box t = out_box (send (Message (vote_kind v) TM (RM r)) p)"

lemma vote_branches:
  "gbind (prepare_branch ''prepared'' ''Prepared'' (rm_tla r) (tla_state p) (tla_state t)) (\<lambda>b.
     if b then Inr True else prepare_branch ''aborted'' ''Aborted'' (rm_tla r) (tla_state p) (tla_state t)) =
   Inr (\<exists>v. votes r v p t)"
  using prepare_branch_tla [of Prepared MPrepared r p t] prepare_branch_tla [of Aborted MAborted r p t]
  by (auto simp: votes_def)

lemmas check_tla_simps = Let_def require_Inr And_def Neq_def tla_Not_def

lemmas step_tla_simps = tpc_next_eq tpc_eq_iff tpc_defs

lemma CSendPrepare_tla:
  assumes "estate prev = tla_state p" and "estate e = tla_state t"
  shows "CheckCSendPrepare (rm_tla r) i prev e = Inr None \<longleftrightarrow> tpc_next (ASendPrepare r) p = Some t"
    and "verdict (CheckCSendPrepare (rm_tla r) i prev e)"
  unfolding CheckCSendPrepare_def using assms by (auto simp: check_tla_simps step_tla_simps)

lemma vote_step:
  "tpc_next (AVote r v) p = Some t \<longleftrightarrow> rm_state p r = Working \<and> votes r v p t \<and>
     tm_prepared t = tm_prepared p \<and> tm_committed t = tm_committed p \<and> tm_aborted t = tm_aborted p \<and>
     tm_decision t = tm_decision p \<and> act_log t = act_log p @ [AVote r v] \<and> last_actor t = Node (RM r)"
  by (auto simp: step_tla_simps votes_def)

lemma PHandlePrepare_tla:
  assumes "estate prev = tla_state p" and "estate e = tla_state t"
  shows "CheckPHandlePrepare (rm_tla r) i prev e = Inr None \<longleftrightarrow> (\<exists>v. tpc_next (AVote r v) p = Some t)"
    and "verdict (CheckPHandlePrepare (rm_tla r) i prev e)"
proof -
  have "CheckPHandlePrepare (rm_tla r) i prev e = Inr None \<longleftrightarrow> rm_state p r = Working \<and> (\<exists>v. votes r v p t) \<and>
     tm_prepared t = tm_prepared p \<and> tm_committed t = tm_committed p \<and> tm_aborted t = tm_aborted p \<and>
     tm_decision t = tm_decision p \<and> act_log t = act_log p @ [AVote r (rm_state t r)] \<and> last_actor t = Node (RM r)"
    unfolding CheckPHandlePrepare_def Let_def assms vote_branches by (auto simp: check_tla_simps)
  also have "\<dots> \<longleftrightarrow> (\<exists>v. tpc_next (AVote r v) p = Some t)"
    unfolding vote_step by (auto simp: votes_def)
  finally show "CheckPHandlePrepare (rm_tla r) i prev e = Inr None \<longleftrightarrow> (\<exists>v. tpc_next (AVote r v) p = Some t)" .
  show "verdict (CheckPHandlePrepare (rm_tla r) i prev e)"
    unfolding CheckPHandlePrepare_def Let_def assms vote_branches by (simp add: check_tla_simps)
qed

lemma CReceivePrepare_tla:
  assumes "estate prev = tla_state p" and "estate e = tla_state t"
  shows "CheckCReceivePrepare (rm_tla r) i prev e = Inr None \<longleftrightarrow> tpc_next (AReceivePrepare r) p = Some t"
    and "verdict (CheckCReceivePrepare (rm_tla r) i prev e)"
  unfolding CheckCReceivePrepare_def using assms by (auto simp: check_tla_simps step_tla_simps)

lemma CReceiveAbort_tla:
  assumes "estate prev = tla_state p" and "estate e = tla_state t"
  shows "CheckCReceiveAbort (rm_tla r) i prev e = Inr None \<longleftrightarrow> tpc_next (AReceiveAbort r) p = Some t"
    and "verdict (CheckCReceiveAbort (rm_tla r) i prev e)"
  unfolding CheckCReceiveAbort_def using assms by (auto simp: check_tla_simps step_tla_simps)

lemma CSendCommit_tla:
  assumes "estate prev = tla_state p" and "estate e = tla_state t"
  shows "CheckCSendCommit (rm_tla r) i prev e = Inr None \<longleftrightarrow> tpc_next (ASendCommit r) p = Some t"
    and "verdict (CheckCSendCommit (rm_tla r) i prev e)"
  unfolding CheckCSendCommit_def using assms by (auto simp: check_tla_simps step_tla_simps)

lemma CSendAbort_tla:
  assumes "estate prev = tla_state p" and "estate e = tla_state t" and "distinct (tm_aborted p)"
  shows "CheckCSendAbort (rm_tla r) i prev e = Inr None \<longleftrightarrow> tpc_next (ASendAbort r) p = Some t"
    and "verdict (CheckCSendAbort (rm_tla r) i prev e)"
  unfolding CheckCSendAbort_def using assms by (auto simp: check_tla_simps step_tla_simps Len_pos)

lemma PHandleCommit_tla:
  assumes "estate prev = tla_state p" and "estate e = tla_state t"
  shows "CheckPHandleCommit (rm_tla r) i prev e = Inr None \<longleftrightarrow> tpc_next (AHandleCommit r) p = Some t"
    and "verdict (CheckPHandleCommit (rm_tla r) i prev e)"
  unfolding CheckPHandleCommit_def using assms by (auto simp: check_tla_simps step_tla_simps)

lemma CReceiveCommit_tla:
  assumes "estate prev = tla_state p" and "estate e = tla_state t"
  shows "CheckCReceiveCommit (rm_tla r) i prev e = Inr None \<longleftrightarrow> tpc_next (AReceiveCommit r) p = Some t"
    and "verdict (CheckCReceiveCommit (rm_tla r) i prev e)"
  unfolding CheckCReceiveCommit_def using assms by (auto simp: check_tla_simps step_tla_simps)

lemma PHandleAbort_tla:
  assumes "estate prev = tla_state p" and "estate e = tla_state t"
  shows "CheckPHandleAbort (rm_tla r) i prev e = Inr None \<longleftrightarrow> tpc_next (AHandleAbort r) p = Some t"
    and "verdict (CheckPHandleAbort (rm_tla r) i prev e)"
  unfolding CheckPHandleAbort_def using assms by (auto simp: check_tla_simps step_tla_simps)

text \<open>The variables that the checks of the network leave free.\<close>

definition same_nodes :: "tpc \<Rightarrow> tpc \<Rightarrow> bool" where
  "same_nodes p t \<longleftrightarrow> tm_committed t = tm_committed p \<and> tm_prepared t = tm_prepared p \<and>
     tm_aborted t = tm_aborted p \<and> tm_decision t = tm_decision p \<and> rm_state t = rm_state p"

definition with_nodes :: "tpc \<Rightarrow> tpc \<Rightarrow> tpc" where
  "with_nodes p t = t\<lparr>tm_committed := tm_committed p, tm_prepared := tm_prepared p,
     tm_aborted := tm_aborted p, tm_decision := tm_decision p, rm_state := rm_state p\<rparr>"

lemma NetworkTakeMessage_tla:
  assumes "estate prev = tla_state p" and "estate e = tla_state t"
  shows "CheckNetworkTakeMessage (msg_tla m) i prev e = Inr None \<longleftrightarrow> tpc_next (ATake m) p = Some (with_nodes p t)"
    and "verdict (CheckNetworkTakeMessage (msg_tla m) i prev e)"
  unfolding CheckNetworkTakeMessage_def using assms by (auto simp: check_tla_simps step_tla_simps with_nodes_def)

lemma NetworkDeliverMessage_tla:
  assumes "estate prev = tla_state p" and "estate e = tla_state t"
  shows "CheckNetworkDeliverMessage (msg_tla m) i prev e = Inr None \<longleftrightarrow> tpc_next (ADeliver m) p = Some (with_nodes p t)"
    and "verdict (CheckNetworkDeliverMessage (msg_tla m) i prev e)"
  unfolding CheckNetworkDeliverMessage_def using assms by (auto simp: check_tla_simps step_tla_simps with_nodes_def)

lemma Initial_tla:
  assumes "estate e = tla_state t"
  shows "CheckInitial i prev e = Inr None \<longleftrightarrow> t = tpc_init" and "verdict (CheckInitial i prev e)"
proof -
  have w: "all_working = Inr (status_tla (\<lambda>_. Working))"
    by (simp add: all_working_def mk_record_def gm_empty_def str_def status_tla_def)
  have b: "empty_boxes = Inr (boxes_tla (\<lambda>_. []))"
    by (simp add: empty_boxes_def mk_record_def gm_empty_def str_def seq_def boxes_tla_def)
  have n: "actor_name a = ''none'' \<longleftrightarrow> a = Nobody" for a using actor_name_inject [of a Nobody] by simp
  have l: "Eq (TSeq (map f xs)) (seq []) \<longleftrightarrow> xs = []" for f and xs :: "'x list" by (simp add: Eq_def seq_def)
  have z: "Eq (TSeq []) (seq [])" by (simp add: Eq_def seq_def)
  show "CheckInitial i prev e = Inr None \<longleftrightarrow> t = tpc_init" and "verdict (CheckInitial i prev e)"
    unfolding CheckInitial_def assms w b by (auto simp: check_tla_simps tpc_eq_iff tpc_init_def l n z)
qed

text \<open>
  The steps that the monitor accepts: those of the specification, where an event of a vote does
  not say which vote it was, and where a step of the network may change the nodes.
\<close>

fun monitor_step :: "action \<Rightarrow> tpc \<Rightarrow> tpc \<Rightarrow> bool" where
  "monitor_step (AVote r _) p t \<longleftrightarrow> (\<exists>v. tpc_next (AVote r v) p = Some t)"
| "monitor_step (ATake m) p t \<longleftrightarrow> tpc_next (ATake m) p = Some (with_nodes p t)"
| "monitor_step (ADeliver m) p t \<longleftrightarrow> tpc_next (ADeliver m) p = Some (with_nodes p t)"
| "monitor_step a p t \<longleftrightarrow> tpc_next a p = Some t"

lemmas checks_tla = CSendPrepare_tla PHandlePrepare_tla CReceivePrepare_tla CReceiveAbort_tla
  CSendCommit_tla CSendAbort_tla PHandleCommit_tla CReceiveCommit_tla PHandleAbort_tla
  NetworkTakeMessage_tla NetworkDeliverMessage_tla

lemma CheckEvent_tla:
  assumes "etyp e = action_type a" and "params e = [action_param a]"
    and "estate prev = tla_state p" and "estate e = tla_state t" and "distinct (tm_aborted p)"
  shows "CheckEvent i prev e = Inr None \<longleftrightarrow> monitor_step a p t" and "verdict (CheckEvent i prev e)"
  using assms(1,2) checks_tla [OF assms(3,4)] CSendAbort_tla [OF assms(3,4,5)]
  by (cases a; simp add: CheckEvent_def param0_def)+

section \<open>Traces\<close>

text \<open>The events \<open>es\<close> log the typed states \<open>ps\<close> and the actions \<open>as\<close> between them.\<close>

definition logs_run :: "Event list \<Rightarrow> tpc list \<Rightarrow> action list \<Rightarrow> bool" where
  "logs_run es ps as \<longleftrightarrow> length ps = length es \<and> length es = Suc (length as) \<and> etyp (es ! 0) = Initial \<and>
     (\<forall>i<length es. estate (es ! i) = tla_state (ps ! i) \<and> distinct (tm_aborted (ps ! i))) \<and>
     (\<forall>i<length as. etyp (es ! Suc i) = action_type (as ! i) \<and> params (es ! Suc i) = [action_param (as ! i)])"

lemma logs_run_event:
  assumes "logs_run es ps as" and "i < length as"
  shows "CheckEvent j (es ! i) (es ! Suc i) = Inr None \<longleftrightarrow> monitor_step (as ! i) (ps ! i) (ps ! Suc i)"
    and "verdict (CheckEvent j (es ! i) (es ! Suc i))"
  using assms CheckEvent_tla [of "es ! Suc i" "as ! i" "es ! i" "ps ! i" "ps ! Suc i" j]
  by (auto simp: logs_run_def)

lemma check_events_verdict:
  assumes "\<And>j. j < length es \<Longrightarrow> verdict (CheckEvent (i + j) (if i + j = 0 then es ! 0 else if j = 0 then prev else es ! (j - 1)) (es ! j))"
  shows "verdict (check_events i prev es)"
  using assms
proof (induction es arbitrary: i prev)
  case (Cons e es)
  have v: "verdict (CheckEvent i (if i = 0 then e else prev) e)" using Cons.prems [of 0] by (cases "i = 0") auto
  have "verdict (check_events (Suc i) e es)"
  proof (rule Cons.IH)
    fix j assume "j < length es"
    then show "verdict (CheckEvent (Suc i + j) (if Suc i + j = 0 then es ! 0 else if j = 0 then e else es ! (j - 1)) (es ! j))"
      using Cons.prems [of "Suc j"] by (cases j) auto
  qed
  with v show ?case by (auto simp: verdict_def)
qed simp

lemma logs_run_verdict:
  assumes "logs_run (events m) ps as"
  shows "verdict (CheckTrace m)"
  unfolding CheckTrace_def
proof (rule check_events_verdict)
  fix j assume j: "j < length (events m)"
  show "verdict (CheckEvent (0 + j) (if 0 + j = 0 then events m ! 0 else if j = 0 then zero_event else events m ! (j - 1)) (events m ! j))"
  proof (cases j)
    case 0
    then show ?thesis using assms Initial_tla(2) by (auto simp: logs_run_def CheckEvent_def)
  next
    case (Suc k)
    then show ?thesis using logs_run_event(2) [OF assms, of k] j assms by (auto simp: logs_run_def)
  qed
qed

lemma logs_run_accepted:
  assumes "logs_run (events m) ps as"
  shows "CheckTrace m = Inr None \<longleftrightarrow>
    ps ! 0 = tpc_init \<and> (\<forall>i<length as. monitor_step (as ! i) (ps ! i) (ps ! Suc i))"
proof -
  have n: "length (events m) = Suc (length as)" using assms by (simp add: logs_run_def)
  have i: "CheckEvent 0 (events m ! 0) (events m ! 0) = Inr None \<longleftrightarrow> ps ! 0 = tpc_init"
    using assms Initial_tla(1) [of "events m ! 0" "ps ! 0"] by (auto simp: logs_run_def CheckEvent_def)
  have "CheckTrace m = Inr None \<longleftrightarrow> CheckEvent 0 (events m ! 0) (events m ! 0) = Inr None \<and>
      (\<forall>i<length as. CheckEvent (Suc i) (events m ! i) (events m ! Suc i) = Inr None)"
    by (simp add: CheckTrace_nth n All_less_Suc2 event_before_def)
  then show ?thesis using i logs_run_event(1) [OF assms] by auto
qed

text \<open>A run in which the network is honest and leaves the variables of the nodes alone.\<close>

definition fair_network :: "tpc list \<Rightarrow> action list \<Rightarrow> bool" where
  "fair_network ps as \<longleftrightarrow> (\<forall>i<length as. honest (as ! i) (ps ! i) \<and>
     (network_event (action_type (as ! i)) \<longrightarrow> with_nodes (ps ! i) (ps ! Suc i) = ps ! Suc i))"

lemma monitor_step_next:
  assumes "monitor_step a p t" and "network_event (action_type a) \<longrightarrow> with_nodes p t = t" and "honest a p"
  obtains b where "tpc_next b p = Some t" "honest b p"
  using assms by (cases a) (auto simp: network_event_def)

lemma accepted_reach:
  assumes "logs_run (events m) ps as" and "CheckTrace m = Inr None" and "fair_network ps as" and "i < length ps"
  shows "tpc_reach (ps ! i)"
  using assms(4)
proof (induction i)
  case 0
  then show ?case using logs_run_accepted [OF assms(1)] assms(2) tpc_start by simp
next
  case (Suc i)
  then have i: "i < length as" using assms(1) by (simp add: logs_run_def)
  then have "monitor_step (as ! i) (ps ! i) (ps ! Suc i)" using logs_run_accepted [OF assms(1)] assms(2) by blast
  then obtain b where "tpc_next b (ps ! i) = Some (ps ! Suc i)" "honest b (ps ! i)"
    using assms(3) i by (auto simp: fair_network_def elim!: monitor_step_next)
  then show ?case using Suc tpc_more by simp
qed

lemma next_monitor_step:
  "tpc_next a p = Some t \<Longrightarrow> monitor_step a p t \<and> (network_event (action_type a) \<longrightarrow> with_nodes p t = t)"
  by (cases a) (auto simp: network_event_def step_tla_simps with_nodes_def)

text \<open>A step of the protocol that the event of \<open>a\<close> names; for a vote the event does not say which vote it was.\<close>

definition named_step :: "action \<Rightarrow> tpc \<Rightarrow> tpc \<Rightarrow> bool" where
  "named_step a p t \<longleftrightarrow> (\<exists>b. action_type b = action_type a \<and> action_param b = action_param a \<and> tpc_next b p = Some t)"

text \<open>The events of the network leave the variables of the nodes alone.\<close>

definition network_frame :: "tpc list \<Rightarrow> action list \<Rightarrow> bool" where
  "network_frame ps as \<longleftrightarrow>
     (\<forall>i<length as. network_event (action_type (as ! i)) \<longrightarrow> same_nodes (ps ! i) (ps ! Suc i))"

lemma same_nodes_iff: "same_nodes p t \<longleftrightarrow> with_nodes p t = t"
  by (auto simp: same_nodes_def with_nodes_def tpc_eq_iff)

lemma monitor_step_named:
  "monitor_step a p t \<and> (network_event (action_type a) \<longrightarrow> same_nodes p t) \<longleftrightarrow> named_step a p t"
proof
  assume l: "monitor_step a p t \<and> (network_event (action_type a) \<longrightarrow> same_nodes p t)"
  show "named_step a p t"
  proof (cases a)
    case (AVote r v)
    with l obtain v' where "tpc_next (AVote r v') p = Some t" by auto
    then show ?thesis using AVote by (auto simp: named_step_def intro!: exI [of _ "AVote r v'"])
  qed (use l in \<open>auto simp: named_step_def network_event_def same_nodes_iff intro!: exI [of _ a]\<close>)
next
  assume "named_step a p t"
  then obtain b where b: "action_type b = action_type a" "action_param b = action_param a" "tpc_next b p = Some t"
    by (auto simp: named_step_def)
  have "monitor_step a p t" using b next_monitor_step [OF b(3)] by (cases a; cases b) auto
  then show "monitor_step a p t \<and> (network_event (action_type a) \<longrightarrow> same_nodes p t)"
    using b(1) next_monitor_step [OF b(3)] by (simp add: same_nodes_iff)
qed

section \<open>Runs of the specification as traces\<close>

fun run_states :: "action list \<Rightarrow> tpc \<Rightarrow> tpc list" where
  "run_states [] p = [p]"
| "run_states (a # as) p = p # (case tpc_next a p of None \<Rightarrow> [] | Some t \<Rightarrow> run_states as t)"

fun run_ok :: "action list \<Rightarrow> tpc \<Rightarrow> bool" where
  "run_ok [] p \<longleftrightarrow> distinct (tm_aborted p)"
| "run_ok (a # as) p \<longleftrightarrow> distinct (tm_aborted p) \<and> honest a p \<and>
     (case tpc_next a p of None \<Rightarrow> False | Some t \<Rightarrow> run_ok as t)"

definition run_trace :: "action list \<Rightarrow> Monitor" where
  "run_trace as = \<lparr>extra = [], events = map2 (\<lambda>(typ, args) p. mk_event 0 typ args (tla_state p))
     ((Initial, []) # map (\<lambda>a. (action_type a, [action_param a])) as) (run_states as tpc_init)\<rparr>"

lemma run_ok_states:
  assumes "run_ok as p"
  shows "length (run_states as p) = Suc (length as)" and "run_states as p ! 0 = p"
    and "i < length as \<Longrightarrow> honest (as ! i) (run_states as p ! i) \<and>
      tpc_next (as ! i) (run_states as p ! i) = Some (run_states as p ! Suc i)"
    and "i \<le> length as \<Longrightarrow> distinct (tm_aborted (run_states as p ! i))"
proof -
  have "length (run_states as p) = Suc (length as) \<and> run_states as p ! 0 = p \<and>
    (\<forall>i<length as. honest (as ! i) (run_states as p ! i) \<and> tpc_next (as ! i) (run_states as p ! i) = Some (run_states as p ! Suc i)) \<and>
    (\<forall>i\<le>length as. distinct (tm_aborted (run_states as p ! i)))"
    using assms
  proof (induction as arbitrary: p)
    case (Cons a as)
    then obtain t where t: "tpc_next a p = Some t" "run_ok as t" "honest a p" "distinct (tm_aborted p)"
      by (auto split: option.splits)
    note ih = Cons.IH [OF t(2)]
    then have "distinct (tm_aborted t)" by (metis le0)
    then show ?case
      using t ih by (simp add: All_less_Suc2 less_Suc_eq_le [symmetric] del: less_Suc_eq_le)
  qed simp
  then show "length (run_states as p) = Suc (length as)" "run_states as p ! 0 = p"
    "i < length as \<Longrightarrow> honest (as ! i) (run_states as p ! i) \<and>
      tpc_next (as ! i) (run_states as p ! i) = Some (run_states as p ! Suc i)"
    "i \<le> length as \<Longrightarrow> distinct (tm_aborted (run_states as p ! i))" by auto
qed

lemma run_trace_logs: "run_ok as tpc_init \<Longrightarrow> logs_run (events (run_trace as)) (run_states as tpc_init) as"
  by (auto simp: logs_run_def run_trace_def run_ok_states nth_Cons' split: if_splits)

lemma run_trace_accepted:
  assumes "run_ok as tpc_init"
  shows "CheckTrace (run_trace as) = Inr None" and "fair_network (run_states as tpc_init) as"
proof -
  have "monitor_step (as ! i) (run_states as tpc_init ! i) (run_states as tpc_init ! Suc i)" if "i < length as" for i
    using run_ok_states(3) [OF assms that] next_monitor_step by blast
  then show "CheckTrace (run_trace as) = Inr None"
    using logs_run_accepted [OF run_trace_logs [OF assms]] run_ok_states(2) [OF assms] by blast
  show "fair_network (run_states as tpc_init) as"
    using run_ok_states(3) [OF assms] next_monitor_step unfolding fair_network_def by blast
qed

text \<open>A complete run of the protocol up to the commit of the first participant.\<close>

definition example_actions :: "action list" where
  "example_actions =
     concat (map (\<lambda>r. [ASendPrepare r, ATake (Message MPrepare (RM r) TM), ADeliver (Message MPrepare (RM r) TM),
       AVote r Prepared, ATake (Message MPrepared TM (RM r)), ADeliver (Message MPrepared TM (RM r)),
       AReceivePrepare r]) [R1, R2]) @
     [ASendCommit R1, ATake (Message MCommit (RM R1) TM), ADeliver (Message MCommit (RM R1) TM), AHandleCommit R1]"

lemma example_run_ok: "run_ok example_actions tpc_init" "length example_actions = 18"
  "rm_state (run_states example_actions tpc_init ! 18) R1 = Committed"
  by code_simp+

section \<open>Properties of the monitor\<close>

text \<open>
  C3. The monitor and two-phase commit. Take a trace of typed states (the states of the
  specification in the monitor's values, the list of aborted participants without repetition). It is
  a run of the protocol, that is, its first state is the initial one and every event names a step
  that the protocol allows from the state before it to its own, exactly when the monitor accepts it
  and no event of the network changes a variable of a node. The second condition the monitor does
  not check: it judges an event of the network by the boxes, the log and the actor alone.
\<close>

theorem monitor_decides_runs:
  assumes "logs_run (events m) ps as"
  shows "CheckTrace m = Inr None \<and> network_frame ps as \<longleftrightarrow>
    ps ! 0 = tpc_init \<and> (\<forall>i<length as. named_step (as ! i) (ps ! i) (ps ! Suc i))"
  using logs_run_accepted [OF assms] by (auto simp: network_frame_def monitor_step_named [symmetric])

theorem monitor_decides_runs_witness:
  "CheckTrace (run_trace example_actions) = Inr None \<and> network_frame (run_states example_actions tpc_init) example_actions \<and>
   named_step (AHandleCommit R1) (run_states example_actions tpc_init ! 17) (run_states example_actions tpc_init ! 18)"
proof -
  let ?ps = "run_states example_actions tpc_init"
  have a: "example_actions ! 17 = AHandleCommit R1" by code_simp
  have run: "CheckTrace (run_trace example_actions) = Inr None" "network_frame ?ps example_actions"
    using run_trace_accepted [OF example_run_ok(1)] by (auto simp: fair_network_def network_frame_def same_nodes_iff)
  then have "\<forall>i<length example_actions. named_step (example_actions ! i) (?ps ! i) (?ps ! Suc i)"
    using monitor_decides_runs [OF run_trace_logs [OF example_run_ok(1)]] by blast
  from spec [OF this, of 17] run show ?thesis by (simp add: example_run_ok(2) a)
qed

text \<open>
  C34. Type safety of the monitor: on a trace of typed states with typed parameters \<^verbatim>\<open>CheckTrace\<close>
  accepts or panics with the message of a violated clause. It never fails with a type assertion,
  an index out of range or a nil dereference.
\<close>

theorem typed_trace_verdict:
  assumes "logs_run (events m) ps as"
  shows "CheckTrace m = Inr None \<or> (\<exists>msg. CheckTrace m = Inl (Panicked msg))"
  using logs_run_verdict [OF assms] by (simp add: verdict_def)

theorem typed_trace_verdict_witness:
  "\<exists>m ps as. logs_run (events m) ps as \<and> (\<exists>msg. CheckTrace m = Inl (Panicked msg))"
proof -
  let ?p = "done_by (ASendCommit R1) (Node TM) tpc_init"
  let ?m = "\<lparr>extra = [], events = [mk_event 0 Initial [] (tla_state tpc_init),
    mk_event 0 CSendCommit [rm_tla R1] (tla_state ?p)]\<rparr>"
  have l: "logs_run (events ?m) [tpc_init, ?p] [ASendCommit R1]"
    by (simp add: logs_run_def tpc_init_def done_by_def less_Suc_eq)
  have "CheckTrace ?m \<noteq> Inr None"
    using logs_run_accepted [OF l] by (simp add: tpc_next_eq tpc_init_def)
  then show ?thesis using typed_trace_verdict [OF l] l by blast
qed

text \<open>
  C10. Consistency of two-phase commit for accepted traces: when the network delivers only messages
  that it has taken and does not touch the variables of the nodes, no state of a trace that the
  monitor accepts has one participant committed and another one aborted.
\<close>

theorem accepted_run_consistent:
  assumes "CheckTrace m = Inr None" and "logs_run (events m) ps as" and "fair_network ps as"
    and "i < length (events m)"
    and "IndexInto (rmState (estate (events m ! i))) (rm_tla r) = Inr (TString ''committed'')"
  shows "IndexInto (rmState (estate (events m ! i))) (rm_tla r') \<noteq> Inr (TString ''aborted'')"
proof -
  have p: "estate (events m ! i) = tla_state (ps ! i)" "i < length ps" using assms(2,4) by (auto simp: logs_run_def)
  have n: "status_name v = ''committed'' \<longleftrightarrow> v = Committed" "status_name v = ''aborted'' \<longleftrightarrow> v = Aborted" for v
    by (cases v; simp)+
  have "tpc_reach (ps ! i)" using accepted_reach [OF assms(2,1,3) p(2)] .
  then show ?thesis using assms(5) tpc_consistent by (simp add: p n)
qed

theorem accepted_run_consistent_witness:
  "IndexInto (rmState (estate (events (run_trace example_actions) ! 18))) (rm_tla R1) = Inr (TString ''committed'') \<and>
   IndexInto (rmState (estate (events (run_trace example_actions) ! 18))) (rm_tla R2) \<noteq> Inr (TString ''aborted'')"
proof -
  note l = run_trace_logs [OF example_run_ok(1)]
  have i: "18 < length (events (run_trace example_actions))" using l example_run_ok(2) by (simp add: logs_run_def)
  then have "estate (events (run_trace example_actions) ! 18) = tla_state (run_states example_actions tpc_init ! 18)"
    using l by (auto simp: logs_run_def)
  then have "IndexInto (rmState (estate (events (run_trace example_actions) ! 18))) (rm_tla R1) = Inr (TString ''committed'')"
    using example_run_ok(3) by simp
  with accepted_run_consistent [OF run_trace_accepted(1) [OF example_run_ok(1)] l
      run_trace_accepted(2) [OF example_run_ok(1)] i, of R1 R2]
  show ?thesis by blast
qed

end
