(* ===== verification/TLA_Laws.thy ===== *)
theory TLA_Laws
  imports TLA_Values
begin

text \<open>
  Laws of the operator library of the generated monitor: the operators against the operations on
  sets, sequences and integers that they stand for, with the inputs on which they differ.
\<close>

section \<open>Loops over a set\<close>

lemma gfold_forall:
  assumes "\<And>kv. kv \<in> set xs \<Longrightarrow> f (snd kv) = Inr (P (snd kv))"
  shows "gfold (\<lambda>(_, v) res. if res then f v else Inr False) xs b = Inr (b \<and> (\<forall>kv\<in>set xs. P (snd kv)))"
  using assms by (induction xs arbitrary: b) (auto simp: case_prod_beta)

lemma gfold_exists:
  assumes "\<And>kv. kv \<in> set xs \<Longrightarrow> f (snd kv) = Inr (P (snd kv))"
  shows "gfold (\<lambda>(_, v) res. if res then Inr True else f v) xs b = Inr (b \<or> (\<exists>kv\<in>set xs. P (snd kv)))"
  using assms by (induction xs arbitrary: b) (auto simp: case_prod_beta)

text \<open>
  The bounded quantifiers do not depend on the order in which Go iterates over the map of the
  set, which is not specified, as long as the predicate does not panic: they are the quantifiers
  over the elements.
\<close>

lemma bounded_quantifiers:
  assumes "iteration_order it" and "\<And>v. v \<in> snd ` set s \<Longrightarrow> f v = Inr (P v)"
  shows "BoundedForall it s f = Inr (\<forall>v\<in>snd ` set s. P v) \<and> BoundedExists it s f = Inr (\<exists>v\<in>snd ` set s. P v)"
proof -
  have it: "set (it s) = set s" using assms(1) by (simp add: iteration_order_def)
  have f: "\<And>kv. kv \<in> set (it s) \<Longrightarrow> f (snd kv) = Inr (P (snd kv))" using assms(2) it by auto
  show ?thesis
    using gfold_forall [of "it s" f P, OF f] gfold_exists [of "it s" f P, OF f] it by (simp add: BoundedForall_def BoundedExists_def)
qed

lemma bounded_quantifiers_example:
  "BoundedForall rev (str_set [''r1'', ''r2'']) (\<lambda>v. Inr (v = TString ''r1'')) = Inr False \<and>
   BoundedExists rev (str_set [''r1'', ''r2'']) (\<lambda>v. Inr (v = TString ''r1'')) = Inr True"
proof -
  have "snd ` set (str_set [''r1'', ''r2'']) = {TString ''r1'', TString ''r2''}" by code_simp
  then show ?thesis
    using bounded_quantifiers [of rev "str_set [''r1'', ''r2'']" "\<lambda>v. Inr (v = TString ''r1'')" "\<lambda>v. v = TString ''r1''"]
    by simp
qed

section \<open>Sets\<close>

text \<open>
  On strings the library's sets are mathematical sets: conversion from a sequence, membership,
  cardinality, union and equality agree with those of the sets of strings.
\<close>

theorem string_sets:
  "\<exists>a b. ToSet (map TString xs) = Inr a \<and> ToSet (map TString ys) = Inr b \<and>
     SetIn (TString x) a = Inr (x \<in> set xs) \<and> SetNotIn (TString x) a = Inr (x \<notin> set xs) \<and>
     Cardinality a = of_nat (card (set xs)) \<and>
     SetIn (TString x) (SetUnion a b) = Inr (x \<in> set xs \<union> set ys) \<and>
     (Eq (TSet a) (TSet b) \<longleftrightarrow> set xs = set ys)"
  by (intro exI [of _ "str_set xs"] exI [of _ "str_set ys"])
    (auto simp: ToSet_str SetIn_str_set SetNotIn_def Cardinality_str_set SetUnion_str_set Eq_def str_set_eq_iff)

text \<open>
  On other values they are not: the key of an element is its printed form, so the integer 1
  and the string \<^verbatim>\<open>1\<close> are one element, and the later one replaces the earlier one.
\<close>

theorem set_collision:
  "ToSet [TInt 1, TString ''1''] = Inr [(''1'', TString ''1'')] \<and>
   Eq (TInt 1) (TString ''1'') = False \<and> SetIn (TInt 1) [(''1'', TString ''1'')] = Inr True"
  by code_simp

section \<open>Sequences\<close>

text \<open>
  \<^verbatim>\<open>IsPrefix\<close> decides the prefix order when the first sequence is not the longer one. When the
  second sequence is a proper prefix of the first one, it panics with an index out of range
  instead of returning false.
\<close>

theorem IsPrefix_spec:
  "IsPrefix p s =
     (if length s < length p \<and> take (length s) p = s then Inl IndexOutOfRange
      else Inr (length p \<le> length s \<and> p = take (length p) s))"
  by (induction p s rule: IsPrefix.induct) (auto simp: Eq_def)

text \<open>
  \<^verbatim>\<open>Remove\<close> drops every occurrence of a value, \<^verbatim>\<open>Append\<close> adds one at the end: a message appended to
  a box that does not hold it and then removed leaves the box as it was.
\<close>

lemma Remove_Append:
  "Remove (Append s e) e = Remove s e \<and> (e \<notin> set s \<longrightarrow> Remove (Append s e) e = s) \<and> e \<notin> set (Remove s e)"
  by (auto simp: Remove_def Append_def Eq_def filter_id_conv)

lemma Remove_Append_example:
  "TString ''m2'' \<notin> set [TString ''m1''] \<and>
   Remove (Append [TString ''m1''] (TString ''m2'')) (TString ''m2'') = [TString ''m1'']"
proof -
  have "TString ''m2'' \<notin> set [TString ''m1'']" by simp
  then show ?thesis using Remove_Append [of "[TString ''m1'']" "TString ''m2''"] by blast
qed

section \<open>Ranges\<close>

lemma sint_bounds: "- 9223372036854775808 \<le> sint (i :: go_int) \<and> sint i \<le> 9223372036854775807"
  using sint_ge [of i] sint_lt [of i] by simp

lemma sint_succ:
  assumes "sint (i :: go_int) < 9223372036854775807"
  shows "sint (i + 1) = sint i + 1"
proof -
  have "signed_take_bit 63 (sint i + 1) = sint i + 1"
    using assms sint_bounds [of i] by (intro signed_take_bit_int_eq_self) simp_all
  then show ?thesis by (simp add: sint_word_ariths)
qed

lemma range_loop_eq:
  assumes "sint upper < 9223372036854775807"
  shows "range_loop i upper res = Some (res @ map (\<lambda>k. TInt (word_of_int k)) [sint i..sint upper])"
proof (induction "nat (sint upper - sint i + 1)" arbitrary: i res rule: less_induct)
  case less
  show ?case
  proof (cases "sint i \<le> sint upper")
    case True
    then have s: "sint (i + 1) = sint i + 1" using assms by (intro sint_succ) simp
    have "range_loop i upper res = range_loop (i + 1) upper (res @ [TInt i])"
      using True by (subst range_loop.simps) (simp add: word_sle_eq integer_def)
    also have "\<dots> = Some ((res @ [TInt i]) @ map (\<lambda>k. TInt (word_of_int k)) [sint i + 1..sint upper])"
      using less.hyps [of "i + 1"] True s by simp
    finally show ?thesis using True by (simp add: upto_rec1)
  next
    case False
    then show ?thesis by (subst range_loop.simps) (simp add: word_sle_eq)
  qed
qed

lemma range_loop_MaxInt: "range_loop i MaxInt res = None"
proof (cases "range_loop i MaxInt res")
  case (Some r)
  have "upper = MaxInt \<longrightarrow> False" if "range_loop i upper res = Some r" for i upper res r
    using that
  proof (rule range_loop.raw_induct [where P = "\<lambda>i upper res r. upper = MaxInt \<longrightarrow> False", rotated])
    fix loop i upper res r
    assume ih: "\<And>i upper res r. loop i upper res = Some r \<Longrightarrow> upper = MaxInt \<longrightarrow> False"
      and eq: "(if i \<le>s upper then loop (i + 1) upper (res @ [integer i]) else Some res) = Some r"
    have "i \<le>s MaxInt" using sint_bounds [of i] by (simp add: word_sle_eq MaxInt_def)
    then show "upper = MaxInt \<longrightarrow> False" using ih [of "i + 1" upper "res @ [integer i]" r] eq by auto
  qed
  then show ?thesis using Some by blast
qed simp

lemma gfold_set_put_int:
  "\<exists>m'. gfold set_put (map TInt xs) m = Inr m' \<and>
     (\<forall>x. gm_lookup m' (itoa (sint x)) \<noteq> None \<longleftrightarrow> x \<in> set xs \<or> gm_lookup m (itoa (sint x)) \<noteq> None)"
proof (induction xs arbitrary: m)
  case (Cons y xs)
  have "set_put (TInt y) m = Inr (gm_update (itoa (sint y)) (TInt y) m)" by (simp add: set_put_def hash_def)
  with Cons.IH [of "gm_update (itoa (sint y)) (TInt y) m"] show ?case by (auto simp: signed_word_eqI)
qed simp

text \<open>
  C30. \<^verbatim>\<open>RangeIncl\<close> returns when the upper bound is below the largest integer, and then gives the set
  of the integers between its bounds, which is empty when the lower bound is above the upper
  one. With the largest integer as upper bound its loop never ends, whatever the lower bound:
  the counter wraps around before it can exceed the bound.
\<close>

theorem RangeIncl_spec:
  "if upper = MaxInt then RangeIncl lower upper = None
   else \<exists>m. RangeIncl lower upper = Some (Inr m) \<and>
     (\<forall>x. SetIn (TInt x) m = Inr (sint lower \<le> sint x \<and> sint x \<le> sint upper))"
proof (cases "upper = MaxInt")
  case True
  then show ?thesis by (simp add: RangeIncl_def range_loop_MaxInt)
next
  case False
  have "sint upper \<noteq> sint MaxInt" using False signed_word_eqI by blast
  then have lt: "sint upper < 9223372036854775807" using sint_bounds [of upper] by (simp add: MaxInt_def)
  let ?xs = "map word_of_int [sint lower..sint upper] :: go_int list"
  have mem: "x \<in> set ?xs \<longleftrightarrow> sint lower \<le> sint x \<and> sint x \<le> sint upper" for x
  proof
    assume "x \<in> set ?xs"
    then obtain k where k: "x = word_of_int k" "sint lower \<le> k" "k \<le> sint upper" by auto
    then have "sint x = k" using sint_bounds [of lower] lt by (simp add: int_word_sint signed_take_bit_int_eq_self)
    then show "sint lower \<le> sint x \<and> sint x \<le> sint upper" using k by simp
  next
    assume "sint lower \<le> sint x \<and> sint x \<le> sint upper"
    then show "x \<in> set ?xs" by (simp add: image_iff) (rule bexI [of _ "sint x"], simp_all)
  qed
  have "range_loop lower upper [] = Some (map TInt ?xs)" using range_loop_eq [OF lt] by simp
  moreover obtain m where "gfold set_put (map TInt ?xs) gm_empty = Inr m"
      "\<forall>x. gm_lookup m (itoa (sint x)) \<noteq> None \<longleftrightarrow> x \<in> set ?xs"
    using gfold_set_put_int [of ?xs gm_empty] by auto
  ultimately show ?thesis using False mem
    by (auto simp: RangeIncl_def mk_set_def SetIn_def hash_def)
qed

end
