(* ===== verification/TLA_Operators.thy ===== *)
theory TLA_Operators
  imports TLA_Laws
begin

text \<open>
  The rest of the operator library of the generated monitor, against the operations of TLA+ that
  it stands for: integers of 64 bits against the integers, sequences indexed from 1, functions as
  records, and the loops over a set in any order of iteration.
\<close>

section \<open>Integers\<close>

definition fits :: "int \<Rightarrow> bool" where
  "fits x \<longleftrightarrow> - (2 ^ 63) \<le> x \<and> x < 2 ^ 63"

text \<open>What an integer becomes when it is kept in 64 bits.\<close>

definition wrapped :: "int \<Rightarrow> int" where
  "wrapped x = (x + 2 ^ 63) mod 2 ^ 64 - 2 ^ 63"

lemma wrapped_fits: "fits x \<Longrightarrow> wrapped x = x"
  by (simp add: fits_def wrapped_def)

lemma sint_fits: "fits (sint (a :: go_int))"
  using sint_bounds [of a] by (simp add: fits_def)

lemma sint_of_int_wrapped: "sint (word_of_int x :: go_int) = wrapped x"
  by (simp add: wrapped_def sint_sbintrunc' signed_take_bit_eq_take_bit_shift take_bit_eq_mod)

lemma wrapped_iff: "wrapped x = x \<longleftrightarrow> fits x"
  using sint_fits [of "word_of_int x"] wrapped_fits by (auto simp: sint_of_int_wrapped)

lemma word_ops_of_int:
  "a + b = (word_of_int (sint a + sint b) :: go_int)"
  "a - b = (word_of_int (sint a - sint b) :: go_int)"
  "a * b = (word_of_int (sint a * sint b) :: go_int)"
  by (simp_all flip: wi_hom_add wi_hom_sub wi_hom_mult)

lemma quotient_fits:
  assumes "fits x" and "fits y" and "y \<noteq> 0" and "x \<noteq> - (2 ^ 63) \<or> y \<noteq> - 1"
  shows "fits (x sdiv y)"
proof -
  have a: "\<bar>x sdiv y\<bar> = \<bar>x\<bar> div \<bar>y\<bar>"
    using assms(3) by (cases "x = 0") (simp_all add: signed_divide_int_def abs_mult abs_sgn_eq pos_imp_zdiv_nonneg_iff)
  show ?thesis
  proof (cases "\<bar>y\<bar> = 1 \<and> x = - (2 ^ 63)")
    case True
    then have "y = 1" using assms(4) by auto
    then show ?thesis using assms(1) by simp
  next
    case False
    have "\<bar>x\<bar> div \<bar>y\<bar> < 2 ^ 63"
    proof (cases "x = - (2 ^ 63)")
      case True
      then have "2 \<le> \<bar>y\<bar>" using False assms(3) by auto
      then have "\<bar>x\<bar> div \<bar>y\<bar> \<le> \<bar>x\<bar> div 2" by (intro zdiv_mono2) auto
      then show ?thesis using True by simp
    next
      case False
      then have "\<bar>x\<bar> < 2 ^ 63" using assms(1) by (auto simp: fits_def)
      moreover have "\<bar>x\<bar> div \<bar>y\<bar> \<le> \<bar>x\<bar> div 1" using assms(3) by (intro zdiv_mono2) auto
      ultimately show ?thesis by simp
    qed
    then show ?thesis using a by (auto simp: fits_def abs_if split: if_splits)
  qed
qed

text \<open>
  The operators on integers are exact as long as the result fits into 64 bits and wrap around
  otherwise; comparisons are always exact. Division panics on zero, cuts off towards zero, and has
  one case that wraps around. (The division of TLA+ rounds down: for \<open>-1\<close> by \<open>2\<close> it gives \<open>-1\<close>.)
\<close>

theorem integer_operators:
  "sint (IntPlus a b) = wrapped (sint a + sint b) \<and> sint (IntMinus a b) = wrapped (sint a - sint b) \<and>
   sint (IntMul a b) = wrapped (sint a * sint b) \<and>
   (IntLt a b \<longleftrightarrow> sint a < sint b) \<and> (IntLte a b \<longleftrightarrow> sint a \<le> sint b) \<and>
   (IntGt a b \<longleftrightarrow> sint a > sint b) \<and> (IntGte a b \<longleftrightarrow> sint a \<ge> sint b) \<and>
   (if b = 0 then IntDiv a b = Inl DivideByZero
    else \<exists>q. IntDiv a b = Inr q \<and>
      (if sint a = - (2 ^ 63) \<and> sint b = - 1 then q = a else sint q = sint a sdiv sint b))"
proof (intro conjI)
  show "sint (IntPlus a b) = wrapped (sint a + sint b)" "sint (IntMinus a b) = wrapped (sint a - sint b)"
    "sint (IntMul a b) = wrapped (sint a * sint b)"
    unfolding IntPlus_def IntMinus_def IntMul_def word_ops_of_int by (rule sint_of_int_wrapped)+
next
  show "if b = 0 then IntDiv a b = Inl DivideByZero
    else \<exists>q. IntDiv a b = Inr q \<and>
      (if sint a = - (2 ^ 63) \<and> sint b = - 1 then q = a else sint q = sint a sdiv sint b)"
  proof (cases "sint a = - (2 ^ 63) \<and> sint b = - 1")
    case True
    then have "sint (word_of_int (sint a sdiv sint b) :: go_int) = sint a" by (simp add: sint_of_int_wrapped wrapped_def)
    then have "word_of_int (sint a sdiv sint b) = a" by (rule signed_word_eqI)
    moreover have "b \<noteq> 0" using True by auto
    ultimately show ?thesis using True by (simp add: IntDiv_def)
  next
    case False
    have "sint b \<noteq> 0" if "b \<noteq> 0" using that signed_word_eqI [of b 0] by auto
    then show ?thesis using False quotient_fits [OF sint_fits sint_fits, of b a]
      by (auto simp: IntDiv_def sint_of_int_wrapped wrapped_fits)
  qed
qed (simp_all add: IntLt_def IntLte_def IntGt_def IntGte_def word_sless_alt word_sle_eq)

lemma integer_overflow_example:
  "sint (IntPlus MaxInt 1) = - (2 ^ 63) \<and> IntDiv MinInt (- 1) = Inr MinInt \<and> IntDiv (- 1) 2 = Inr 0"
  by code_simp

section \<open>Sequences\<close>

lemma sint_small: "n < 2 ^ 63 \<Longrightarrow> sint (of_nat n :: go_int) = int n"
  using sint_of_int_wrapped [of "int n"] by (simp add: wrapped_fits fits_def)

text \<open>
  Sequences are indexed from 1. An index outside panics, the smallest integer included, whose
  predecessor wraps around to the largest one.
\<close>

lemma SeqIndex_spec:
  assumes "length xs < 2 ^ 63"
  shows "SeqIndex xs i =
    (if 1 \<le> sint i \<and> sint i \<le> int (length xs) then Inr (xs ! (nat (sint i) - 1)) else Inl IndexOutOfRange)"
proof (cases "sint i = - (2 ^ 63)")
  case True
  then have "sint (TLAIndex i) = 2 ^ 63 - 1"
    unfolding TLAIndex_def word_ops_of_int(2) sint_of_int_wrapped by (simp add: wrapped_def)
  then show ?thesis using True assms by (simp add: SeqIndex_def Let_def)
next
  case False
  then have "fits (sint i - 1)" using sint_fits [of i] by (auto simp: fits_def)
  then have "sint (TLAIndex i) = sint i - 1"
    unfolding TLAIndex_def word_ops_of_int(2) sint_of_int_wrapped by (simp add: wrapped_fits)
  then show ?thesis by (auto simp: SeqIndex_def Let_def nat_diff_distrib)
qed

lemma Len_small: "length xs < 2 ^ 63 \<Longrightarrow> sint (Len xs) = int (length xs)"
  by (simp add: Len_def sint_small)

text \<open>The last element of a sequence is the one that was appended last.\<close>

lemma SeqIndex_Append:
  assumes "length xs + 1 < 2 ^ 63"
  shows "SeqIndex (Append xs e) (Len (Append xs e)) = Inr e"
  using SeqIndex_spec [of "Append xs e" "Len (Append xs e)"] Len_small [of "Append xs e"] assms
  by (simp add: Append_def nat_add_distrib)

lemma AppendSeqs_index:
  assumes "length xs + length ys < 2 ^ 63" and "1 \<le> j" and "j \<le> length ys"
  shows "SeqIndex (AppendSeqs xs ys) (of_nat (length xs + j)) = SeqIndex ys (of_nat j)"
  using assms by (cases j) (simp_all add: SeqIndex_spec AppendSeqs_def sint_small nth_append del: of_nat_add of_nat_Suc)

lemma RemoveAt_filter: "RemoveAt xs i = map snd (filter (\<lambda>(j, v). j \<noteq> unat (i - 1)) (List.enumerate 0 xs))"
  if "length xs < 2 ^ 63"
proof -
  have "TLAIndex i = of_nat j \<longleftrightarrow> j = unat (i - 1)" if "j < length xs" for j
    using that \<open>length xs < 2 ^ 63\<close> by (auto simp: TLAIndex_def word_unat_eq_iff [of "i - 1"] unat_of_nat)
  then have "(case p of (j, v) \<Rightarrow> TLAIndex i \<noteq> of_nat j) = (case p of (j, v) \<Rightarrow> j \<noteq> unat (i - 1))"
    if "p \<in> set (List.enumerate 0 xs)" for p
    using that by (cases p) (simp add: in_set_enumerate_eq)
  then show ?thesis
    unfolding RemoveAt_def by (intro arg_cong [of _ _ "map snd"] filter_cong) simp_all
qed

text \<open>\<^verbatim>\<open>RemoveAt\<close> drops the element at its index and gives the sequence unchanged for an index outside.\<close>

lemma filter_enumerate:
  "map snd (filter (\<lambda>(j, v). j \<noteq> n) (List.enumerate m xs)) =
     (if m \<le> n \<and> n < m + length xs then take (n - m) xs @ drop (Suc (n - m)) xs else xs)"
proof (induction xs arbitrary: m)
  case (Cons x xs)
  show ?case
  proof (cases "n = m")
    case True
    then show ?thesis using Cons.IH [of "Suc m"] by simp
  next
    case False
    then show ?thesis using Cons.IH [of "Suc m"] by (auto simp: take_Cons' drop_Cons' Suc_diff_Suc)
  qed
qed simp

lemma RemoveAt_spec:
  assumes "length xs < 2 ^ 63"
  shows "RemoveAt xs i =
    (if unat (i - 1) < length xs then take (unat (i - 1)) xs @ drop (Suc (unat (i - 1))) xs else xs)"
  using filter_enumerate [of "unat (i - 1)" 0 xs] by (simp add: RemoveAt_filter [OF assms])

lemma SelectSeq_filter:
  assumes "\<And>v. v \<in> set xs \<Longrightarrow> f v = Inr (TBool (P v))"
  shows "SelectSeq xs f = Inr (filter P xs)"
proof -
  have "gfold (\<lambda>v res. gbind (f v) (\<lambda>t. gbind (IsTrue t) (\<lambda>b. Inr (if b then res @ [v] else res)))) xs acc =
      Inr (acc @ filter P xs)" for acc
    using assms by (induction xs arbitrary: acc) (simp_all add: IsTrue_def IsFalse_def)
  then show ?thesis by (simp add: SelectSeq_def)
qed

lemma FoldSeq_fold: "(\<And>v acc. v \<in> set xs \<Longrightarrow> f v acc = Inr (h v acc)) \<Longrightarrow> FoldSeq f base xs = Inr (fold h xs base)"
  by (simp add: FoldSeq_def gfold_total)

section \<open>Sets in any order\<close>

text \<open>
  \<^verbatim>\<open>Min\<close> and \<^verbatim>\<open>Max\<close> of a set of integers, in whatever order the loop visits it; of the empty set they
  are the largest and the smallest integer.
\<close>

definition ints :: "(string \<times> TLA) list \<Rightarrow> int list" where
  "ints kvs = map (\<lambda>(_, v). case v of TInt i \<Rightarrow> sint i | _ \<Rightarrow> 0) kvs"

lemma gfold_extremum:
  assumes "\<And>i r. sint (sel i r) = h (sint i) (sint r)" and "\<forall>(_, v)\<in>set xs. \<exists>i. v = TInt i"
  shows "\<exists>r. gfold (\<lambda>(_, v) res. gbind (as_Int v) (\<lambda>i. Inr (sel i res))) xs acc = Inr r \<and>
    sint r = fold h (ints xs) (sint acc)"
  using assms(2)
proof (induction xs arbitrary: acc)
  case (Cons kv xs)
  then obtain k i where kv: "kv = (k, TInt i)" by (cases kv) auto
  then show ?case using Cons.IH [of "sel i acc"] Cons.prems assms(1) by (simp add: ints_def)
qed (simp add: ints_def)

lemma set_ints_order: "iteration_order it \<Longrightarrow> set (ints (it s)) = set (ints s)"
  by (auto simp: ints_def dest!: iteration_orderD [of it s])

lemma Min_Max_spec:
  assumes "iteration_order it" and "\<forall>(_, v)\<in>set s. \<exists>i. v = TInt i"
  shows "\<exists>lo hi. tla_Min it s = Inr lo \<and> tla_Max it s = Inr hi \<and>
    sint lo = Min (insert (2 ^ 63 - 1) (set (ints s))) \<and> sint hi = Max (insert (- (2 ^ 63)) (set (ints s)))"
proof -
  have all: "\<forall>(_, v)\<in>set (it s). \<exists>i. v = TInt i" using assms(2) iteration_orderD [OF assms(1), of s] by simp
  have lo: "\<exists>r. tla_Min it s = Inr r \<and> sint r = fold min (ints (it s)) (sint MaxInt)"
    unfolding tla_Min_def by (rule gfold_extremum [OF _ all]) (auto simp: word_sless_alt)
  have hi: "\<exists>r. tla_Max it s = Inr r \<and> sint r = fold max (ints (it s)) (sint MinInt)"
    unfolding tla_Max_def by (rule gfold_extremum [OF _ all]) (auto simp: word_sless_alt)
  have "sint MaxInt = 2 ^ 63 - 1" "sint MinInt = - (2 ^ 63)" by code_simp+
  with lo hi Min.set_eq_fold [of "sint MaxInt" "ints (it s)"] Max.set_eq_fold [of "sint MinInt" "ints (it s)"]
  show ?thesis by (auto simp: set_ints_order [OF assms(1)])
qed

section \<open>Records\<close>

text \<open>Records as functions: construction, update and reading.\<close>

lemma RecordIndex_Except:
  "gm_wf r \<Longrightarrow> RecordIndex (Except r k v) k' = (if k' = k then v else RecordIndex r k')"
  by (simp add: RecordIndex_def gm_lookup_Except)

lemma record_fill_lookup:
  "\<exists>m. record_fill (concat (map (\<lambda>(k, v). [TString k, v]) kvs)) res = Inr m \<and>
     gm_lookup m k = (case map_of (rev kvs) k of None \<Rightarrow> gm_lookup res k | Some v \<Rightarrow> Some v)"
proof (induction kvs arbitrary: res)
  case (Cons kv kvs)
  obtain k' v where kv: "kv = (k', v)" by (cases kv)
  show ?case using Cons.IH [of "gm_update k' v res"] kv by (auto simp: map_add_def split: option.splits)
qed simp

lemma mk_record_spec:
  "\<exists>m. mk_record (concat (map (\<lambda>(k, v). [TString k, v]) kvs)) = Inr m \<and>
     RecordIndex m k = (case map_of (rev kvs) k of None \<Rightarrow> NilTLA | Some v \<Rightarrow> v)"
  using record_fill_lookup [of kvs gm_empty k] by (auto simp: mk_record_def RecordIndex_def split: option.splits)

text \<open>The function constructor on a set of strings, in any order: the record of the values of \<open>f\<close>.\<close>

lemma gfold_FnConstruct:
  assumes "\<And>x. f (TString x) = Inr (h x)"
  shows "\<exists>m. gfold (\<lambda>(_, v) res. gbind (as_String v) (\<lambda>k. gbind (f v) (\<lambda>y. Inr (gm_update k y res))))
      (map (\<lambda>x. (x, TString x)) xs) res = Inr m \<and>
    (\<forall>k. gm_lookup m k = (if k \<in> set xs then Some (h k) else gm_lookup res k))"
proof (induction xs arbitrary: res)
  case (Cons x xs)
  show ?case using Cons.IH [of "gm_update x (h x) res"] assms by auto
qed simp

lemma str_set_elements: "(k, v) \<in> set (str_set ss) \<longleftrightarrow> k \<in> set ss \<and> v = TString k"
proof -
  have "(k, v) \<in> set (str_set ss) \<longleftrightarrow> gm_lookup (str_set ss) k = Some v"
    by (simp add: gm_lookup_def gm_wf_distinct)
  then show ?thesis by (auto simp: gm_lookup_str_set)
qed

lemma str_set_listed:
  assumes "iteration_order it"
  obtains ks where "it (str_set ss) = map (\<lambda>k. (k, TString k)) ks" "set ks = set ss"
proof
  have set: "set (it (str_set ss)) = set (str_set ss)" using iteration_orderD [OF assms] by blast
  have "(\<lambda>k. (k, TString k)) (fst kv) = kv" if "kv \<in> set (it (str_set ss))" for kv
  proof -
    from that set have "(fst kv, snd kv) \<in> set (str_set ss)" by simp
    then show ?thesis unfolding str_set_elements by (metis prod.collapse)
  qed
  then show "it (str_set ss) = map (\<lambda>k. (k, TString k)) (map fst (it (str_set ss)))"
    by (simp add: comp_def map_idI)
  show "set (map fst (it (str_set ss))) = set ss"
    unfolding set_map set set_eq_iff gm_keys_lookup gm_lookup_str_set by simp
qed

lemma FnConstruct_spec:
  assumes "iteration_order it" and "\<And>x. f (TString x) = Inr (h x)"
  shows "\<exists>m. FnConstruct it (str_set ss) f = Inr m \<and>
    (\<forall>k. RecordIndex m k = (if k \<in> set ss then h k else NilTLA))"
proof -
  obtain ks where ks: "it (str_set ss) = map (\<lambda>k. (k, TString k)) ks" "set ks = set ss"
    by (rule str_set_listed [OF assms(1)])
  obtain m where "FnConstruct it (str_set ss) f = Inr m"
    "\<forall>k. gm_lookup m k = (if k \<in> set ss then Some (h k) else None)"
    using gfold_FnConstruct [where f = f and h = h, OF assms(2), of ks gm_empty] ks by (auto simp: FnConstruct_def)
  then show ?thesis by (auto simp: RecordIndex_def)
qed

text \<open>Listing a set, in any order, and collecting the list gives the set back.\<close>

lemma ToSet_SetToSeq:
  assumes "iteration_order it"
  shows "ToSet (SetToSeq it (str_set ss)) = Inr (str_set ss)"
proof -
  obtain ks where ks: "it (str_set ss) = map (\<lambda>k. (k, TString k)) ks" "set ks = set ss"
    by (rule str_set_listed [OF assms])
  then have "SetToSeq it (str_set ss) = map TString ks" by (simp add: SetToSeq_def)
  then show ?thesis using ks(2) by (simp add: ToSet_str str_set_eq_iff)
qed

end
