(* ===== verification/Slices.thy ===== *)
theory Slices
  imports TLA_Values
begin

text \<open>
  The sequences of the monitor as Go has them: a slice is a window on a backing array, and
  \<^verbatim>\<open>append\<close> writes into the array in place when the slice has spare capacity. Two slices may so
  share an array. The other theories take a sequence for its contents; here is where that is
  exact, and where the code is laxer: a check of the form \<^verbatim>\<open>x' = Append(x, e)\<close> computes its
  right-hand side with \<^verbatim>\<open>append\<close>, and when \<open>x'\<close> was itself made from \<open>x\<close> in place, that
  overwrites what the check is about to compare.
\<close>

section \<open>Slices and arrays\<close>

record slice =
  arr :: nat
  slen :: nat

text \<open>The arrays in use, by their number; the length of an array is the capacity of its slices.\<close>

type_synonym arrays = "TLA list list"

definition slice_ok :: "arrays \<Rightarrow> slice \<Rightarrow> bool" where
  "slice_ok h s \<longleftrightarrow> arr s < length h \<and> slen s \<le> length (h ! arr s)"

definition contents :: "arrays \<Rightarrow> slice \<Rightarrow> TLA list" where
  "contents h s = take (slen s) (h ! arr s)"

text \<open>
  \<^verbatim>\<open>append(s, x)\<close>: in place with spare capacity, otherwise into a new array. How much larger the
  new array is depends on the version of the runtime: \<open>extra_cap\<close> gives the spare capacity.
\<close>

definition slice_append :: "(nat \<Rightarrow> nat) \<Rightarrow> arrays \<Rightarrow> slice \<Rightarrow> TLA \<Rightarrow> arrays \<times> slice" where
  "slice_append extra_cap h s x =
     (if slen s < length (h ! arr s)
      then (h[arr s := (h ! arr s)[slen s := x]], s\<lparr>slen := Suc (slen s)\<rparr>)
      else (h @ [contents h s @ [x] @ replicate (extra_cap (slen s)) NilTLA],
        \<lparr>arr = length h, slen = Suc (slen s)\<rparr>))"

text \<open>
  The check \<^verbatim>\<open>x' = Append(x, e)\<close> of the monitor, on the arrays as they are when it runs: the append,
  then the comparison of the contents.
\<close>

definition slice_check_append :: "(nat \<Rightarrow> nat) \<Rightarrow> arrays \<Rightarrow> slice \<Rightarrow> slice \<Rightarrow> TLA \<Rightarrow> arrays \<times> bool" where
  "slice_check_append extra_cap h new old e =
     (case slice_append extra_cap h old e of (h', s) \<Rightarrow> (h', Eq (TSeq (contents h' new)) (TSeq (contents h' s))))"

section \<open>Laws\<close>

lemma slice_append_ok:
  "slice_ok h s \<Longrightarrow> slice_append gr h s x = (h', s') \<Longrightarrow> slice_ok h' s'"
  by (auto simp: slice_append_def slice_ok_def contents_def split: if_splits)

text \<open>
  The slice that \<^verbatim>\<open>append\<close> returns has the contents of the old one and the new element, with or
  without spare capacity, and the old slice keeps its contents: as a function on contents,
  \<^verbatim>\<open>Append\<close> is what the value model says.
\<close>

lemma slice_append_contents:
  assumes "slice_ok h s" and "slice_append extra_cap h s x = (h', s')"
  shows "contents h' s' = Append (contents h s) x \<and> contents h' s = contents h s \<and> slice_ok h' s'"
  using assms slice_append_ok [OF assms]
  by (auto simp: slice_append_def slice_ok_def contents_def Append_def take_Suc_conv_app_nth nth_append
      split: if_splits)

lemma slice_append_contents_example:
  "slice_ok [[TInt 1, NilTLA]] \<lparr>arr = 0, slen = 1\<rparr> \<and>
   (\<exists>h' s'. slice_append (\<lambda>n. n) [[TInt 1, NilTLA]] \<lparr>arr = 0, slen = 1\<rparr> (TInt 2) = (h', s') \<and>
      contents h' s' = [TInt 1, TInt 2])"
proof -
  let ?h = "[[TInt 1, NilTLA]]" and ?s = "\<lparr>arr = 0, slen = 1\<rparr>"
  have ok: "slice_ok ?h ?s" by (simp add: slice_ok_def)
  obtain h' s' where a: "slice_append (\<lambda>n. n) ?h ?s (TInt 2) = (h', s')" by fastforce
  from slice_append_contents [OF ok a] have "contents h' s' = [TInt 1, TInt 2]"
    by (simp add: contents_def Append_def)
  then show ?thesis using ok a by blast
qed

text \<open>
  C31. The check of an append is void on slices with spare capacity: whatever element was appended
  to the old slice when the new state was made, the check that another one was appended
  succeeds, because it writes the expected element over the recorded one.
\<close>

theorem slice_check_void:
  assumes "slice_ok h old" and "slen old < length (h ! arr old)"
    and "slice_append extra_cap h old recorded = (h1, new)"
    and "slice_check_append extra_cap h1 new old expected = (h2, b)"
  shows "b \<and> contents h1 new = Append (contents h old) recorded \<and> contents h2 new = Append (contents h old) expected"
  using assms
  by (auto simp: slice_check_append_def slice_append_def slice_ok_def contents_def Append_def Eq_def
      take_Suc_conv_app_nth)

theorem slice_check_void_witness:
  "\<exists>h1 new h2 b. slice_append (\<lambda>n. n) [[TInt 1, NilTLA]] \<lparr>arr = 0, slen = 1\<rparr> (TString ''CSendAbort'') = (h1, new) \<and>
     slice_check_append (\<lambda>n. n) h1 new \<lparr>arr = 0, slen = 1\<rparr> (TString ''CSendCommit'') = (h2, b) \<and> b"
proof -
  let ?h = "[[TInt 1, NilTLA]]" and ?s = "\<lparr>arr = 0, slen = 1\<rparr>"
  have ok: "slice_ok ?h ?s" "slen ?s < length (?h ! arr ?s)" by (simp_all add: slice_ok_def)
  obtain h1 new where a: "slice_append (\<lambda>n. n) ?h ?s (TString ''CSendAbort'') = (h1, new)" by fastforce
  obtain h2 b where c: "slice_check_append (\<lambda>n. n) h1 new ?s (TString ''CSendCommit'') = (h2, b)" by fastforce
  from slice_check_void [OF ok a c] a c show ?thesis by blast
qed

section \<open>A whole trace\<close>

text \<open>
  The variables of \<^verbatim>\<open>Put\<close> that grow by \<^verbatim>\<open>Append\<close> (the log of actions and the lists of participants) are
  slices on arrays of their own. Each append takes the current slice of one variable, and the
  states that \<^verbatim>\<open>CaptureState\<close> stores keep the slices before and after it. \<^verbatim>\<open>CheckTrace\<close> comes after the
  last append: it runs the checks of all recorded appends on the arrays as they are then.
\<close>

fun run_appends ::
    "(nat \<Rightarrow> nat) \<Rightarrow> (nat \<times> TLA) list \<Rightarrow> arrays \<Rightarrow> slice list \<Rightarrow> arrays \<times> slice list \<times> (slice \<times> slice \<times> TLA) list" where
  "run_appends extra_cap [] h vs = (h, vs, [])"
| "run_appends extra_cap ((v, e) # ops) h vs =
     (case slice_append extra_cap h (vs ! v) e of (h1, new) \<Rightarrow>
        (case run_appends extra_cap ops h1 (vs[v := new]) of (h2, vs2, log) \<Rightarrow> (h2, vs2, (vs ! v, new, e) # log)))"

text \<open>The first check that fails ends the run with a panic.\<close>

fun run_checks :: "(nat \<Rightarrow> nat) \<Rightarrow> (slice \<times> slice \<times> TLA) list \<Rightarrow> arrays \<Rightarrow> arrays \<times> bool" where
  "run_checks extra_cap [] h = (h, True)"
| "run_checks extra_cap ((old, new, e) # log) h =
     (case slice_check_append extra_cap h new old e of (h1, b) \<Rightarrow>
        if b then run_checks extra_cap log h1 else (h1, False))"

text \<open>\<open>new\<close> is \<open>old\<close> and \<open>e\<close>, in the same array if there was room.\<close>

definition follows :: "arrays \<Rightarrow> slice \<Rightarrow> slice \<Rightarrow> TLA \<Rightarrow> bool" where
  "follows h old new e \<longleftrightarrow> slice_ok h old \<and> slice_ok h new \<and> slen new = Suc (slen old) \<and>
     contents h new = contents h old @ [e] \<and> (slen old < length (h ! arr old) \<longrightarrow> arr new = arr old)"

text \<open>An append to \<open>s\<close> leaves a slice alone that does not reach beyond \<open>s\<close> in its array.\<close>

definition within :: "slice \<Rightarrow> slice \<Rightarrow> bool" where
  "within t s \<longleftrightarrow> (arr t = arr s \<longrightarrow> slen t \<le> slen s)"

lemma slice_append_keeps:
  assumes "slice_ok h s" and "slice_append extra_cap h s x = (h', s')" and "slice_ok h t"
  shows "slice_ok h' t \<and> length (h' ! arr t) = length (h ! arr t) \<and>
    (within t s \<longrightarrow> contents h' t = contents h t \<and> within t s')"
  using assms
  by (auto simp: slice_append_def slice_ok_def contents_def within_def nth_append nth_list_update split: if_splits)

lemma slice_append_follows:
  assumes "slice_ok h s" and "slice_append extra_cap h s x = (h', s')"
  shows "follows h' s s' x" and "within s s'" and "arr s' = arr s \<or> arr s' = length h"
  using assms slice_append_contents [OF assms] slice_append_keeps [OF assms(1,2,1)]
  by (auto simp: follows_def within_def Append_def slice_append_def split: if_splits)

lemma follows_append:
  assumes "slice_ok h s" and "slice_append extra_cap h s x = (h', s')" and "follows h old new e"
    and "within old s" and "within new s"
  shows "follows h' old new e"
  using assms(3-5) slice_append_keeps [OF assms(1,2), of old] slice_append_keeps [OF assms(1,2), of new]
  by (auto simp: follows_def)

text \<open>The variables have arrays of their own, and nothing recorded so far reaches beyond them.\<close>

definition tips_ok :: "arrays \<Rightarrow> slice list \<Rightarrow> (slice \<times> slice \<times> TLA) list \<Rightarrow> bool" where
  "tips_ok h vs log \<longleftrightarrow> distinct (map arr vs) \<and> (\<forall>s\<in>set vs. slice_ok h s) \<and>
     (\<forall>(old, new, e)\<in>set log. follows h old new e \<and> (\<forall>s\<in>set vs. within old s \<and> within new s))"

lemma tips_ok_append:
  assumes tips: "tips_ok h vs log" and v: "v < length vs" and app: "slice_append extra_cap h (vs ! v) e = (h1, new)"
  shows "tips_ok h1 (vs[v := new]) ((vs ! v, new, e) # log)"
proof -
  have ok: "slice_ok h s" if "s \<in> set vs" for s using tips that by (simp add: tips_ok_def)
  have s: "slice_ok h (vs ! v)" using ok v by simp
  note f = slice_append_follows [OF s app] and keep = slice_append_keeps [OF s app]
  have dist: "distinct (map arr vs)" using tips by (simp add: tips_ok_def)
  have other: "arr (vs ! j) \<noteq> arr (vs ! v)" if "j < length vs" "j \<noteq> v" for j
    using nth_eq_iff_index_eq [OF dist, of j v] that v by simp
  have fresh: "arr (vs ! j) \<noteq> arr new" if "j < length vs" "j \<noteq> v" for j
    using f(3) other [OF that] ok [of "vs ! j"] that by (auto simp: slice_ok_def)
  have arrs: "arr (vs[v := new] ! j) = (if j = v then arr new else arr (vs ! j))" if "j < length vs" for j
    using that by (simp add: nth_list_update)
  have "distinct (map arr (vs[v := new]))"
    unfolding distinct_conv_nth length_map length_list_update
    using arrs fresh not_sym [OF fresh] dist by (simp add: distinct_conv_nth)
  moreover have ok1: "slice_ok h1 x" if "x \<in> set (vs[v := new])" for x
    using set_update_subset_insert [of vs v new] that f(1) ok keep by (auto simp: follows_def)
  moreover have new_tips: "within old x \<and> within t x" if "x \<in> set (vs[v := new])" "(old, t, e') \<in> set ((vs ! v, new, e) # log)" for x old t e'
  proof -
    obtain j where j: "j < length vs" "x = (if j = v then new else vs ! j)"
      using \<open>x \<in> set (vs[v := new])\<close> by (auto simp: in_set_conv_nth nth_list_update)
    show ?thesis
    proof (cases "(old, t, e') \<in> set log")
      case True
      then have r: "follows h old t e'" "within old (vs ! j)" "within t (vs ! j)" "within old (vs ! v)" "within t (vs ! v)"
        using tips j(1) v by (auto simp: tips_ok_def)
      then show ?thesis using keep [of old] keep [of t] j(2) by (auto simp: follows_def)
    next
      case False
      then have "old = vs ! v" "t = new" using that(2) by auto
      then show ?thesis using f(2) not_sym [OF other] not_sym [OF fresh] j by (simp add: within_def)
    qed
  qed
  moreover have "follows h1 old t e'" if "(old, t, e') \<in> set ((vs ! v, new, e) # log)" for old t e'
    using that f(1) tips v follows_append [OF s app] by (auto simp: tips_ok_def)
  ultimately show ?thesis unfolding tips_ok_def by blast
qed

lemma run_appends_ok:
  assumes "run_appends extra_cap ops h vs = (h1, vs1, log)" and "\<forall>(v, e)\<in>set ops. v < length vs" and "tips_ok h vs log0"
  shows "tips_ok h1 vs1 (rev log @ log0)"
  using assms
proof (induction ops arbitrary: h vs log log0)
  case (Cons op ops)
  obtain v e where op: "op = (v, e)" by (cases op)
  obtain h2 new where app: "slice_append extra_cap h (vs ! v) e = (h2, new)" by fastforce
  obtain log' where rest: "run_appends extra_cap ops h2 (vs[v := new]) = (h1, vs1, log')" and log: "log = (vs ! v, new, e) # log'"
    using Cons.prems(1) op app by (auto split: prod.splits)
  have v: "v < length vs" and "\<forall>(v', e)\<in>set ops. v' < length (vs[v := new])" using Cons.prems(2) op by auto
  from Cons.IH [OF rest this(2) tips_ok_append [OF Cons.prems(3) v app]] show ?case by (simp add: log)
qed simp

text \<open>A check of a recorded append passes, and at most adds arrays.\<close>

lemma follows_more: "follows h old new e \<Longrightarrow> follows (h @ ext) old new e"
  by (auto simp: follows_def slice_ok_def contents_def nth_append)

lemma check_follows:
  assumes "follows h old new e" and "slice_check_append extra_cap h new old e = (h', b)"
  shows "b \<and> (\<exists>ext. h' = h @ ext)"
proof (cases "slen old < length (h ! arr old)")
  case True
  let ?a = "h ! arr old"
  have f: "slice_ok h old" "slen new = Suc (slen old)" "arr new = arr old" "contents h new = contents h old @ [e]"
    using assms(1) True by (auto simp: follows_def)
  then have "take (slen old) ?a @ [?a ! slen old] = take (slen old) ?a @ [e]"
    using True by (simp add: contents_def take_Suc_conv_app_nth)
  then have "?a[slen old := e] = ?a" by (metis append_same_eq list.inject list_update_id same_append_eq)
  then have "slice_append extra_cap h old e = (h, old\<lparr>slen := Suc (slen old)\<rparr>)"
    using True by (simp add: slice_append_def)
  moreover have "contents h new = contents h (old\<lparr>slen := Suc (slen old)\<rparr>)" using f(2,3) by (simp add: contents_def)
  ultimately show ?thesis using assms(2) by (auto simp: slice_check_append_def Eq_def)
next
  case False
  have f: "slice_ok h old" "slice_ok h new" "contents h new = contents h old @ [e]" using assms(1) by (auto simp: follows_def)
  then show ?thesis using assms(2) False
    by (auto simp: slice_check_append_def slice_append_def slice_ok_def contents_def nth_append Eq_def)
qed

lemma run_checks_follows:
  assumes "run_checks extra_cap checks h = (h', b)" and "\<forall>(old, new, e)\<in>set checks. follows h old new e"
  shows "b \<and> (\<exists>ext. h' = h @ ext)"
  using assms
proof (induction checks arbitrary: h)
  case (Cons c checks)
  obtain old new e where c: "c = (old, new, e)" by (cases c)
  obtain h1 b1 where ck: "slice_check_append extra_cap h new old e = (h1, b1)" by fastforce
  from check_follows [OF _ ck] Cons.prems(2) c obtain ext where b1: "b1" "h1 = h @ ext" by auto
  have "run_checks extra_cap checks h1 = (h', b)" using Cons.prems(1) c ck b1(1) by simp
  moreover have "\<forall>(old, new, e)\<in>set checks. follows h1 old new e" using Cons.prems(2) b1(2) follows_more by auto
  ultimately show ?case using Cons.IH [of h1] b1(2) by auto
qed simp

text \<open>
  C32. On a trace that is right the sharing of arrays does no harm. Take variables on arrays of their
  own and any sequence of appends to them; afterwards, on the arrays as they are then, the checks
  of the recorded appends all pass, in whatever order and however often they run and whatever
  capacities the runtime chose, every slice keeps its contents, and every recorded new value is
  the old one with the element at its end.
\<close>

theorem trace_checks_right:
  assumes "distinct (map arr vs)" and "\<forall>s\<in>set vs. slice_ok h s" and "\<forall>(v, e)\<in>set ops. v < length vs"
    and "run_appends extra_cap ops h vs = (h1, vs1, log)"
    and "set checks \<subseteq> set log" and "run_checks extra_cap checks h1 = (h2, b)"
  shows "b \<and> (\<forall>s. slice_ok h1 s \<longrightarrow> contents h2 s = contents h1 s) \<and>
    (\<forall>(old, new, e)\<in>set log. contents h1 new = Append (contents h1 old) e)"
proof -
  have "tips_ok h vs []" using assms(1,2) by (simp add: tips_ok_def)
  from run_appends_ok [OF assms(4,3) this] have f: "\<forall>(old, new, e)\<in>set log. follows h1 old new e"
    by (auto simp: tips_ok_def)
  then obtain ext where "b" "h2 = h1 @ ext" using run_checks_follows [OF assms(6)] assms(5) by blast
  then show ?thesis using f by (auto simp: slice_ok_def contents_def nth_append follows_def Append_def)
qed

text \<open>Two variables, the first one with room for two elements, so that its two appends are in place.\<close>

theorem trace_checks_right_witness:
  "\<exists>h1 vs1 log h2. run_appends (\<lambda>n. n) [(0, TInt 2), (1, TInt 9), (0, TInt 3)]
       [[TInt 1, NilTLA, NilTLA], []] [\<lparr>arr = 0, slen = 1\<rparr>, \<lparr>arr = 1, slen = 0\<rparr>] = (h1, vs1, log) \<and>
     run_checks (\<lambda>n. n) (log @ log) h1 = (h2, True) \<and> contents h2 (vs1 ! 0) = [TInt 1, TInt 2, TInt 3] \<and> arr (vs1 ! 0) = 0"
proof -
  let ?ops = "[(0, TInt 2), (1, TInt 9), (0, TInt 3)]" and ?h = "[[TInt 1, NilTLA, NilTLA], []]"
  let ?vs = "[\<lparr>arr = 0, slen = 1\<rparr>, \<lparr>arr = 1, slen = 0\<rparr>]"
  obtain h1 vs1 log where r: "run_appends (\<lambda>n. n) ?ops ?h ?vs = (h1, vs1, log)" by (metis prod_cases3)
  obtain h2 b where c: "run_checks (\<lambda>n. n) (log @ log) h1 = (h2, b)" by fastforce
  have pre: "distinct (map arr ?vs)" "\<forall>s\<in>set ?vs. slice_ok ?h s" "\<forall>(v, e)\<in>set ?ops. v < length ?vs" "set (log @ log) \<subseteq> set log"
    by (simp_all add: slice_ok_def)
  have "(case run_appends (\<lambda>n. n) ?ops ?h ?vs of (h1, vs1, log) \<Rightarrow>
      contents h1 (vs1 ! 0) = [TInt 1, TInt 2, TInt 3] \<and> arr (vs1 ! 0) = 0 \<and> slice_ok h1 (vs1 ! 0))" by code_simp
  with trace_checks_right [OF pre(1-3) r pre(4) c] r c show ?thesis by auto
qed

end
