(* ===== verification/Capture.thy ===== *)
theory Capture
  imports Monitor
begin

text \<open>
  Capturing the monitored state in parts (\<^verbatim>\<open>CaptureVariable\<close> and \<^verbatim>\<open>CaptureState\<close> of
  \<^verbatim>\<open>server/TwoPhaseCommitFull.go\<close>): variables that are captured early wait in the monitor for the
  next captured state and replace its variables.
\<close>

section \<open>Variables that wait\<close>

text \<open>One call of \<^verbatim>\<open>CaptureVariable\<close>: a state that may have nil fields, the action and its arguments.\<close>

type_synonym early = "State \<times> EventType \<times> TLA list"

definition capture_variables :: "early list \<Rightarrow> Monitor \<Rightarrow> Monitor" where
  "capture_variables vs m = fold (\<lambda>(v, typ, args) m. CaptureVariable m v typ args) vs m"

text \<open>The value of a variable after the states \<open>vs\<close>: the last one that is not nil, if there is one.\<close>

definition last_value :: "(State \<Rightarrow> TLA) \<Rightarrow> State list \<Rightarrow> State \<Rightarrow> TLA" where
  "last_value x vs c =
     (let given = filter (\<lambda>v. x v \<noteq> NilTLA) vs in if given = [] then x c else x (last given))"

definition variables :: "(State \<Rightarrow> TLA) list" where
  "variables = [who, actions, tmCommitted, outbox, inflight, tmPrepared, tmDecision, tmAborted, rmState, inbox]"

text \<open>
  Arguments that Go can compare: comparing two sequences, records or sets panics.
\<close>

fun comparable :: "TLA \<Rightarrow> bool" where
  "comparable (TSeq _) = False"
| "comparable (TRecord _) = False"
| "comparable (TSet _) = False"
| "comparable _ = True"

definition agrees :: "TLA list \<Rightarrow> TLA list \<Rightarrow> bool" where
  "agrees ps args \<longleftrightarrow> length ps \<le> length args \<and> ps = take (length ps) args \<and> list_all comparable ps"

lemma iface_neq_same: "iface_neq p a = Inr False \<longleftrightarrow> p = a \<and> comparable p"
  by (cases "(p, a)" rule: iface_neq.cases) auto

lemma args_mismatch_None: "args_mismatch i ps args = Inr None \<longleftrightarrow> agrees ps args"
proof (induction i ps args rule: args_mismatch.induct)
  case (3 i p ps a as)
  show ?case
  proof (cases "iface_neq p a")
    case (Inr ne)
    then show ?thesis using 3 [of ne] iface_neq_same [of p a] by (cases ne) (auto simp: agrees_def)
  next
    case (Inl e)
    then show ?thesis using iface_neq_same [of p a] by (auto simp: agrees_def)
  qed
qed (auto simp: agrees_def)

lemma override_variable:
  assumes "x \<in> set variables"
  shows "x (override_state c v) = (if x v \<noteq> NilTLA then x v else x c)"
proof -
  have "list_all (\<lambda>x. x (override_state c v) = (if x v \<noteq> NilTLA then x v else x c)) variables"
    by (simp add: variables_def override_state_def unless_nil_def)
  then show ?thesis using assms unfolding list_all_iff by blast
qed

lemma last_value_Cons:
  "x \<in> set variables \<Longrightarrow> last_value x (v # vs) c = last_value x vs (override_state c v)"
  by (cases "filter (\<lambda>v. x v \<noteq> NilTLA) vs") (simp_all add: last_value_def override_variable)

lemma fold_override_variable:
  "x \<in> set variables \<Longrightarrow> x (fold (\<lambda>v c. override_state c v) vs c) = last_value x vs c"
  by (induction vs arbitrary: c) (simp_all add: last_value_Cons, simp add: last_value_def)

lemma apply_extra_ok:
  assumes "\<forall>e\<in>set es. etyp e = typ \<and> agrees (params e) args"
  shows "apply_extra es typ args c = Inr (Inr (fold (\<lambda>v c. override_state c v) (map estate es) c))"
  using assms
proof (induction es arbitrary: c)
  case (Cons e es)
  then have "args_mismatch 0 (params e) args = Inr None" by (simp add: args_mismatch_None)
  then show ?case using Cons by simp
qed simp

definition waiting :: "early \<Rightarrow> Event" where
  "waiting v = \<lparr>etyp = fst (snd v), params = snd (snd v), estate = fst v, efile = [], eline = 0\<rparr>"

lemma capture_variables_extra: "capture_variables vs m = m\<lparr>extra := extra m @ map waiting vs\<rparr>"
  unfolding capture_variables_def by (induction vs arbitrary: m) (auto simp: CaptureVariable_def waiting_def)

text \<open>
  C37. Variables that are captured early reach the trace. When every waiting variable was captured
  for the same action and with arguments that agree with those of the state, \<^verbatim>\<open>CaptureState\<close> adds one
  event to the trace, in which each variable has the value that was captured for it last, or
  that of the state if none was, and nothing waits any more.
\<close>

theorem early_variables_captured:
  assumes "extra m = []" and "\<forall>(v, t, ps)\<in>set vs. t = typ \<and> agrees ps args"
  shows "\<exists>e. CaptureState (file, line) (capture_variables vs m) c typ args =
      Inr (None, m\<lparr>extra := [], events := events m @ [e]\<rparr>) \<and>
    etyp e = typ \<and> params e = args \<and> efile e = file \<and> eline e = line \<and>
    (\<forall>x\<in>set variables. x (estate e) = last_value x (map fst vs) c)"
proof -
  let ?c = "fold (\<lambda>v c. override_state c v) (map estate (map waiting vs)) c"
  let ?e = "\<lparr>etyp = typ, params = args, estate = ?c, efile = file, eline = line\<rparr>"
  have "\<forall>e\<in>set (map waiting vs). etyp e = typ \<and> agrees (params e) args"
    using assms(2) by (auto simp: waiting_def)
  note extra = apply_extra_ok [OF this, of c]
  have "CaptureState (file, line) (capture_variables vs m) c typ args = Inr (None, m\<lparr>extra := [], events := events m @ [?e]\<rparr>)"
    using assms(1) extra by (simp add: CaptureState_def capture_variables_extra)
  moreover have "map estate (map waiting vs) = map fst vs" by (simp add: waiting_def)
  then have "\<forall>x\<in>set variables. x (estate ?e) = last_value x (map fst vs) c"
    using fold_override_variable by (metis (no_types, lifting) Event.select_convs(3))
  ultimately show ?thesis by (intro exI [of _ ?e]) simp
qed

theorem early_variables_captured_witness:
  "\<exists>e. CaptureState (''a.go'', 7)
      (capture_variables [(nil_state\<lparr>who := TString ''r1''\<rparr>, CSendCommit, [TString ''r1'']),
         (nil_state\<lparr>who := TString ''r2''\<rparr>, CSendCommit, [])] NewMonitor)
      nil_state CSendCommit [TString ''r1''] = Inr (None, NewMonitor\<lparr>extra := [], events := [e]\<rparr>) \<and>
    who (estate e) = TString ''r2'' \<and> inbox (estate e) = NilTLA"
proof -
  let ?vs = "[(nil_state\<lparr>who := TString ''r1''\<rparr>, CSendCommit, [TString ''r1'']), (nil_state\<lparr>who := TString ''r2''\<rparr>, CSendCommit, [])]"
  have "\<forall>(v, t, ps)\<in>set ?vs. t = CSendCommit \<and> agrees ps [TString ''r1'']" by (simp add: agrees_def)
  moreover have "extra NewMonitor = []" by (simp add: NewMonitor_def)
  ultimately obtain e where e: "CaptureState (''a.go'', 7) (capture_variables ?vs NewMonitor) nil_state CSendCommit [TString ''r1''] =
      Inr (None, NewMonitor\<lparr>extra := [], events := events NewMonitor @ [e]\<rparr>)"
    "\<forall>x\<in>set variables. x (estate e) = last_value x (map fst ?vs) nil_state"
    using early_variables_captured [of NewMonitor ?vs CSendCommit "[TString ''r1'']" "''a.go''" 7 nil_state] by blast
  have "who \<in> set variables" "inbox \<in> set variables" by (simp_all add: variables_def)
  with e(2) have "who (estate e) = last_value who (map fst ?vs) nil_state"
      "inbox (estate e) = last_value inbox (map fst ?vs) nil_state" by blast+
  then have "who (estate e) = TString ''r2''" "inbox (estate e) = NilTLA" by (simp_all add: last_value_def nil_state_def)
  moreover have "events NewMonitor = []" by (simp add: NewMonitor_def)
  ultimately show ?thesis using e(1) by auto
qed

section \<open>A variable that does not agree\<close>

text \<open>A sequence of states, their errors ignored as in \<^verbatim>\<open>Put\<close>.\<close>

definition capture_states :: "((string \<times> int) \<times> State \<times> EventType \<times> TLA list) list \<Rightarrow> Monitor \<Rightarrow> Monitor go" where
  "capture_states cs m =
     gfold (\<lambda>(site, c, typ, args) m. gbind (CaptureState site m c typ args) (\<lambda>(_, m'). Inr m')) cs m"

text \<open>
  \<^verbatim>\<open>CaptureState\<close> gives up without dropping the variables that wait. One that was captured for
  an action that does not come next silences the monitor: no later state of any other action
  gets into the trace.
\<close>

lemma waiting_variable_blocks:
  assumes "extra m = e # es" and "\<forall>(site, c, typ, args)\<in>set cs. typ \<noteq> etyp e"
  shows "capture_states cs m = Inr m"
  using assms(2)
proof (induction cs)
  case (Cons c cs)
  then have "(case c of (site, st, typ, args) \<Rightarrow> CaptureState site m st typ args) = Inr (Some ''type did not match'', m)"
    using assms(1) by (auto simp: CaptureState_def)
  then show ?case using Cons by (auto simp: capture_states_def split: prod.splits)
qed (simp add: capture_states_def)

end
