(* ===== verification/Messages.thy ===== *)
theory Messages
  imports Proto
begin

text \<open>
  The methods of the generated messages (\<^verbatim>\<open>proto/schema.pb.go\<close>): the enumerations with their tables
  of names and numbers, the accessors, which may be called on a nil pointer, and \<^verbatim>\<open>Reset\<close>. The zero
  value of a type is what a field of a fresh message holds.
\<close>

section \<open>Enumerations\<close>

definition CommitType_name :: "(int, string) gomap" where
  "CommitType_name = gm_of_list [(0, ''TWO_PHASE_COMMIT''), (1, ''THREE_PHASE_COMMIT'')]"

definition CommitType_value :: "(string, int) gomap" where
  "CommitType_value = gm_of_list [(''TWO_PHASE_COMMIT'', 0), (''THREE_PHASE_COMMIT'', 1)]"

definition Type_name :: "(int, string) gomap" where
  "Type_name = gm_of_list [(0, ''ACK''), (1, ''NACK'')]"

definition Type_value :: "(string, int) gomap" where
  "Type_value = gm_of_list [(''ACK'', 0), (''NACK'', 1)]"

primrec CommitType_Number :: "CommitType \<Rightarrow> int" where
  "CommitType_Number TWO_PHASE_COMMIT = 0"
| "CommitType_Number THREE_PHASE_COMMIT = 1"
| "CommitType_Number (CommitType_other n) = sint n"

primrec Type_Number :: "ResponseType \<Rightarrow> int" where
  "Type_Number ACK = 0"
| "Type_Number NACK = 1"
| "Type_Number (Type_other n) = sint n"

text \<open>
  The text of an enumeration value is its name in the descriptor, or the number when it has
  none. \<open>names\<close> stands for the descriptor of the enumeration.
\<close>

definition EnumStringOf :: "(int, string) gomap \<Rightarrow> int \<Rightarrow> string" where
  "EnumStringOf names n = (case gm_lookup names n of Some name \<Rightarrow> name | None \<Rightarrow> itoa n)"

definition CommitType_String :: "(int, string) gomap \<Rightarrow> CommitType \<Rightarrow> string" where
  "CommitType_String names x = EnumStringOf names (CommitType_Number x)"

definition Type_String :: "(int, string) gomap \<Rightarrow> ResponseType \<Rightarrow> string" where
  "Type_String names x = EnumStringOf names (Type_Number x)"

definition CommitType_Enum :: "CommitType \<Rightarrow> CommitType option" where
  "CommitType_Enum x = Some x"

definition Type_Enum :: "ResponseType \<Rightarrow> ResponseType option" where
  "Type_Enum x = Some x"

section \<open>Accessors\<close>

definition ProposeRequest_GetKey :: "ProposeRequest option \<Rightarrow> string" where
  "ProposeRequest_GetKey x = (case x of Some m \<Rightarrow> pKey m | None \<Rightarrow> [])"

definition ProposeRequest_GetValue :: "ProposeRequest option \<Rightarrow> bytes" where
  "ProposeRequest_GetValue x = (case x of Some m \<Rightarrow> pValue m | None \<Rightarrow> [])"

definition ProposeRequest_GetCommitType :: "ProposeRequest option \<Rightarrow> CommitType" where
  "ProposeRequest_GetCommitType x = (case x of Some m \<Rightarrow> pCommitType m | None \<Rightarrow> TWO_PHASE_COMMIT)"

definition ProposeRequest_GetIndex :: "ProposeRequest option \<Rightarrow> uint64" where
  "ProposeRequest_GetIndex x = (case x of Some m \<Rightarrow> pIndex m | None \<Rightarrow> 0)"

definition Response_GetType :: "Response option \<Rightarrow> ResponseType" where
  "Response_GetType x = (case x of Some m \<Rightarrow> rType m | None \<Rightarrow> ACK)"

definition Response_GetIndex :: "Response option \<Rightarrow> uint64" where
  "Response_GetIndex x = (case x of Some m \<Rightarrow> rIndex m | None \<Rightarrow> 0)"

definition PrecommitRequest_GetIndex :: "PrecommitRequest option \<Rightarrow> uint64" where
  "PrecommitRequest_GetIndex x = (case x of Some m \<Rightarrow> pcIndex m | None \<Rightarrow> 0)"

definition CommitRequest_GetIndex :: "CommitRequest option \<Rightarrow> uint64" where
  "CommitRequest_GetIndex x = (case x of Some m \<Rightarrow> cIndex m | None \<Rightarrow> 0)"

definition CommitRequest_GetIsRollback :: "CommitRequest option \<Rightarrow> bool" where
  "CommitRequest_GetIsRollback x = (case x of Some m \<Rightarrow> cIsRollback m | None \<Rightarrow> False)"

definition Entry_GetKey :: "Entry option \<Rightarrow> string" where
  "Entry_GetKey x = (case x of Some m \<Rightarrow> eKey m | None \<Rightarrow> [])"

definition Entry_GetValue :: "Entry option \<Rightarrow> bytes" where
  "Entry_GetValue x = (case x of Some m \<Rightarrow> eValue m | None \<Rightarrow> [])"

definition Msg_GetKey :: "Msg option \<Rightarrow> string" where
  "Msg_GetKey x = (case x of Some m \<Rightarrow> mKey m | None \<Rightarrow> [])"

definition Value_GetValue :: "Value option \<Rightarrow> bytes" where
  "Value_GetValue x = (case x of Some m \<Rightarrow> vValue m | None \<Rightarrow> [])"

definition Info_GetHeight :: "Info option \<Rightarrow> uint64" where
  "Info_GetHeight x = (case x of Some m \<Rightarrow> iHeight m | None \<Rightarrow> 0)"

section \<open>Reset\<close>

text \<open>The message that a call of \<^verbatim>\<open>Reset\<close> leaves; on a nil pointer the assignment panics.\<close>

definition reset_to :: "'m \<Rightarrow> 'm option \<Rightarrow> 'm go" where
  "reset_to zero x = (case x of None \<Rightarrow> Inl NilDereference | Some _ \<Rightarrow> Inr zero)"

definition ProposeRequest_Reset :: "ProposeRequest option \<Rightarrow> ProposeRequest go" where
  "ProposeRequest_Reset = reset_to \<lparr>pKey = [], pValue = [], pCommitType = TWO_PHASE_COMMIT, pIndex = 0\<rparr>"

definition Response_Reset :: "Response option \<Rightarrow> Response go" where
  "Response_Reset = reset_to \<lparr>rType = ACK, rIndex = 0\<rparr>"

definition PrecommitRequest_Reset :: "PrecommitRequest option \<Rightarrow> PrecommitRequest go" where
  "PrecommitRequest_Reset = reset_to \<lparr>pcIndex = 0\<rparr>"

definition CommitRequest_Reset :: "CommitRequest option \<Rightarrow> CommitRequest go" where
  "CommitRequest_Reset = reset_to \<lparr>cIndex = 0, cIsRollback = False\<rparr>"

definition Entry_Reset :: "Entry option \<Rightarrow> Entry go" where
  "Entry_Reset = reset_to \<lparr>eKey = [], eValue = []\<rparr>"

definition Msg_Reset :: "Msg option \<Rightarrow> Msg go" where
  "Msg_Reset = reset_to \<lparr>mKey = []\<rparr>"

definition Value_Reset :: "Value option \<Rightarrow> Value go" where
  "Value_Reset = reset_to \<lparr>vValue = []\<rparr>"

definition Info_Reset :: "Info option \<Rightarrow> Info go" where
  "Info_Reset = reset_to \<lparr>iHeight = 0\<rparr>"

section \<open>Laws\<close>

lemmas table_defs = CommitType_name_def CommitType_value_def Type_name_def Type_value_def gm_of_list_def gm_empty_def

text \<open>The two tables of an enumeration are inverse to each other.\<close>

lemma enum_tables:
  "gm_lookup CommitType_name n = Some name \<longleftrightarrow> gm_lookup CommitType_value name = Some n"
  "gm_lookup Type_name n = Some name \<longleftrightarrow> gm_lookup Type_value name = Some n"
  by (auto simp: table_defs split: if_splits)

text \<open>
  The text of an enumeration value gives its number back: no number prints like a name, so values
  with the same text are the same, the ones that the schema does not name included.
\<close>

lemma itoa_no_capital: "CHR ''A'' \<notin> set (itoa n)" "CHR ''T'' \<notin> set (itoa n)"
  using nat_digits_are_digits [of "nat n"] nat_digits_are_digits [of "nat (- n)"]
  by (auto simp: itoa_def is_digit_def)

lemma enum_text_injective:
  "CommitType_String CommitType_name x = CommitType_String CommitType_name y \<Longrightarrow> CommitType_Number x = CommitType_Number y"
  "Type_String Type_name u = Type_String Type_name v \<Longrightarrow> Type_Number u = Type_Number v"
proof -
  have no: "itoa n \<noteq> ''TWO_PHASE_COMMIT''" "itoa n \<noteq> ''THREE_PHASE_COMMIT''" "itoa n \<noteq> ''ACK''" "itoa n \<noteq> ''NACK''" for n
    using itoa_no_capital [of n] by (metis list.set_intros)+
  show "CommitType_String CommitType_name x = CommitType_String CommitType_name y \<Longrightarrow> CommitType_Number x = CommitType_Number y"
    using no [of "CommitType_Number x"] no [of "CommitType_Number y"]
    by (auto simp: CommitType_String_def EnumStringOf_def table_defs split: if_splits)
  show "Type_String Type_name u = Type_String Type_name v \<Longrightarrow> Type_Number u = Type_Number v"
    using no [of "Type_Number u"] no [of "Type_Number v"]
    by (auto simp: Type_String_def EnumStringOf_def table_defs split: if_splits)
qed

text \<open>
  A nil response reads as an acknowledgement. The coordinator does not use the accessors: it
  tests the pointer, and reads the field.
\<close>

lemma nil_response_is_ack: "Response_GetType None = ACK"
  by (simp add: Response_GetType_def)

text \<open>The accessors on a message that was reset are those on a nil pointer.\<close>

lemma reset_reads_as_nil:
  "ProposeRequest_Reset (Some m) = Inr p \<Longrightarrow>
     ProposeRequest_GetKey (Some p) = ProposeRequest_GetKey None \<and>
     ProposeRequest_GetValue (Some p) = ProposeRequest_GetValue None \<and>
     ProposeRequest_GetCommitType (Some p) = ProposeRequest_GetCommitType None \<and>
     ProposeRequest_GetIndex (Some p) = ProposeRequest_GetIndex None"
  "Response_Reset (Some r) = Inr r' \<Longrightarrow>
     Response_GetType (Some r') = Response_GetType None \<and> Response_GetIndex (Some r') = Response_GetIndex None"
  "CommitRequest_Reset (Some c) = Inr c' \<Longrightarrow>
     CommitRequest_GetIndex (Some c') = CommitRequest_GetIndex None \<and>
     CommitRequest_GetIsRollback (Some c') = CommitRequest_GetIsRollback None"
  by (auto simp: ProposeRequest_Reset_def Response_Reset_def CommitRequest_Reset_def reset_to_def
      ProposeRequest_GetKey_def ProposeRequest_GetValue_def ProposeRequest_GetCommitType_def ProposeRequest_GetIndex_def
      Response_GetType_def Response_GetIndex_def CommitRequest_GetIndex_def CommitRequest_GetIsRollback_def)

end
