(* ===== verification/Exclusive.thy ===== *)
theory Exclusive
  imports Overlap
begin

text \<open>
  Calls of \<^verbatim>\<open>Put\<close> that do not overlap. A schedule is exclusive if no call begins while another one is
  running, which a lock around \<^verbatim>\<open>Put\<close> would ensure; the code has none. Under such a schedule the steps
  of all calls together are calls of \<^verbatim>\<open>Put\<close> one after the other, so that everything that is shown
  of \<^verbatim>\<open>Put\<close> holds of them.
\<close>

section \<open>Exclusive schedules\<close>

fun running :: "put_pc \<Rightarrow> bool" where
  "running Beginning = False"
| "running (Answered _) = False"
| "running _ = True"

definition pc_of :: "put_call \<Rightarrow> put_pc" where
  "pc_of c = fst (snd c)"

lemma pc_of_simp [simp]: "pc_of (req, pc, x) = pc"
  by (simp add: pc_of_def)

definition idle :: "put_call list \<Rightarrow> bool" where
  "idle cs \<longleftrightarrow> list_all (\<lambda>c. \<not> running (pc_of c)) cs"

fun exclusive :: "'w grpc \<Rightarrow> 'd Database \<Rightarrow> nat list \<Rightarrow> put_call list \<times> 'd Server \<times> 'w \<Rightarrow> bool" where
  "exclusive g dbi [] x = True"
| "exclusive g dbi (i # is) (cs, s, w) =
     (if i < length cs then
        (case cs ! i of (req, pc, ctx, gs) \<Rightarrow>
           (pc = Beginning \<longrightarrow> idle cs) \<and>
           (case put_step g dbi req (pc, ctx, gs, s, w) of
              Inl p \<Rightarrow> True
            | Inr (pc', ctx', gs', s', w') \<Rightarrow> exclusive g dbi is (cs[i := (req, pc', ctx', gs')], s', w')))
      else exclusive g dbi is (cs, s, w))"

text \<open>The calls \<open>cs\<close> served one after the other, each at most once, with their replies.\<close>

inductive one_by_one ::
    "'w grpc \<Rightarrow> 'd Database \<Rightarrow> put_call list \<Rightarrow> 'd Server \<Rightarrow> 'w \<Rightarrow> (nat \<times> Response reply) list \<Rightarrow> 'd Server \<Rightarrow> 'w \<Rightarrow> bool"
  for g dbi cs s w where
  no_call: "one_by_one g dbi cs s w [] s w"
| one_more_call: "one_by_one g dbi cs s w rs s1 w1 \<Longrightarrow> i < length cs \<Longrightarrow> i \<notin> fst ` set rs \<Longrightarrow>
    cs ! i = (req, Beginning, ctx, gs) \<Longrightarrow> Put g dbi s1 ctx req w1 = Some (Inr (reply, s2, w2)) \<Longrightarrow>
    one_by_one g dbi cs s w (rs @ [(i, reply)]) s2 w2"

lemma one_by_one_distinct: "one_by_one g dbi cs s w rs s' w' \<Longrightarrow> distinct (map fst rs)"
  by (induction rule: one_by_one.induct) auto

section \<open>The invariant\<close>

lemma put_steps_alone_snoc:
  "put_steps_alone g dbi req n c = Inr c' \<Longrightarrow> put_steps_alone g dbi req (Suc n) c = put_step g dbi req c'"
proof (induction n arbitrary: c)
  case 0
  then show ?case by (cases "put_step g dbi req c'") simp_all
next
  case (Suc n)
  then obtain c1 where c1: "put_step g dbi req c = Inr c1" "put_steps_alone g dbi req n c1 = Inr c'"
    by (auto elim!: gbind_InrE)
  from Suc.IH [OF c1(2)] show ?case using c1(1) by simp
qed

lemma put_step_not_Beginning: "put_step g dbi req c \<noteq> Inr (Beginning, x)"
  by (cases "(g, dbi, req, c)" rule: put_step.cases)
    (auto simp: persist_step_def Let_def elim!: gbind_InrE split: if_splits option.splits prod.splits)

lemma put_step_Beginning:
  "put_step g dbi req (Beginning, ctx, gs, s, w) = Inr (pc', x) \<Longrightarrow> running pc'"
  by (auto elim!: gbind_InrE)

text \<open>
  \<open>rs\<close> are the calls that are done, with the state \<open>s1\<close>, \<open>w1\<close> in which the last of them left the
  program; a running call has started from there.
\<close>

definition serial_inv ::
    "'w grpc \<Rightarrow> 'd Database \<Rightarrow> put_call list \<Rightarrow> 'd Server \<Rightarrow> 'w \<Rightarrow> (nat \<times> Response reply) list \<Rightarrow> 'd Server \<Rightarrow> 'w \<Rightarrow>
       put_call list \<times> 'd Server \<times> 'w \<Rightarrow> bool" where
  "serial_inv g dbi cs0 s0 w0 rs s1 w1 x \<longleftrightarrow>
     (case x of (cs, s, w) \<Rightarrow>
        one_by_one g dbi cs0 s0 w0 rs s1 w1 \<and> length cs = length cs0 \<and>
        (\<forall>i<length cs. \<forall>reply. pc_of (cs ! i) = Answered reply \<longleftrightarrow> (i, reply) \<in> set rs) \<and>
        (\<forall>i<length cs. pc_of (cs ! i) = Beginning \<longrightarrow> cs ! i = cs0 ! i) \<and>
        (idle cs \<longrightarrow> s = s1 \<and> w = w1) \<and>
        (\<forall>i<length cs. running (pc_of (cs ! i)) \<longrightarrow>
           (\<forall>j<length cs. running (pc_of (cs ! j)) \<longrightarrow> j = i) \<and>
           (\<exists>req ctx0 gs0 n. cs0 ! i = (req, Beginning, ctx0, gs0) \<and> fst (cs ! i) = req \<and>
              put_steps_alone g dbi req n (Beginning, ctx0, gs0, s1, w1) =
                Inr (case cs ! i of (_, pc, ctx, gs) \<Rightarrow> (pc, ctx, gs, s, w)))))"

lemma idle_iff: "idle cs \<longleftrightarrow> (\<forall>i<length cs. \<not> running (pc_of (cs ! i)))"
  by (simp add: idle_def list_all_length)

lemma serial_invD:
  assumes "serial_inv g dbi cs0 s0 w0 rs s1 w1 (cs, s, w)"
  shows "one_by_one g dbi cs0 s0 w0 rs s1 w1" and "length cs = length cs0"
    and "i < length cs \<Longrightarrow> pc_of (cs ! i) = Answered reply \<longleftrightarrow> (i, reply) \<in> set rs"
    and "i < length cs \<Longrightarrow> pc_of (cs ! i) = Beginning \<Longrightarrow> cs ! i = cs0 ! i"
    and "idle cs \<Longrightarrow> s = s1" and "idle cs \<Longrightarrow> w = w1"
    and "i < length cs \<Longrightarrow> running (pc_of (cs ! i)) \<Longrightarrow> j < length cs \<Longrightarrow> running (pc_of (cs ! j)) \<Longrightarrow> j = i"
    and "i < length cs \<Longrightarrow> running (pc_of (cs ! i)) \<Longrightarrow>
      \<exists>req ctx0 gs0 n. cs0 ! i = (req, Beginning, ctx0, gs0) \<and> fst (cs ! i) = req \<and>
        put_steps_alone g dbi req n (Beginning, ctx0, gs0, s1, w1) =
          Inr (case cs ! i of (_, pc, ctx, gs) \<Rightarrow> (pc, ctx, gs, s, w))"
  using assms unfolding serial_inv_def prod.case by blast+

lemma serial_invI:
  assumes "one_by_one g dbi cs0 s0 w0 rs s1 w1" and "length cs = length cs0"
    and "\<And>i reply. i < length cs \<Longrightarrow> pc_of (cs ! i) = Answered reply \<longleftrightarrow> (i, reply) \<in> set rs"
    and "\<And>i. i < length cs \<Longrightarrow> pc_of (cs ! i) = Beginning \<Longrightarrow> cs ! i = cs0 ! i"
    and "idle cs \<Longrightarrow> s = s1 \<and> w = w1"
    and "\<And>i j. i < length cs \<Longrightarrow> running (pc_of (cs ! i)) \<Longrightarrow> j < length cs \<Longrightarrow> running (pc_of (cs ! j)) \<Longrightarrow> j = i"
    and "\<And>i. i < length cs \<Longrightarrow> running (pc_of (cs ! i)) \<Longrightarrow>
      \<exists>req ctx0 gs0 n. cs0 ! i = (req, Beginning, ctx0, gs0) \<and> fst (cs ! i) = req \<and>
        put_steps_alone g dbi req n (Beginning, ctx0, gs0, s1, w1) =
          Inr (case cs ! i of (_, pc, ctx, gs) \<Rightarrow> (pc, ctx, gs, s, w))"
  shows "serial_inv g dbi cs0 s0 w0 rs s1 w1 (cs, s, w)"
  using assms unfolding serial_inv_def prod.case by blast

lemma serial_inv_start:
  assumes "\<forall>c\<in>set cs. pc_of c = Beginning"
  shows "serial_inv g dbi cs s w [] s w (cs, s, w)"
proof -
  have "pc_of (cs ! i) = Beginning" if "i < length cs" for i using assms that by simp
  then show ?thesis by (intro serial_invI one_by_one.no_call) simp_all
qed

text \<open>The call \<open>i\<close>, alone running after its step.\<close>

lemma serial_inv_running:
  assumes inv: "serial_inv g dbi cs0 s0 w0 rs s1 w1 (cs, s, w)" and i: "i < length cs"
    and others: "\<And>j. j < length cs \<Longrightarrow> running (pc_of (cs ! j)) \<Longrightarrow> j = i" and "\<And>reply. pc_of (cs ! i) \<noteq> Answered reply"
    and "cs0 ! i = (req, Beginning, ctx0, gs0)" and "running pc'"
    and "put_steps_alone g dbi req n (Beginning, ctx0, gs0, s1, w1) = Inr (pc', ctx', gs', s', w')"
  shows "serial_inv g dbi cs0 s0 w0 rs s1 w1 (cs[i := (req, pc', ctx', gs')], s', w')"
proof -
  let ?cs = "cs[i := (req, pc', ctx', gs')]"
  have pc: "pc_of (?cs ! j) = (if j = i then pc' else pc_of (cs ! j))" if "j < length cs" for j
    using that by (simp add: pc_of_def nth_list_update)
  have only: "j = i" if "j < length cs" "running (pc_of (?cs ! j))" for j
    using others that by (simp add: pc split: if_splits)
  show ?thesis
  proof (rule serial_invI)
    show "one_by_one g dbi cs0 s0 w0 rs s1 w1" "length ?cs = length cs0" using serial_invD(1,2) [OF inv] by simp_all
    show "pc_of (?cs ! j) = Answered reply \<longleftrightarrow> (j, reply) \<in> set rs" if "j < length ?cs" for j reply
      using serial_invD(3) [OF inv, of j reply] assms(4) [of reply] \<open>running pc'\<close> that by (cases "j = i") (auto simp: pc)
    show "?cs ! j = cs0 ! j" if "j < length ?cs" "pc_of (?cs ! j) = Beginning" for j
      using serial_invD(4) [OF inv, of j] \<open>running pc'\<close> that by (cases "j = i") (auto simp: pc)
    show "idle ?cs \<Longrightarrow> s' = s1 \<and> w' = w1" using i \<open>running pc'\<close> pc by (auto simp: idle_iff)
    show "k = j" if "j < length ?cs" "running (pc_of (?cs ! j))" "k < length ?cs" "running (pc_of (?cs ! k))" for j k
      using only [of j] only [of k] that by simp
    show "\<exists>req ctx0 gs0 n. cs0 ! j = (req, Beginning, ctx0, gs0) \<and> fst (?cs ! j) = req \<and>
        put_steps_alone g dbi req n (Beginning, ctx0, gs0, s1, w1) = Inr (case ?cs ! j of (_, pc, ctx, gs) \<Rightarrow> (pc, ctx, gs, s', w'))"
      if "j < length ?cs" "running (pc_of (?cs ! j))" for j
      using only [of j] that assms(5,7) by fastforce
  qed
qed

text \<open>The call \<open>i\<close> was running and has given its answer.\<close>

lemma serial_inv_answered:
  assumes inv: "serial_inv g dbi cs0 s0 w0 rs s1 w1 (cs, s, w)" and i: "i < length cs" and run: "running (pc_of (cs ! i))"
    and "cs0 ! i = (req, Beginning, ctx0, gs0)"
    and "put_steps_alone g dbi req n (Beginning, ctx0, gs0, s1, w1) = Inr (Answered reply, ctx', gs', s', w')"
  shows "serial_inv g dbi cs0 s0 w0 (rs @ [(i, reply)]) s' w' (cs[i := (req, Answered reply, ctx', gs')], s', w')"
proof -
  let ?cs = "cs[i := (req, Answered reply, ctx', gs')]"
  have pc: "pc_of (?cs ! j) = (if j = i then Answered reply else pc_of (cs ! j))" if "j < length cs" for j
    using that by (simp add: pc_of_def nth_list_update)
  have notin: "i \<notin> fst ` set rs" using serial_invD(3) [OF inv i] run by force
  have "Put g dbi s1 ctx0 req w1 = Some (Inr (reply, s', w'))"
    using put_steps_alone_rest [of g dbi req n "(Beginning, ctx0, gs0, s1, w1)"] assms(5) by simp
  then have sv: "one_by_one g dbi cs0 s0 w0 (rs @ [(i, reply)]) s' w'"
    using serial_invD(1,2) [OF inv] i notin assms(4) by (intro one_by_one.one_more_call) auto
  have none: "\<not> running (pc_of (?cs ! j))" if "j < length ?cs" for j
    using serial_invD(7) [OF inv i run, of j] that by (cases "j = i") (auto simp: pc)
  show ?thesis
  proof (rule serial_invI [OF sv])
    show "length ?cs = length cs0" using serial_invD(2) [OF inv] by simp
    show "pc_of (?cs ! j) = Answered r \<longleftrightarrow> (j, r) \<in> set (rs @ [(i, reply)])" if "j < length ?cs" for j r
      using serial_invD(3) [OF inv, of j r] notin that by (cases "j = i") (auto simp: pc image_iff)
    show "?cs ! j = cs0 ! j" if "j < length ?cs" "pc_of (?cs ! j) = Beginning" for j
      using serial_invD(4) [OF inv, of j] that by (cases "j = i") (auto simp: pc)
  qed (use none in auto)
qed

lemma serial_inv_step:
  assumes inv: "serial_inv g dbi cs0 s0 w0 rs s1 w1 (cs, s, w)" and i: "i < length cs"
    and c: "cs ! i = (req, pc, ctx, gs)" and new: "\<forall>c\<in>set cs0. pc_of c = Beginning"
    and excl: "pc = Beginning \<longrightarrow> idle cs" and step: "put_step g dbi req (pc, ctx, gs, s, w) = Inr (pc', ctx', gs', s', w')"
  shows "\<exists>rs' s1' w1'. serial_inv g dbi cs0 s0 w0 rs' s1' w1' (cs[i := (req, pc', ctx', gs')], s', w')"
proof -
  have pc: "pc_of (cs ! i) = pc" using c by (simp add: pc_of_def)
  consider (fresh) "pc = Beginning" | (run) "running pc" | (over) reply where "pc = Answered reply" by (cases pc) auto
  then show ?thesis
  proof cases
    case fresh
    have none: "\<not> running (pc_of (cs ! j))" if "j < length cs" for j using excl fresh that by (simp add: idle_iff)
    have c0: "cs0 ! i = (req, Beginning, ctx, gs)" using serial_invD(4) [OF inv i] c pc fresh by simp
    have s: "s = s1" "w = w1" using serial_invD(5,6) [OF inv] excl fresh by simp_all
    have "running pc'" by (rule put_step_Beginning [OF step [unfolded fresh]])
    moreover have "put_steps_alone g dbi req (Suc 0) (Beginning, ctx, gs, s1, w1) = Inr (pc', ctx', gs', s', w')"
      using step fresh s by simp
    moreover have "pc_of (cs ! i) \<noteq> Answered reply" for reply using pc fresh by simp
    ultimately show ?thesis using serial_inv_running [OF inv i _ _ c0] none by blast
  next
    case run
    then obtain ctx0 gs0 n where alone: "cs0 ! i = (req, Beginning, ctx0, gs0)"
        "put_steps_alone g dbi req n (Beginning, ctx0, gs0, s1, w1) = Inr (pc, ctx, gs, s, w)"
        and others: "\<And>j. j < length cs \<Longrightarrow> running (pc_of (cs ! j)) \<Longrightarrow> j = i"
      using serial_invD(7,8) [OF inv i] pc c by auto
    have next_step: "put_steps_alone g dbi req (Suc n) (Beginning, ctx0, gs0, s1, w1) = Inr (pc', ctx', gs', s', w')"
      using put_steps_alone_snoc [OF alone(2)] step by simp
    have "pc' \<noteq> Beginning" using put_step_not_Beginning step by metis
    then consider "running pc'" | reply where "pc' = Answered reply" by (cases pc') auto
    then show ?thesis
    proof cases
      case 1
      have "pc_of (cs ! i) \<noteq> Answered reply" for reply using run pc by auto
      from serial_inv_running [OF inv i others this alone(1) 1 next_step] show ?thesis by blast
    next
      case 2
      from serial_inv_answered [OF inv i _ alone(1) next_step [unfolded 2]] run pc 2 show ?thesis by blast
    qed
  next
    case over
    then have "(pc', ctx', gs', s', w') = (pc, ctx, gs, s, w)" using step by simp
    then show ?thesis using inv c i by (metis (no_types) list_update_id prod.inject)
  qed
qed

lemma run_calls_serial:
  assumes "run_calls g dbi sched x = Inr y" and "exclusive g dbi sched x" and "\<forall>c\<in>set cs0. pc_of c = Beginning"
    and "serial_inv g dbi cs0 s0 w0 rs s1 w1 x"
  shows "\<exists>rs s1 w1. serial_inv g dbi cs0 s0 w0 rs s1 w1 y"
  using assms
proof (induction sched arbitrary: x rs s1 w1)
  case (Cons i sched)
  obtain cs s w where x: "x = (cs, s, w)" by (cases x)
  show ?case
  proof (cases "i < length cs")
    case True
    obtain req pc ctx gs where c: "cs ! i = (req, pc, ctx, gs)" by (cases "cs ! i")
    obtain pc' ctx' gs' s' w' where step: "put_step g dbi req (pc, ctx, gs, s, w) = Inr (pc', ctx', gs', s', w')"
      and rest: "run_calls g dbi sched (cs[i := (req, pc', ctx', gs')], s', w') = Inr y"
      using Cons.prems(1) x True c by (auto elim!: gbind_InrE)
    have "pc = Beginning \<longrightarrow> idle cs" "exclusive g dbi sched (cs[i := (req, pc', ctx', gs')], s', w')"
      using Cons.prems(2) x True c step by auto
    with serial_inv_step [OF _ True c Cons.prems(3) _ step] Cons.prems(3,4) x rest Cons.IH show ?thesis by blast
  next
    case False
    then show ?thesis using Cons x by auto
  qed
qed auto

text \<open>
  Calls of \<^verbatim>\<open>Put\<close> that do not overlap are served one after the other. Under an exclusive schedule,
  when no call is running any more, the state of the coordinator and of the world is that of
  calling \<^verbatim>\<open>Put\<close> for the answered requests in some order, each once, and each call has the answer that
  \<^verbatim>\<open>Put\<close> gives there.
\<close>

lemma exclusive_calls_are_serial:
  assumes "\<forall>c\<in>set cs. pc_of c = Beginning" and "exclusive g dbi sched (cs, s0, w0)"
    and "run_calls g dbi sched (cs, s0, w0) = Inr (cs', s, w)" and "idle cs'"
  shows "\<exists>rs. one_by_one g dbi cs s0 w0 rs s w \<and> distinct (map fst rs) \<and>
    (\<forall>i<length cs. \<forall>reply. pc_of (cs' ! i) = Answered reply \<longleftrightarrow> (i, reply) \<in> set rs)"
proof -
  obtain rs s1 w1 where "serial_inv g dbi cs s0 w0 rs s1 w1 (cs', s, w)"
    using run_calls_serial [OF assms(3,2,1) serial_inv_start [OF assms(1)]] by blast
  note inv = serial_invD [OF this]
  have "s = s1" "w = w1" using inv(5,6) assms(4) by simp_all
  with inv(1-3) one_by_one_distinct [OF inv(1)] show ?thesis by (intro exI [of _ rs]) simp
qed

definition refused_calls :: "put_call list" where
  "refused_calls = [new_call Background \<lparr>eKey = ''k'', eValue = [1]\<rparr>, new_call Background \<lparr>eKey = ''k'', eValue = [2]\<rparr>]"

lemma exclusive_calls_example:
  "\<exists>rs s w. one_by_one (const_grpc (Inr ack) (Inl unavailable) (Inr ack)) mem_dbi refused_calls
      (example_server ''coordinator'' TWO_PHASE [''a'', ''b'']) () rs s w \<and>
    (0, (Some nack, None)) \<in> set rs \<and> (1, (Some nack, None)) \<in> set rs"
proof -
  let ?g = "const_grpc (Inr ack) (Inl unavailable) (Inr ack)" and ?sched = "replicate 13 0 @ replicate 13 1"
  let ?x = "(refused_calls, example_server ''coordinator'' TWO_PHASE [''a'', ''b''], ())"
  have "exclusive ?g mem_dbi ?sched ?x \<and> (case run_calls ?g mem_dbi ?sched ?x of Inl _ \<Rightarrow> False
      | Inr (cs', s, w) \<Rightarrow> idle cs' \<and> map pc_of cs' = [Answered (Some nack, None), Answered (Some nack, None)])"
    by code_simp
  then obtain cs' s w where r: "exclusive ?g mem_dbi ?sched ?x" "run_calls ?g mem_dbi ?sched ?x = Inr (cs', s, w)" "idle cs'"
      "map pc_of cs' = [Answered (Some nack, None), Answered (Some nack, None)]"
    by (auto split: sum.splits)
  have "\<forall>c\<in>set refused_calls. pc_of c = Beginning" by (simp add: refused_calls_def new_call_def)
  from exclusive_calls_are_serial [OF this r(1-3)] obtain rs where
    rs: "one_by_one ?g mem_dbi refused_calls (example_server ''coordinator'' TWO_PHASE [''a'', ''b'']) () rs s w"
      "\<forall>i<length refused_calls. \<forall>reply. pc_of (cs' ! i) = Answered reply \<longleftrightarrow> (i, reply) \<in> set rs" by blast
  have len: "length refused_calls = 2" by (simp add: refused_calls_def)
  have "pc_of (cs' ! 0) = Answered (Some nack, None)" "pc_of (cs' ! 1) = Answered (Some nack, None)"
    using r(4) by (auto simp: map_eq_Cons_conv)
  then show ?thesis using rs len by auto
qed

end
