(* ===== verification/Deadlines.thy ===== *)
theory Deadlines
  imports Startup
begin

text \<open>
  The timeout of the configuration. It is given in milliseconds as a \<^verbatim>\<open>uint64\<close> and becomes a
  \<^verbatim>\<open>time.Duration\<close>, a signed number of nanoseconds, by a conversion and a multiplication that both
  wrap around. A context whose timeout is not positive is expired from the start, and gRPC does
  not make calls with it.
\<close>

section \<open>From milliseconds to nanoseconds\<close>

definition max_timeout :: int where
  "max_timeout = 9223372036854"

lemma sint_64: "sint (x :: 64 word) = (if uint x < 2 ^ 63 then uint x else uint x - 2 ^ 64)"
proof -
  have "uint x < 2 ^ LENGTH(64)" by (rule unsigned_less)
  then have b: "0 \<le> uint x" "uint x < 2 ^ 64" by simp_all
  have s: "sint x = (uint x + 2 ^ 63) mod 2 ^ 64 - 2 ^ 63"
    by (simp add: sint_uint signed_take_bit_eq_take_bit_shift take_bit_eq_mod)
  show ?thesis
  proof (cases "uint x < 2 ^ 63")
    case False
    have "(uint x + 2 ^ 63) mod 2 ^ 64 = (uint x + 2 ^ 63 - 2 ^ 64) mod 2 ^ 64" by (rule minus_mod_self2 [symmetric])
    also have "\<dots> = uint x + 2 ^ 63 - 2 ^ 64" using b False by (intro mod_pos_pos_trivial) auto
    finally have "(uint x + 2 ^ 63) mod 2 ^ 64 = uint x + 2 ^ 63 - 2 ^ 64" .
    with s False show ?thesis by simp
  qed (use s b in simp)
qed

lemma uint_timeout_duration: "uint (timeout_duration c) = uint (Timeout c) * 1000000 mod 2 ^ 64"
  by (simp add: timeout_duration_def uint_word_ariths)

text \<open>
  The duration is exact up to \<open>max_timeout\<close> milliseconds, about 292 years. From there on the product
  is negative until it passes \<open>2 ^ 64\<close>, and then starts again from below a millisecond: a
  timeout of 18446744073710 milliseconds is one of 448384 nanoseconds.
\<close>

lemma timeout_duration_range:
  "(uint (Timeout c) \<le> max_timeout \<longrightarrow> sint (timeout_duration c) = uint (Timeout c) * 1000000) \<and>
   (max_timeout < uint (Timeout c) \<and> uint (Timeout c) \<le> 18446744073709 \<longrightarrow> sint (timeout_duration c) < 0) \<and>
   (uint (Timeout c) = 18446744073710 \<longrightarrow> sint (timeout_duration c) = 448384)"
  by (auto simp: sint_64 uint_timeout_duration max_timeout_def)

lemma timeout_duration_range_example:
  "sint (timeout_duration (config_Get default_flags)) = 1000000000 \<and>
   sint (timeout_duration (config_Get (default_flags\<lparr>f_timeout := 9223372036855\<rparr>))) < 0"
  using timeout_duration_range [of "config_Get default_flags"]
    timeout_duration_range [of "config_Get (default_flags\<lparr>f_timeout := 9223372036855\<rparr>)"]
  by (simp add: config_Get_def default_flags_def Let_def max_timeout_def)

section \<open>A timeout that has always passed\<close>

text \<open>A context one of whose timeouts is not positive, and a transport that makes no call with it.\<close>

definition expired :: "Context \<Rightarrow> bool" where
  "expired ctx \<longleftrightarrow> (\<exists>d\<in>set (ctx_timeouts ctx). sint d \<le> 0)"

definition refuses_expired :: "'w grpc \<Rightarrow> bool" where
  "refuses_expired g \<longleftrightarrow> (\<forall>cc ctx req w. expired ctx \<longrightarrow> (\<exists>e w'. invoke_Propose g cc ctx req w = (Inl e, w')))"

lemma Put_expired:
  assumes "Followers s \<noteq> []" and "mon_ok (monitor s)" and "three_phase s" and "sint (timeout_duration (srv_Config s)) \<le> 0"
    and "refuses_expired g"
  shows "Put g dbi s ctx req w = None"
proof -
  obtain f fs where f: "Followers s = [] @ f # fs" using assms(1) by (cases "Followers s") auto
  have e: "expired (put_context s ctx)" for ctx
    using assms(3,4) by (simp add: expired_def put_context_def WithTimeout_def)
  have "\<not> acked (fst (invoke_Propose g cc ctx q w))" if "expired ctx" for cc ctx q w
    using assms(5) that unfolding refuses_expired_def by (metis acked_def fst_conv sum.case(1))
  then show ?thesis
    by (intro Put_hangs [where dead = "\<lambda>_. True" and bad = expired, OF f assms(2) _ e]) simp_all
qed

text \<open>
  C17. A timeout whose duration is not positive stops a coordinator in three-phase mode for good. That
  is a timeout of zero, and every timeout whose number of nanoseconds, taken modulo \<open>2 ^ 64\<close>, is
  negative as a signed number. It is accepted on the command line, the server is built, and then no
  call of \<^verbatim>\<open>Put\<close> ever returns: every proposal is made with a context that has expired, and over a
  transport that makes no call with an expired context it fails and is retried for ever.
\<close>

theorem expired_timeout_stops_Put:
  assumes "config_Get_args args = Inr conf" and "NewCommitServer mk dial db_new conf opts = Inr s"
    and "cfg_CommitType conf = THREE_PHASE" and "sint (timeout_duration conf) \<le> 0"
    and "refuses_expired g"
  shows "Put g dbi s ctx req w = None"
proof -
  obtain mp cls where
    c: "connect_followers dial (WithTrace conf) 0 (cfg_Followers conf) (gm_empty, []) = Inr (mp, cls)" "Followers s = cls"
      "monitor s = NewMonitor" "srv_Config s = (if Role conf = ''coordinator'' then conf\<lparr>Coordinator := Nodeaddr conf\<rparr> else conf)"
    by (rule NewCommitServer_InrE [OF assms(2)])
  have "cfg_Followers conf \<noteq> []"
    using assms(1) by (auto simp: config_Get_args_def split: sum.splits)
  then have "Followers s \<noteq> []" using connect_followers_eq [OF c(1)] c(2) by auto
  moreover have "timeout_duration (srv_Config s) = timeout_duration conf" by (simp add: c(4) timeout_duration_def)
  ultimately show ?thesis
    using assms(3,4,5) c(3,4) NewMonitor_ok by (intro Put_expired) (auto simp: three_phase_def)
qed

text \<open>Followers that acknowledge everything, behind a transport that makes no call with an expired context.\<close>

definition in_time :: "Context \<Rightarrow> error + Response" where
  "in_time ctx = (if expired ctx then Inl (StatusError (OtherCode 4) ''context deadline exceeded'') else Inr ack)"

definition deadline_grpc :: "unit grpc" where
  "deadline_grpc = silent_grpc\<lparr>invoke_Propose := (\<lambda>cc ctx req w. (in_time ctx, w)),
     invoke_Precommit := (\<lambda>cc ctx req w. (in_time ctx, w)), invoke_Commit := (\<lambda>cc ctx req w. (in_time ctx, w))\<rparr>"

definition timeout_flags :: "uint64 \<Rightarrow> Flags" where
  "timeout_flags n = default_flags\<lparr>f_timeout := n, f_role := ''coordinator'', f_followers := ''a,b''\<rparr>"

definition timeout_server :: "uint64 \<Rightarrow> string + (string, bytes) gomap Server" where
  "timeout_server n =
     (case NewCommitServer (\<lambda>_ _. None) (\<lambda>addr _. Inr addr) (db_New mem_badger) (config_Get (timeout_flags n)) hooks_Get of
        Inl _ \<Rightarrow> Inl ''no server'' | Inr s \<Rightarrow> Inr s)"

text \<open>
  The same coordinator acknowledges with a timeout of one second and never answers with one of
  27670116110565 milliseconds, whose duration is negative for the second time.
\<close>

theorem expired_timeout_stops_Put_witness:
  "(\<exists>s. timeout_server 1000 = Inr s \<and> run_reply (Put deadline_grpc mem_dbi s Background example_entry ()) = Some (Inr (Some ack, None))) \<and>
   (\<exists>s. timeout_server 27670116110565 = Inr s \<and> Put deadline_grpc mem_dbi s Background example_entry () = None)"
proof -
  let ?f = "timeout_flags 27670116110565"
  let ?new = "\<lambda>conf. NewCommitServer (\<lambda>_ _. None) (\<lambda>addr _. Inr addr) (db_New mem_badger) conf hooks_Get"
  have "(case timeout_server 1000 of Inl _ \<Rightarrow> False
      | Inr s \<Rightarrow> run_reply (Put deadline_grpc mem_dbi s Background example_entry ()) = Some (Inr (Some ack, None)))" by code_simp
  then obtain s0 where ack: "timeout_server 1000 = Inr s0"
      "run_reply (Put deadline_grpc mem_dbi s0 Background example_entry ()) = Some (Inr (Some ack, None))"
    by (auto split: sum.splits)
  have args: "config_Get_args (print_flags False False ?f) = Inr (config_Get ?f)"
    using flag_Parse_print_flags [of False False ?f "[]" default_flags] by (simp add: config_Get_args_def)
  have "cfg_CommitType (config_Get ?f) = THREE_PHASE \<and> sint (timeout_duration (config_Get ?f)) \<le> 0 \<and>
      (case ?new (config_Get ?f) of Inl _ \<Rightarrow> False | Inr _ \<Rightarrow> True)" by code_simp
  then obtain s where c: "?new (config_Get ?f) = Inr s" "cfg_CommitType (config_Get ?f) = THREE_PHASE"
      "sint (timeout_duration (config_Get ?f)) \<le> 0"
    by (auto split: sum.splits)
  have "refuses_expired deadline_grpc" by (simp add: refuses_expired_def deadline_grpc_def in_time_def)
  from expired_timeout_stops_Put [OF args c this] c(1) ack show ?thesis by (auto simp: timeout_server_def)
qed

section \<open>A timeout that passes during the proposals\<close>

lemma propose_phase_append:
  "propose_phase g ct req pid xs ctx s gs w = Some (Inr (None, s1, gs1, ctx1, w1)) \<Longrightarrow>
   propose_phase g ct req pid (xs @ ys) ctx s gs w = propose_phase g ct req (pid + length xs) ys ctx1 s1 gs1 w1"
  by (induction xs arbitrary: pid ctx s gs w) (auto split: option.splits sum.splits)

text \<open>
  \<open>late\<close> is the part of the outside world in which the deadline of the call has passed: it stays so,
  and a proposal whose context has a timeout fails. If that happens while the followers \<open>xs\<close> are
  asked, \<^verbatim>\<open>Put\<close> never returns, instead of refusing the client.
\<close>

lemma timeout_during_proposals:
  assumes "three_phase s" and "mon_ok (monitor s)" and "Followers s = xs @ f # ys"
    and "put_start s = Inr (s0, gs0)"
    and "propose_phase g (put_ctype s) req 0 xs ctx s0 gs0 w = Some (Inr (None, s1, gs1, ctx1, w1))" and "late w1"
    and "\<And>cc ctx q w. late w \<Longrightarrow> late (snd (invoke_Propose g cc ctx q w))"
    and "\<And>cc ctx q w. late w \<Longrightarrow> ctx_timeouts ctx \<noteq> [] \<Longrightarrow> \<exists>e. fst (invoke_Propose g cc ctx q w) = Inl e"
  shows "Put g dbi s ctx req w = None"
proof -
  obtain m where start: "s0 = s\<lparr>monitor := m\<rparr>" "status True (monitor s0) gs0 [0..<0] [] ''none''"
    using put_start_status [OF assms(2)] assms(4) by auto
  from propose_phase_status [OF assms(5) start(2)] have st: "same_setup s0 s1"
    "status (True \<and> 2 \<notin> {0..<0 + length xs}) (monitor s1) gs1 [0..<0 + length xs] [] ''none''" by auto
  have "three_phase s1" using st(1) start(1) assms(1) by (simp add: same_setup_def three_phase_def)
  moreover have "\<not> acked (fst (invoke_Propose g (Connection f) ctx q w))" if "late w" "ctx_timeouts ctx \<noteq> []" for ctx q w
    using assms(8) [OF that, of "Connection f" q] by (auto simp: acked_def)
  ultimately have "propose_phase g (put_ctype s) req (0 + length xs) ([] @ f # ys) ctx1 s1 gs1 w1 = None"
    using assms(6,7) st(2)
    by (intro propose_phase_diverges [where dead = late and bad = "\<lambda>ctx. ctx_timeouts ctx \<noteq> []"])
      (auto simp: put_context_def WithTimeout_def)
  then have "propose_phase g (put_ctype s) req 0 (Followers s0) ctx s0 gs0 w = None"
    using propose_phase_append [OF assms(5), of "f # ys"] assms(3) start(1) by simp
  then show ?thesis using assms(4) by (simp add: Put_def)
qed

end
