(* ===== verification/Timing.thy ===== *)
theory Timing
  imports Prelude "HOL-Library.Signed_Division"
begin

text \<open>
  \<^verbatim>\<open>server/timing.go\<close>: the counters that \<^verbatim>\<open>Put\<close> keeps of the time it takes and of the share of the
  monitor. The variables of the package are a record. The clock is an argument: the reading of
  \<^verbatim>\<open>time.Now\<close> in nanoseconds. Each function holds the lock \<^verbatim>\<open>lock\<close> throughout, so it is atomic.
\<close>

section \<open>Times\<close>

text \<open>\<open>None\<close> is the zero \<^verbatim>\<open>time.Time\<close>, which lies further back than a duration can reach.\<close>

type_synonym go_time = "int option"

definition maxDuration :: int where
  "maxDuration = 2 ^ 63 - 1"

definition minDuration :: int where
  "minDuration = - (2 ^ 63)"

text \<open>\<^verbatim>\<open>time.Since(start)\<close>: the difference of two times, cut off at the range of a duration.\<close>

definition Since :: "int \<Rightarrow> go_time \<Rightarrow> int" where
  "Since now start =
     (case start of
        None \<Rightarrow> maxDuration
      | Some t \<Rightarrow> max minDuration (min maxDuration (now - t)))"

text \<open>\<^verbatim>\<open>Duration.Microseconds\<close>, an \<^verbatim>\<open>int64\<close>\<close>

definition Microseconds :: "int \<Rightarrow> go_int" where
  "Microseconds d = word_of_int (d sdiv 1000)"

section \<open>The counters\<close>

record Timing =
  normalStart :: go_time
  normalTotal :: go_int
  monitorStart :: go_time
  monitorTotal :: go_int

definition timing_zero :: Timing where
  "timing_zero = \<lparr>normalStart = None, normalTotal = 0, monitorStart = None, monitorTotal = 0\<rparr>"

definition NormalStart :: "int \<Rightarrow> Timing \<Rightarrow> Timing" where
  "NormalStart now t = t\<lparr>normalStart := Some now\<rparr>"

definition NormalEnd :: "int \<Rightarrow> Timing \<Rightarrow> Timing" where
  "NormalEnd now t = t\<lparr>normalTotal := normalTotal t + Microseconds (Since now (normalStart t))\<rparr>"

definition MonitorStart :: "int \<Rightarrow> Timing \<Rightarrow> Timing" where
  "MonitorStart now t = t\<lparr>monitorStart := Some now\<rparr>"

definition MonitorEnd :: "int \<Rightarrow> Timing \<Rightarrow> Timing" where
  "MonitorEnd now t = t\<lparr>monitorTotal := monitorTotal t + Microseconds (Since now (monitorStart t))\<rparr>"

text \<open>
  The two numbers that \<^verbatim>\<open>PrintOverhead\<close> prints. The third, their quotient as a floating point
  number with two digits, is left out.
\<close>

definition PrintOverhead :: "Timing \<Rightarrow> int \<times> int" where
  "PrintOverhead t = (sint (monitorTotal t), sint (normalTotal t))"

section \<open>One call of \<^verbatim>\<open>Put\<close>\<close>

text \<open>
  The calls that one call of \<^verbatim>\<open>Put\<close> makes, with the readings of the clock: the start, for each
  monitor block its start and its end, and, unless \<^verbatim>\<open>Put\<close> gives up early, the end.
\<close>

fun time_blocks :: "(int \<times> int) list \<Rightarrow> Timing \<Rightarrow> Timing" where
  "time_blocks [] t = t"
| "time_blocks ((a, b) # bs) t = time_blocks bs (MonitorEnd b (MonitorStart a t))"

definition time_Put :: "int \<Rightarrow> (int \<times> int) list \<Rightarrow> int option \<Rightarrow> Timing \<Rightarrow> Timing" where
  "time_Put start blocks fin t =
     (let t' = time_blocks blocks (NormalStart start t)
      in case fin of None \<Rightarrow> t' | Some now \<Rightarrow> NormalEnd now t')"

text \<open>The readings of a clock that does not go back.\<close>

fun clock_ok :: "int \<Rightarrow> (int \<times> int) list \<Rightarrow> int \<Rightarrow> bool" where
  "clock_ok start [] fin \<longleftrightarrow> start \<le> fin"
| "clock_ok start ((a, b) # bs) fin \<longleftrightarrow> start \<le> a \<and> a \<le> b \<and> clock_ok b bs fin"

section \<open>Bounds\<close>

lemma Since_Some: "start \<le> now \<Longrightarrow> now - start < 2 ^ 63 \<Longrightarrow> Since now (Some start) = now - start"
  by (simp add: Since_def maxDuration_def minDuration_def)

lemma sdiv_nonneg: "0 \<le> d \<Longrightarrow> d sdiv 1000 = d div (1000 :: int)"
  by (simp add: signed_divide_int_def sgn_if)

definition blocks_micros :: "(int \<times> int) list \<Rightarrow> int" where
  "blocks_micros bs = sum_list (map (\<lambda>(a, b). (b - a) div 1000) bs)"

lemma clock_ok_le: "clock_ok s bs e \<Longrightarrow> s \<le> e"
  by (induction s bs e rule: clock_ok.induct) auto

lemma div_superadditive: "x div 1000 + y div 1000 \<le> (x + y) div (1000 :: int)"
  by (simp add: div_add1_eq [of x y] pos_imp_zdiv_nonneg_iff)

lemma blocks_micros_bounds:
  "clock_ok s bs e \<Longrightarrow> 0 \<le> blocks_micros bs \<and> blocks_micros bs \<le> (e - s) div 1000"
proof (induction s bs e rule: clock_ok.induct)
  case (2 s a b bs e)
  then have "0 \<le> blocks_micros bs" "blocks_micros bs \<le> (e - b) div 1000" "s \<le> a" "a \<le> b" by auto
  moreover have "(b - a) div 1000 + (e - b) div 1000 \<le> (e - s) div 1000"
    using div_superadditive [of "b - a" "e - b"] zdiv_mono1 [of "e - a" "e - s" 1000] \<open>s \<le> a\<close> by simp
  ultimately show ?case by (auto simp: blocks_micros_def pos_imp_zdiv_nonneg_iff)
qed (simp add: blocks_micros_def pos_imp_zdiv_nonneg_iff)

lemma Microseconds_between:
  assumes "a \<le> b" and "b - a < 2 ^ 63"
  shows "Microseconds (Since b (Some a)) = word_of_int ((b - a) div 1000)"
  using assms by (simp add: Since_Some Microseconds_def sdiv_nonneg)

lemma time_blocks_total:
  assumes "clock_ok s bs e" and "e - s < 2 ^ 63"
  shows "monitorTotal (time_blocks bs t) = monitorTotal t + word_of_int (blocks_micros bs) \<and>
    normalTotal (time_blocks bs t) = normalTotal t \<and> normalStart (time_blocks bs t) = normalStart t"
  using assms
proof (induction s bs e arbitrary: t rule: clock_ok.induct)
  case (2 s a b bs e)
  have le: "b \<le> e" using 2(2) clock_ok_le by auto
  let ?t = "MonitorEnd b (MonitorStart a t)"
  have "monitorTotal ?t = monitorTotal t + word_of_int ((b - a) div 1000)" "normalTotal ?t = normalTotal t"
    "normalStart ?t = normalStart t"
    using 2(2,3) le by (simp_all add: MonitorEnd_def MonitorStart_def Microseconds_between)
  moreover have "clock_ok b bs e" "e - b < 2 ^ 63" using 2(2,3) by auto
  ultimately show ?case using 2(1) [of ?t] by (simp add: blocks_micros_def)
qed (simp add: blocks_micros_def)

lemma time_Put_total:
  assumes "clock_ok s bs e" and "e - s < 2 ^ 63"
  shows "monitorTotal (time_Put s bs (Some e) t) = monitorTotal t + word_of_int (blocks_micros bs) \<and>
    normalTotal (time_Put s bs (Some e) t) = normalTotal t + word_of_int ((e - s) div 1000)"
  using time_blocks_total [OF assms, of "NormalStart s t"] assms clock_ok_le [OF assms(1)]
  by (simp add: time_Put_def Let_def NormalEnd_def NormalStart_def Microseconds_between)

lemma abandoned_put_not_counted:
  assumes "clock_ok s bs e" and "e - s < 2 ^ 63"
  shows "normalTotal (time_Put s bs None t) = normalTotal t \<and>
    monitorTotal (time_Put s bs None t) = monitorTotal t + word_of_int (blocks_micros bs)"
  using time_blocks_total [OF assms, of "NormalStart s t"] by (simp add: time_Put_def Let_def NormalStart_def)

text \<open>
  A sequence of calls, each with the reading of the clock at its start, those of its monitor blocks,
  the one when it returns, and whether it ran to its end (\<^verbatim>\<open>NormalEnd\<close>) or gave up early.
\<close>

type_synonym timed_call = "int \<times> (int \<times> int) list \<times> int \<times> bool"

definition time_Puts :: "timed_call list \<Rightarrow> Timing \<Rightarrow> Timing" where
  "time_Puts calls t = fold (\<lambda>(s, bs, e, finished). time_Put s bs (if finished then Some e else None)) calls t"

text \<open>The time of the calls that ran to their end, of those that gave up, and of the monitor blocks of all.\<close>

definition finished_micros :: "timed_call list \<Rightarrow> int" where
  "finished_micros calls = sum_list (map (\<lambda>(s, bs, e, finished). if finished then (e - s) div 1000 else 0) calls)"

definition abandoned_micros :: "timed_call list \<Rightarrow> int" where
  "abandoned_micros calls = sum_list (map (\<lambda>(s, bs, e, finished). if finished then 0 else (e - s) div 1000) calls)"

definition monitor_micros :: "timed_call list \<Rightarrow> int" where
  "monitor_micros calls = sum_list (map (\<lambda>(s, bs, e, finished). blocks_micros bs) calls)"

lemma time_Puts_total:
  assumes "\<forall>(s, bs, e, finished)\<in>set calls. clock_ok s bs e \<and> e - s < 2 ^ 63"
  shows "monitorTotal (time_Puts calls t) = monitorTotal t + word_of_int (monitor_micros calls) \<and>
    normalTotal (time_Puts calls t) = normalTotal t + word_of_int (finished_micros calls) \<and>
    0 \<le> monitor_micros calls \<and> monitor_micros calls \<le> finished_micros calls + abandoned_micros calls \<and>
    0 \<le> finished_micros calls \<and> 0 \<le> abandoned_micros calls"
  using assms
proof (induction calls arbitrary: t)
  case (Cons c calls)
  obtain s bs e finished where c: "c = (s, bs, e, finished)" by (cases c)
  from Cons.prems have ok: "clock_ok s bs e" "e - s < 2 ^ 63" by (auto simp: c)
  let ?t = "time_Put s bs (if finished then Some e else None) t"
  have "\<forall>(s, bs, e, finished)\<in>set calls. clock_ok s bs e \<and> e - s < 2 ^ 63" using Cons.prems by simp
  note ih = Cons.IH [OF this, of ?t]
  have "monitorTotal ?t = monitorTotal t + word_of_int (blocks_micros bs)"
    "normalTotal ?t = normalTotal t + word_of_int (if finished then (e - s) div 1000 else 0)"
    using time_Put_total [OF ok, of t] abandoned_put_not_counted [OF ok, of t] by (cases finished; simp)+
  then show ?case using ih blocks_micros_bounds [OF ok(1)]
    by (cases finished) (simp_all add: c time_Puts_def monitor_micros_def finished_micros_def abandoned_micros_def)
qed (simp add: time_Puts_def monitor_micros_def finished_micros_def abandoned_micros_def)

lemma sint_word_of_int: "0 \<le> x \<Longrightarrow> x < 2 ^ 63 \<Longrightarrow> sint (word_of_int x :: go_int) = x"
  by (simp add: signed_of_int signed_take_bit_int_eq_self)

text \<open>
  C35. The counters. Take any number of calls of \<^verbatim>\<open>Put\<close> one after the other, those that run to their end
  and those that give up early, on a clock that does not go back, and let the time of all of them
  stay below \<open>2 ^ 63\<close> microseconds (and that of each below \<open>2 ^ 63\<close> nanoseconds), so that nothing
  overflows. Then \<^verbatim>\<open>PrintOverhead\<close> prints as the monitor's share the time of the monitor blocks of all
  calls, and as the total the time of the finished calls only, both in whole microseconds and not
  negative; the share is at most the time of the finished and the abandoned calls together, and
  at most the total when every call finished.
\<close>

theorem overhead_bounded:
  assumes "\<forall>(s, bs, e, finished)\<in>set calls. clock_ok s bs e \<and> e - s < 2 ^ 63"
    and "finished_micros calls + abandoned_micros calls < 2 ^ 63"
  shows "PrintOverhead (time_Puts calls timing_zero) = (monitor_micros calls, finished_micros calls) \<and>
    0 \<le> monitor_micros calls \<and> 0 \<le> finished_micros calls \<and>
    monitor_micros calls \<le> finished_micros calls + abandoned_micros calls \<and>
    ((\<forall>(s, bs, e, finished)\<in>set calls. finished) \<longrightarrow> monitor_micros calls \<le> finished_micros calls)"
proof -
  have "abandoned_micros calls = 0" if "\<forall>(s, bs, e, finished)\<in>set calls. finished"
    using that by (induction calls) (auto simp: abandoned_micros_def)
  then show ?thesis
    using time_Puts_total [OF assms(1), of timing_zero] assms(2)
    by (auto simp: PrintOverhead_def timing_zero_def sint_word_of_int)
qed

text \<open>
  One call that gives up after a monitor block of nine microseconds and one of two microseconds that
  runs to its end: the share is larger than the total.
\<close>

theorem overhead_bounded_witness:
  "PrintOverhead (time_Puts [(0, [(0, 9000)], 9500, False), (10000, [(10000, 12000)], 12000, True)] timing_zero) = (11, 2)"
  using overhead_bounded [of "[(0, [(0, 9000)], 9500, False), (10000, [(10000, 12000)], 12000, True)]"]
  by (simp add: finished_micros_def abandoned_micros_def monitor_micros_def blocks_micros_def)

end
