(* ===== verification/Timed_Put.thy ===== *)
theory Timed_Put
  imports Overlap Timing
begin

text \<open>
  The calls of \<^verbatim>\<open>server/timing.go\<close> that \<^verbatim>\<open>Put\<close> makes. They do not influence the rest of \<^verbatim>\<open>Put\<close>, so they are
  not in its model; here they are read off its steps. For a call alone they have the form that
  the theory \<open>Timing\<close> takes for one call.
\<close>

section \<open>The calls of a step\<close>

datatype timing_call = NormalStart_call | NormalEnd_call | MonitorStart_call | MonitorEnd_call | PrintOverhead_call

definition block :: "timing_call list" where
  "block = [MonitorStart_call, MonitorEnd_call]"

text \<open>
  What a step that leads from one position to another one calls: the block at the start of \<^verbatim>\<open>Put\<close>, a
  block before each proposal and one after a proposal that failed or was acknowledged, a block
  before each commit and one after an acknowledged commit, and the end.
\<close>

fun step_calls :: "put_pc \<Rightarrow> put_pc \<Rightarrow> timing_call list" where
  "step_calls Beginning pc' = NormalStart_call # block"
| "step_calls (Retrying ct pid f fs) pc' = block"
| "step_calls (ProposeReplied ct pid f fs r) pc' =
     (case pc' of
        Proposing _ _ _ \<Rightarrow> block
      | Answered reply \<Rightarrow> if reply = (Some nack, None) then block else []
      | _ \<Rightarrow> [])"
| "step_calls (Committing pid (f # fs)) pc' = block"
| "step_calls (CommitReplied pid fs r) pc' = (case pc' of Committing _ _ \<Rightarrow> block | _ \<Rightarrow> [])"
| "step_calls Finishing pc' = block @ [NormalEnd_call, PrintOverhead_call]"
| "step_calls pc pc' = []"

fun calls_alone :: "'w grpc \<Rightarrow> 'd Database \<Rightarrow> Entry \<Rightarrow> nat \<Rightarrow> ('d, 'w) put_config \<Rightarrow> timing_call list" where
  "calls_alone g dbi req 0 c = []"
| "calls_alone g dbi req (Suc n) c =
     (case put_step g dbi req c of
        Inl p \<Rightarrow> []
      | Inr c' \<Rightarrow> step_calls (fst c) (fst c') @ calls_alone g dbi req n c')"

section \<open>Their form\<close>

definition blocks :: "nat \<Rightarrow> timing_call list" where
  "blocks k = concat (replicate k block)"

lemma blocks_add: "blocks j @ blocks k = blocks (j + k)"
  by (simp add: blocks_def replicate_add)

lemma block_eq: "block = blocks 1"
  by (simp add: blocks_def)

definition call_end :: "put_pc \<Rightarrow> timing_call list" where
  "call_end pc = (if pc = Answered (Some ack, None) then [NormalEnd_call, PrintOverhead_call] else [])"

text \<open>What is left to call at each position before the answer.\<close>

fun started :: "put_pc \<Rightarrow> bool" where
  "started Beginning = False"
| "started (Answered _) = False"
| "started _ = True"

lemma phase_reply_not_ack: "phase_reply r = Inr (Some reply) \<Longrightarrow> reply \<noteq> (Some ack, None)"
  by (auto simp: phase_reply_def not_acknowledged_def nack_def ack_def split: prod.splits option.splits if_splits)

lemma put_finish_ack: "put_finish s w = Inr (reply, s', w') \<Longrightarrow> reply = (Some ack, None)"
  by (auto simp: put_finish_def Let_def elim!: gbind_InrE)

definition only_blocks :: "timing_call list \<Rightarrow> bool" where
  "only_blocks cs \<longleftrightarrow> (\<exists>k. cs = blocks k)"

lemma only_blocks_append: "only_blocks xs \<Longrightarrow> only_blocks ys \<Longrightarrow> only_blocks (xs @ ys)"
  by (auto simp: only_blocks_def blocks_add)

lemma only_blocks_simps [simp]: "only_blocks []" "only_blocks block" "only_blocks (block @ block)"
  using block_eq blocks_add [of 1 1] by (auto simp: only_blocks_def) (metis blocks_def concat.simps(1) replicate_0)

lemma step_calls_started:
  assumes "put_step g dbi req (pc, ctx, gs, s, w) = Inr (pc', x')" and "started pc" and "pc \<noteq> Finishing"
  shows "only_blocks (step_calls pc pc')" and "call_end pc' = []"
proof -
  have "only_blocks (step_calls pc pc') \<and> call_end pc' = []"
  proof (cases pc)
    case (Proposing ct pid fs)
    then show ?thesis using assms by (cases fs) (auto simp: call_end_def)
  next
    case (ProposeReplied ct pid f fs r)
    then show ?thesis using assms
      by (cases r) (auto simp: call_end_def Let_def elim!: gbind_InrE split: if_splits option.splits dest!: propose_reply_not_ack)
  next
    case (Precommitting fs)
    then show ?thesis using assms by (cases fs) (auto simp: call_end_def)
  next
    case Persisting
    then show ?thesis using assms
      by (auto simp: call_end_def persist_step_def ack_def nack_def split: prod.splits if_splits option.splits)
  next
    case (Committing pid fs)
    then show ?thesis using assms by (cases fs) (auto simp: call_end_def elim!: gbind_InrE)
  qed (use assms in \<open>auto simp: call_end_def Let_def elim!: gbind_InrE split: option.splits prod.splits dest!: phase_reply_not_ack\<close>)
  then show "only_blocks (step_calls pc pc')" "call_end pc' = []" by simp_all
qed

lemma step_started: "put_step g dbi req (pc, x) = Inr (pc', x') \<Longrightarrow> pc' \<noteq> Beginning"
  by (cases "(g, dbi, req, (pc, x))" rule: put_step.cases)
    (auto simp: persist_step_def Let_def elim!: gbind_InrE split: if_splits option.splits prod.splits)

lemma answered_stays:
  "put_steps_alone g dbi req n (Answered reply, ctx, gs, s, w) = Inr (Answered reply, ctx, gs, s, w) \<and>
   calls_alone g dbi req n (Answered reply, ctx, gs, s, w) = []"
  by (induction n) simp_all

text \<open>From a position in the middle of \<^verbatim>\<open>Put\<close> to the answer.\<close>

lemma calls_alone_started:
  assumes "put_steps_alone g dbi req n (pc, ctx, gs, s, w) = Inr (Answered reply, x)" and "started pc"
  shows "\<exists>k. calls_alone g dbi req n (pc, ctx, gs, s, w) = blocks k @ call_end (Answered reply)"
  using assms
proof (induction n arbitrary: pc ctx gs s w)
  case (Suc n)
  then obtain pc1 ctx1 gs1 s1 w1 where st: "put_step g dbi req (pc, ctx, gs, s, w) = Inr (pc1, ctx1, gs1, s1, w1)"
    and rest: "put_steps_alone g dbi req n (pc1, ctx1, gs1, s1, w1) = Inr (Answered reply, x)"
    by (auto elim!: gbind_InrE)
  show ?case
  proof (cases "pc = Finishing")
    case True
    then have pc1: "pc1 = Answered (Some ack, None)" using st by (auto dest!: put_finish_ack elim!: gbind_InrE)
    then have "reply = (Some ack, None)" using rest answered_stays [of g dbi req n "(Some ack, None)"] by simp
    then have "calls_alone g dbi req (Suc n) (pc, ctx, gs, s, w) = blocks 1 @ call_end (Answered reply)"
      using st pc1 True answered_stays [of g dbi req n "(Some ack, None)"] block_eq by (simp add: call_end_def)
    then show ?thesis by blast
  next
    case False
    from step_calls_started [OF st Suc.prems(2) False] obtain j where
      j: "step_calls pc pc1 = blocks j" "call_end pc1 = []" by (auto simp: only_blocks_def)
    have "pc1 \<noteq> Beginning" using step_started st by blast
    then consider "started pc1" | reply1 where "pc1 = Answered reply1" by (cases pc1) auto
    then obtain k where "calls_alone g dbi req n (pc1, ctx1, gs1, s1, w1) = blocks k @ call_end (Answered reply)"
    proof cases
      case 1
      from Suc.IH [OF rest this] that show ?thesis by blast
    next
      case 2
      then have "reply1 = reply" "calls_alone g dbi req n (pc1, ctx1, gs1, s1, w1) = []"
        using rest answered_stays [of g dbi req n reply1 ctx1 gs1 s1 w1] by simp_all
      then show ?thesis using that [of 0] 2 j(2) by (simp add: blocks_def)
    qed
    then have "calls_alone g dbi req (Suc n) (pc, ctx, gs, s, w) = blocks (j + k) @ call_end (Answered reply)"
      using st j(1) blocks_add [of j k] by (simp flip: append_assoc)
    then show ?thesis by blast
  qed
qed auto

section \<open>Their effect\<close>

text \<open>The calls with the readings of the clock; \<^verbatim>\<open>PrintOverhead\<close> reads no clock and changes nothing.\<close>

fun run_timing :: "timing_call list \<Rightarrow> int list \<Rightarrow> Timing \<Rightarrow> Timing" where
  "run_timing (NormalStart_call # cs) (now # ts) t = run_timing cs ts (NormalStart now t)"
| "run_timing (NormalEnd_call # cs) (now # ts) t = run_timing cs ts (NormalEnd now t)"
| "run_timing (MonitorStart_call # cs) (now # ts) t = run_timing cs ts (MonitorStart now t)"
| "run_timing (MonitorEnd_call # cs) (now # ts) t = run_timing cs ts (MonitorEnd now t)"
| "run_timing (PrintOverhead_call # cs) ts t = run_timing cs ts t"
| "run_timing cs ts t = t"

lemma run_timing_blocks:
  "run_timing (blocks (length bs) @ cs) (concat (map (\<lambda>(a, b). [a, b]) bs) @ ts) t = run_timing cs ts (time_blocks bs t)"
  by (induction bs arbitrary: t) (auto simp: blocks_def block_def)

text \<open>
  C38. The time counted for a call of \<^verbatim>\<open>Put\<close>. A call alone that is answered, in whatever way, calls the
  functions of \<^verbatim>\<open>timing.go\<close> so that the counters change as one start, a number of monitor blocks and,
  only if the answer is an acknowledgement, one end: for every sequence of readings of the clock, as
  \<open>time_Put\<close> says.
\<close>

theorem Put_timing:
  assumes "answer (put_steps_alone g dbi req n (Beginning, ctx, gs, s, w)) = Some (Inr (reply, s', w'))"
  shows "\<exists>k. \<forall>start bs fin t. length bs = k \<longrightarrow>
    run_timing (calls_alone g dbi req n (Beginning, ctx, gs, s, w)) (start # concat (map (\<lambda>(a, b). [a, b]) bs) @ [fin]) t =
      time_Put start bs (if reply = (Some ack, None) then Some fin else None) t"
proof -
  obtain x where alone: "put_steps_alone g dbi req n (Beginning, ctx, gs, s, w) = Inr (Answered reply, x)"
    using assms by (cases "put_steps_alone g dbi req n (Beginning, ctx, gs, s, w)" rule: answer.cases) auto
  then obtain m where n: "n = Suc m" by (cases n) auto
  obtain pc1 ctx1 gs1 s1 w1 where st: "put_step g dbi req (Beginning, ctx, gs, s, w) = Inr (pc1, ctx1, gs1, s1, w1)"
    and rest: "put_steps_alone g dbi req m (pc1, ctx1, gs1, s1, w1) = Inr (Answered reply, x)"
    using alone n by (auto elim!: gbind_InrE)
  have "started pc1" using st by (auto elim!: gbind_InrE)
  from calls_alone_started [OF rest this] obtain k where
    k: "calls_alone g dbi req m (pc1, ctx1, gs1, s1, w1) = blocks k @ call_end (Answered reply)" by blast
  have calls: "calls_alone g dbi req n (Beginning, ctx, gs, s, w) = NormalStart_call # blocks (Suc k) @ call_end (Answered reply)"
    using n st k by (simp add: blocks_def del: put_step.simps)
  have "run_timing (calls_alone g dbi req n (Beginning, ctx, gs, s, w)) (start # concat (map (\<lambda>(a, b). [a, b]) bs) @ [fin]) t =
      time_Put start bs (if reply = (Some ack, None) then Some fin else None) t" if "length bs = Suc k" for start bs fin t
    unfolding calls using run_timing_blocks [of bs "call_end (Answered reply)" "[fin]" "NormalStart start t"] that
    by (simp add: call_end_def time_Put_def Let_def)
  then show ?thesis by blast
qed

theorem Put_timing_witness:
  "\<exists>k. \<forall>start bs fin t. length bs = k \<longrightarrow>
    run_timing (calls_alone (const_grpc (Inr ack) (Inl unavailable) (Inr ack)) mem_dbi example_entry 13
        (Beginning, Background, nil_state, example_server ''coordinator'' TWO_PHASE [''a'', ''b''], ()))
      (start # concat (map (\<lambda>(a, b). [a, b]) bs) @ [fin]) t = time_Put start bs None t"
proof -
  let ?g = "const_grpc (Inr ack) (Inl unavailable) (Inr ack)"
  let ?c = "(Beginning, Background, nil_state, example_server ''coordinator'' TWO_PHASE [''a'', ''b''], ())"
  have "(case answer (put_steps_alone ?g mem_dbi example_entry 13 ?c) of Some (Inr (reply, _)) \<Rightarrow> reply = (Some nack, None) | _ \<Rightarrow> False)"
    by code_simp
  then obtain s' w' where "answer (put_steps_alone ?g mem_dbi example_entry 13 ?c) = Some (Inr ((Some nack, None), s', w'))"
    by (auto split: option.splits sum.splits prod.splits)
  from Put_timing [OF this] show ?thesis by (simp add: ack_def nack_def)
qed

end
