(* ===== verification/Diagnostics.thy ===== *)
theory Diagnostics
  imports Monitor
begin

text \<open>
  What the server and the monitor offer for looking at a run: the assertions that print their
  argument and the search for the call site of a captured event
  (\<^verbatim>\<open>server/TwoPhaseCommitFull.go\<close>), and the JSON log of \<^verbatim>\<open>server/server.go\<close>. Printed text is left
  out. The Go stack and the file operations are arguments; \<^verbatim>\<open>json.Marshal\<close> is written out for
  strings of valid UTF-8 as bytes.
\<close>

section \<open>Printing assertions\<close>

definition tla_d :: "TLA \<Rightarrow> bool go" where
  "tla_d a = as_Bool a"

definition dAnd :: "bool \<Rightarrow> bool \<Rightarrow> bool go" where
  "dAnd a b = tla_d (TBool (a \<and> b))"

section \<open>Call sites\<close>

text \<open>
  A stack is the list of its frames, the running function first. \<^verbatim>\<open>runtime.Caller\<close> gives the empty
  file name, line 0 and false past the end of the stack.
\<close>

type_synonym frame = "string \<times> int"

definition runtime_Caller :: "frame list \<Rightarrow> nat \<Rightarrow> string \<times> int \<times> bool" where
  "runtime_Caller stack skip =
     (if skip < length stack then (fst (stack ! skip), snd (stack ! skip), True) else ([], 0, False))"

fun strings_Contains :: "string \<Rightarrow> string \<Rightarrow> bool" where
  "strings_Contains [] sub = (sub = [])"
| "strings_Contains (c # cs) sub = (take (length sub) (c # cs) = sub \<or> strings_Contains cs sub)"

definition thisFile :: "frame list \<Rightarrow> string go" where
  "thisFile stack =
     (case runtime_Caller stack 1 of
        (file, _, ok) \<Rightarrow> if ok then Inr file else Inl (Panicked ''could not get this file''))"

text \<open>The loop with \<open>n\<close> rounds left; \<open>here\<close> is the frame of the call of \<^verbatim>\<open>thisFile\<close>.\<close>

fun file_line_loop :: "frame \<Rightarrow> frame list \<Rightarrow> nat \<Rightarrow> nat \<Rightarrow> (string \<times> int) go" where
  "file_line_loop here stack i 0 = Inl (Panicked ''could not get file and line'')"
| "file_line_loop here stack i (Suc n) =
     (case runtime_Caller stack i of
        (f, l, _) \<Rightarrow>
          gbind (thisFile (here # stack)) (\<lambda>t.
            if \<not> strings_Contains f t then Inr (f, l) else file_line_loop here stack (Suc i) n))"

definition getFileLine :: "frame \<Rightarrow> frame list \<Rightarrow> (string \<times> int) go" where
  "getFileLine here stack = file_line_loop here stack 1 9"

section \<open>JSON\<close>

datatype json =
    JNull
  | JBool bool
  | JInt int
  | JString string
  | JArray "json list"
  | JObject "(string, json) gomap"
  | JUnsupported

definition hex_char :: "nat \<Rightarrow> char" where
  "hex_char n = char_of (if n < 10 then 48 + n else 87 + n)"

definition json_escape :: "char \<Rightarrow> string" where
  "json_escape c =
     (let n = (of_char c :: nat)
      in if n = 34 \<or> n = 92 then [CHR 0x5C, c]
         else if n = 10 then [CHR 0x5C, CHR ''n'']
         else if n = 13 then [CHR 0x5C, CHR ''r'']
         else if n = 9 then [CHR 0x5C, CHR ''t'']
         else if n < 32 \<or> n = 60 \<or> n = 62 \<or> n = 38 then
           CHR 0x5C # ''u00'' @ [hex_char (n div 16), hex_char (n mod 16)]
         else [c])"

definition json_quote :: "string \<Rightarrow> string" where
  "json_quote s = [CHR 0x22] @ concat (map json_escape s) @ [CHR 0x22]"

text \<open>The text of a value, \<open>None\<close> if it has a part that cannot be marshalled. Keys are sorted.\<close>

primrec json_Marshal :: "json \<Rightarrow> string option" where
  "json_Marshal JNull = Some ''null''"
| "json_Marshal (JBool b) = Some (if b then ''true'' else ''false'')"
| "json_Marshal (JInt i) = Some (itoa i)"
| "json_Marshal (JString s) = Some (json_quote s)"
| "json_Marshal (JArray xs) =
     map_option (\<lambda>ts. ''['' @ join '','' ts @ '']'') (those (map json_Marshal xs))"
| "json_Marshal (JObject m) =
     map_option (\<lambda>ts. ''{'' @ join '','' ts @ ''}'')
       (those (map (\<lambda>(k, t). map_option (\<lambda>v. json_quote k @ '':'' @ v) t)
          (sort_key fst (map (map_prod id json_Marshal) m))))"
| "json_Marshal JUnsupported = None"

section \<open>The log\<close>

text \<open>The package variables: the contents of the log file once it is open, and the messages so far.\<close>

record json_log =
  jl_f :: "string option"
  jl_msgs :: "(string, json) gomap list"

text \<open>
  \<open>open_file\<close> is the outcome of opening the file for appending, its contents or the text of the
  error; \<open>write_error\<close> gives the error of a write, if any.
\<close>

definition writeToJson :: "string + string \<Rightarrow> (string \<Rightarrow> string option) \<Rightarrow> json \<Rightarrow> json_log \<Rightarrow> json_log go" where
  "writeToJson open_file write_error data st =
     (case json_Marshal data of
        None \<Rightarrow> Inl (Panicked ''json: unsupported type'')
      | Some txt \<Rightarrow>
          (case (case jl_f st of Some f \<Rightarrow> Inr f | None \<Rightarrow> open_file) of
             Inl err \<Rightarrow> Inl (Panicked err)
           | Inr f \<Rightarrow>
               (let line = txt @ [CHR 0x0A]
                in case write_error line of
                     Some err \<Rightarrow> Inl (Panicked err)
                   | None \<Rightarrow> Inr (st\<lparr>jl_f := Some (f @ line)\<rparr>))))"

text \<open>A nil map is \<open>None\<close>; a slice without elements is nil here.\<close>

definition serverToJson ::
    "string + string \<Rightarrow> (string \<Rightarrow> string option) \<Rightarrow> string \<Rightarrow> (string, json) gomap option \<Rightarrow> (string, json) gomap \<Rightarrow>
       json_log \<Rightarrow> json_log go" where
  "serverToJson open_file write_error action msg aux st =
     (let ms = (case msg of None \<Rightarrow> jl_msgs st | Some m \<Rightarrow> jl_msgs st @ [m]);
          m = gm_update ''_message'' (if ms = [] then JNull else JArray (map JObject ms))
                (gm_update ''_name'' (JString action) gm_empty);
          m' = gm_copy aux m
      in writeToJson open_file write_error (JObject m') (st\<lparr>jl_msgs := ms\<rparr>))"

section \<open>Properties\<close>

text \<open>
  An event captured from another file than the monitor's gets the file and the line of the call of
  \<^verbatim>\<open>CaptureState\<close>.
\<close>

lemma getFileLine_call_site:
  assumes "\<not> strings_Contains G F"
  shows "getFileLine (F, c) ((F, a) # (F, b) # (G, l) # frames) = Inr (G, l)"
proof -
  have "strings_Contains F F" by (cases F) auto
  then show ?thesis using assms by (simp add: getFileLine_def runtime_Caller_def thisFile_def eval_nat_numeral)
qed

lemma hex_char_no_newline: "n < 16 \<Longrightarrow> hex_char n \<noteq> CHR 0x0A"
proof
  assume "n < 16" "hex_char n = CHR 0x0A"
  then have "(of_char (hex_char n) :: nat) = 10" by simp
  then show False using \<open>n < 16\<close> by (simp add: hex_char_def of_char_of split: if_splits)
qed

lemma of_char_less: "(of_char c :: nat) < 256"
  by (simp add: of_char_def) 

lemma json_escape_no_newline: "CHR 0x0A \<notin> set (json_escape c)"
proof -
  have "(of_char c :: nat) div 16 < 16" using of_char_less [of c] by (simp add: less_mult_imp_div_less)
  then show ?thesis using hex_char_no_newline [of "of_char c div 16"] hex_char_no_newline [of "of_char c mod 16"]
    by (auto simp: json_escape_def Let_def)
qed

lemma json_quote_no_newline: "CHR 0x0A \<notin> set (json_quote s)"
  using json_escape_no_newline by (auto simp: json_quote_def)

lemma join_no_newline: "\<forall>t\<in>set ts. CHR 0x0A \<notin> set t \<Longrightarrow> CHR 0x0A \<notin> set (join '','' ts)"
  by (induction "'',''" ts rule: join.induct) auto

lemma itoa_no_newline: "CHR 0x0A \<notin> set (itoa i)"
  using nat_digits_are_digits [of "nat i"] nat_digits_are_digits [of "nat (- i)"]
  by (auto simp: itoa_def is_digit_def)

lemma those_set: "those ts = Some us \<Longrightarrow> u \<in> set us \<Longrightarrow> Some u \<in> set ts"
  by (induction ts arbitrary: us) (auto split: option.splits)

lemma json_Marshal_no_newline: "json_Marshal j = Some t \<Longrightarrow> CHR 0x0A \<notin> set t"
proof (induction j arbitrary: t)
  case (JArray xs)
  from JArray.prems obtain ts where ts: "those (map json_Marshal xs) = Some ts" "t = ''['' @ join '','' ts @ '']''" by auto
  have "CHR 0x0A \<notin> set u" if "u \<in> set ts" for u
    using those_set [OF ts(1) that] JArray.IH by auto
  then show ?case using join_no_newline [of ts] ts(2) by auto
next
  case (JObject m)
  from JObject.prems obtain ts where
    ts: "those (map (\<lambda>(k, t). map_option (\<lambda>v. json_quote k @ '':'' @ v) t)
        (sort_key fst (map (map_prod id json_Marshal) m))) = Some ts" "t = ''{'' @ join '','' ts @ ''}''" by auto
  have "CHR 0x0A \<notin> set u" if "u \<in> set ts" for u
  proof -
    from those_set [OF ts(1) that] obtain k j v where "(k, j) \<in> set m" "json_Marshal j = Some v" "u = json_quote k @ '':'' @ v"
      by (auto simp: eq_commute [of "Some u"])
    then show ?thesis using JObject.IH [of "(k, j)" j v] json_quote_no_newline by auto
  qed
  then show ?case using join_no_newline [of ts] ts(2) by auto
qed (auto simp: itoa_no_newline json_quote_no_newline)

text \<open>
  The log has one line per call: a call that does not panic appends one line to what the file held,
  and the messages of all calls so far are kept for the next one.
\<close>

lemma serverToJson_line:
  assumes "serverToJson open_file write_error action msg aux st = Inr st'"
    and "jl_f st = Some old \<or> jl_f st = None \<and> open_file = Inr old"
  shows "\<exists>line. jl_f st' = Some (old @ line @ [CHR 0x0A]) \<and> CHR 0x0A \<notin> set line \<and>
    jl_msgs st' = jl_msgs st @ (case msg of None \<Rightarrow> [] | Some m \<Rightarrow> [m])"
  using assms
  by (auto simp: serverToJson_def writeToJson_def Let_def simp del: json_Marshal.simps
      dest: json_Marshal_no_newline split: option.splits sum.splits)

end
