(* ===== verification/Trace_Print.thy ===== *)
theory Trace_Print
  imports Diagnostics
begin

text \<open>
  The printed form of events and traces (\<^verbatim>\<open>printParams\<close>, \<^verbatim>\<open>Event.String\<close> and \<^verbatim>\<open>ShowTrace\<close> of
  \<^verbatim>\<open>server/TwoPhaseCommitFull.go\<close>), with the part of the package \<^verbatim>\<open>fmt\<close> that they use.
\<close>

section \<open>The package fmt\<close>

text \<open>
  An operand with a method \<^verbatim>\<open>String\<close> is printed by it, and a panic of the method becomes part of the
  text. The methods of the program panic by an explicit \<^verbatim>\<open>panic\<close> (\<^verbatim>\<open>EventType\<close>) or because of
  a nil value (\<open>TLA_String_panic\<close>).
\<close>

definition panic_text :: "go_panic \<Rightarrow> string" where
  "panic_text p =
     (case p of Panicked msg \<Rightarrow> msg
      | _ \<Rightarrow> ''runtime error: invalid memory address or nil pointer dereference'')"

definition fmt_Stringer :: "char \<Rightarrow> string go \<Rightarrow> string" where
  "fmt_Stringer verb r =
     (case r of Inr s \<Rightarrow> s
      | Inl p \<Rightarrow> ''%!'' @ [verb] @ ''(PANIC=String method: '' @ panic_text p @ '')'')"

text \<open>The verb \<^verbatim>\<open>%+v\<close> on a value of interface type.\<close>

definition fmt_TLA :: "TLA \<Rightarrow> string" where
  "fmt_TLA v = (if v = NilTLA then ''<nil>'' else fmt_Stringer CHR ''v'' (TLA_String v))"

text \<open>
  Below an unexported field methods are not called: the value is printed as the structure it is, and
  the entries of a map by increasing key.
\<close>

primrec fmt_raw :: "TLA \<Rightarrow> string" where
  "fmt_raw NilTLA = ''<nil>''"
| "fmt_raw (TSeq elements) = ''{elements:['' @ join '' '' (map fmt_raw elements) @ '']}''"
| "fmt_raw (TRecord elements) =
     ''{elements:map['' @
       join '' '' (map (\<lambda>(k, t). k @ '':'' @ t) (sort_key fst (map (map_prod id fmt_raw) elements))) @ '']}''"
| "fmt_raw (TSet elements) =
     ''{elements:map['' @
       join '' '' (map (\<lambda>(k, t). k @ '':'' @ t) (sort_key fst (map (map_prod id fmt_raw) elements))) @ '']}''"
| "fmt_raw (TInt v) = ''{value:'' @ itoa (sint v) @ ''}''"
| "fmt_raw (TBool b) = ''{value:'' @ (if b then ''true'' else ''false'') @ ''}''"
| "fmt_raw (TString s) = ''{value:'' @ s @ ''}''"

definition state_fields :: "State \<Rightarrow> (string \<times> TLA) list" where
  "state_fields c =
     [(''who'', who c), (''actions'', actions c), (''tmCommitted'', tmCommitted c), (''outbox'', outbox c),
      (''inflight'', inflight c), (''tmPrepared'', tmPrepared c), (''tmDecision'', tmDecision c),
      (''tmAborted'', tmAborted c), (''rmState'', rmState c), (''inbox'', inbox c)]"

definition fmt_State :: "State \<Rightarrow> string" where
  "fmt_State c = ''{'' @ join '' '' (map (\<lambda>(k, v). k @ '':'' @ fmt_raw v) (state_fields c)) @ ''}''"

definition path_Base :: "string \<Rightarrow> string" where
  "path_Base p =
     (if p = [] then ''.''
      else let base = rev (takeWhile (\<lambda>c. c \<noteq> CHR ''/'') (dropWhile (\<lambda>c. c = CHR ''/'') (rev p)))
           in if base = [] then ''/'' else base)"

section \<open>Events and traces\<close>

definition printParams :: "TLA list \<Rightarrow> string" where
  "printParams ps = join '', '' (map fmt_TLA ps)"

definition Event_String :: "Event \<Rightarrow> string" where
  "Event_String e =
     fmt_Stringer CHR ''s'' (EventType_String (etyp e)) @ ''('' @ printParams (params e) @ '');'' @
     path_Base (efile e) @ '':'' @ itoa (eline e) @ '';'' @ fmt_State (estate e)"

text \<open>The standard output of the call.\<close>

definition ShowTrace :: "Monitor \<Rightarrow> string" where
  "ShowTrace m =
     concat (map (\<lambda>(i, v). itoa (int i) @ '';'' @ Event_String v @ [CHR 0x0A]) (List.enumerate 0 (events m)))"

section \<open>Laws\<close>

text \<open>The only panic of printing a value is that of a nil value in it.\<close>

lemma TLA_String_panic: "TLA_String v = Inl p \<Longrightarrow> p = NilDereference"
proof (induction v arbitrary: p)
  case (TSeq xs)
  then have "Inl p \<in> set (map TLA_String xs)" by (auto simp: gbind_eq_Inl dest!: gsequence_Inl)
  then obtain x where "x \<in> set xs" "TLA_String x = Inl p" by (auto simp: eq_commute [of "Inl p"])
  then show ?case by (rule TSeq.IH)
next
  case (TRecord m)
  from TRecord.prems have "\<exists>k v. (k, v) \<in> set m \<and> TLA_String v = Inl p"
    by (fastforce simp: gbind_eq_Inl eq_commute [of "Inl p"] dest!: gsequence_Inl)
  then show ?case using TRecord.IH by fastforce
next
  case (TSet m)
  from TSet.prems have "\<exists>k v. (k, v) \<in> set m \<and> TLA_String v = Inl p"
    by (fastforce simp: gbind_eq_Inl eq_commute [of "Inl p"] dest!: gsequence_Inl)
  then show ?case using TSet.IH by fastforce
qed simp_all

section \<open>One line for each event\<close>

text \<open>Values without a line break in a string or a key.\<close>

definition one_line :: "string \<Rightarrow> bool" where
  "one_line s \<longleftrightarrow> CHR 0x0A \<notin> set s"

primrec plain :: "TLA \<Rightarrow> bool" where
  "plain NilTLA = True"
| "plain (TSeq xs) = list_all id (map plain xs)"
| "plain (TRecord m) = list_all (\<lambda>(k, b). one_line k \<and> b) (map (map_prod id plain) m)"
| "plain (TSet m) = list_all (\<lambda>(k, b). one_line k \<and> b) (map (map_prod id plain) m)"
| "plain (TInt i) = True"
| "plain (TBool b) = True"
| "plain (TString s) = one_line s"

definition plain_event :: "Event \<Rightarrow> bool" where
  "plain_event e \<longleftrightarrow>
     one_line (efile e) \<and> list_all plain (params e) \<and> list_all plain (map snd (state_fields (estate e)))"

lemma plain_sets [simp]:
  "plain (TSeq xs) \<longleftrightarrow> (\<forall>x\<in>set xs. plain x)"
  "plain (TRecord m) \<longleftrightarrow> (\<forall>(k, v)\<in>set m. one_line k \<and> plain v)"
  "plain (TSet m) \<longleftrightarrow> (\<forall>(k, v)\<in>set m. one_line k \<and> plain v)"
  by (auto simp: list_all_iff)

declare plain.simps(2,3,4) [simp del]

lemma one_line_append [simp]: "one_line (s @ t) \<longleftrightarrow> one_line s \<and> one_line t"
  by (auto simp: one_line_def)

lemma one_line_Cons [simp]: "one_line (c # t) \<longleftrightarrow> c \<noteq> CHR 0x0A \<and> one_line t"
  by (auto simp: one_line_def)

lemma one_line_Nil [simp]: "one_line []"
  by (simp add: one_line_def)

lemma one_line_itoa [simp]: "one_line (itoa i)"
  by (simp add: one_line_def itoa_no_newline)

lemma one_line_join: "one_line sep \<Longrightarrow> (\<And>t. t \<in> set ts \<Longrightarrow> one_line t) \<Longrightarrow> one_line (join sep ts)"
  by (induction sep ts rule: join.induct) auto

lemma one_line_TLA_String: "plain v \<Longrightarrow> TLA_String v = Inr s \<Longrightarrow> one_line s"
proof (induction v arbitrary: s)
  case (TSeq xs)
  then obtain ss where ss: "gsequence (map TLA_String xs) = Inr ss" "s = ''<<'' @ join '', '' ss @ ''>>''"
    by (auto simp: gbind_eq_Inr)
  have "one_line t" if "t \<in> set ss" for t
  proof -
    from gsequence_set [OF ss(1) that] obtain x where "x \<in> set xs" "TLA_String x = Inr t"
      by (auto simp: eq_commute [of "Inr t"])
    then show ?thesis using TSeq.IH TSeq.prems(1) by auto
  qed
  then show ?case using ss(2) by (simp add: one_line_join)
next
  case (TRecord m)
  then obtain ss where ss: "gsequence (map (\<lambda>(k, m). gbind m (\<lambda>v. Inr (k @ '' |-> '' @ v)))
      (sort_key fst (map (map_prod id TLA_String) m))) = Inr ss" "s = ''['' @ join '', '' ss @ '']''"
    by (auto simp: gbind_eq_Inr)
  have "one_line t" if "t \<in> set ss" for t
  proof -
    from gsequence_set [OF ss(1) that] obtain k x u where "(k, x) \<in> set m" "TLA_String x = Inr u" "t = k @ '' |-> '' @ u"
      by (auto simp: eq_commute [of "Inr t"] gbind_eq_Inr)
    then show ?thesis using TRecord.IH [of "(k, x)" x u] TRecord.prems(1) by auto
  qed
  then show ?case using ss(2) by (simp add: one_line_join)
next
  case (TSet m)
  then obtain ss where ss: "gsequence (map snd (sort_key fst (map (map_prod id TLA_String) m))) = Inr ss"
      "s = ''{'' @ join '', '' ss @ ''}''"
    by (auto simp: gbind_eq_Inr)
  have "one_line t" if "t \<in> set ss" for t
  proof -
    from gsequence_set [OF ss(1) that] obtain k x where "(k, x) \<in> set m" "TLA_String x = Inr t"
      by (auto simp: eq_commute [of "Inr t"])
    then show ?thesis using TSet.IH [of "(k, x)" x t] TSet.prems(1) by auto
  qed
  then show ?case using ss(2) by (simp add: one_line_join)
qed auto

lemma one_line_fmt_raw: "plain v \<Longrightarrow> one_line (fmt_raw v)"
proof (induction v)
  case (TRecord m)
  then show ?case by (fastforce intro!: one_line_join)
next
  case (TSet m)
  then show ?case by (fastforce intro!: one_line_join)
qed (auto intro!: one_line_join)

lemma one_line_fmt_TLA: "plain v \<Longrightarrow> one_line (fmt_TLA v)"
  using one_line_TLA_String [of v] TLA_String_panic [of v]
  by (auto simp: fmt_TLA_def fmt_Stringer_def panic_text_def split: sum.splits)

lemma one_line_EventType: "one_line (fmt_Stringer CHR ''s'' (EventType_String t))"
  by (cases t) (simp_all add: fmt_Stringer_def panic_text_def)

lemma one_line_path_Base: "one_line p \<Longrightarrow> one_line (path_Base p)"
  by (auto simp: path_Base_def Let_def one_line_def dest!: set_takeWhileD set_dropWhileD)

lemma one_line_fmt_State: "list_all plain (map snd (state_fields c)) \<Longrightarrow> one_line (fmt_State c)"
  by (auto simp: fmt_State_def state_fields_def one_line_fmt_raw intro!: one_line_join)

lemma one_line_Event_String: "plain_event e \<Longrightarrow> one_line (Event_String e)"
  by (auto simp: plain_event_def Event_String_def printParams_def one_line_EventType one_line_fmt_State
      one_line_path_Base one_line_fmt_TLA list_all_iff [of plain "params e"] intro!: one_line_join)

lemma split_on_lines:
  "(\<And>l. l \<in> set ls \<Longrightarrow> one_line l) \<Longrightarrow>
     split_on (CHR 0x0A) (concat (map (\<lambda>l. l @ [CHR 0x0A]) ls)) = ls @ [[]]"
  by (induction ls) (simp_all add: one_line_def split_on_append_sep)

text \<open>
  The trace is printed with one line for each event, which begins with its position. Read line by
  line, the output gives back the printed events in their order.
\<close>

lemma ShowTrace_lines:
  assumes "\<And>e. e \<in> set (events m) \<Longrightarrow> plain_event e"
  shows "split_on (CHR 0x0A) (ShowTrace m) =
    map (\<lambda>(i, e). itoa (int i) @ '';'' @ Event_String e) (List.enumerate 0 (events m)) @ [[]]"
proof -
  let ?ls = "map (\<lambda>(i, e). itoa (int i) @ '';'' @ Event_String e) (List.enumerate 0 (events m))"
  have "ShowTrace m = concat (map (\<lambda>l. l @ [CHR 0x0A]) ?ls)"
    by (simp add: ShowTrace_def comp_def split_def)
  moreover have "one_line l" if "l \<in> set ?ls" for l
    using that assms one_line_Event_String by (fastforce simp: in_set_enumerate_eq)
  ultimately show ?thesis using split_on_lines by metis
qed

text \<open>
  The parameters of an event are printed by their methods, its state is not: the string \<open>r1\<close> as a
  parameter prints as it is, and in the state as a structure with a field.
\<close>

lemma Event_String_example:
  "Event_String \<lparr>etyp = CSendPrepare, params = [TString ''r1'', TSet [(''1'', TInt 1)]],
     estate = \<lparr>who = TString ''r1'', actions = TSeq [TBool True], tmCommitted = TSet [], outbox = NilTLA,
       inflight = NilTLA, tmPrepared = NilTLA, tmDecision = TString ''none'', tmAborted = NilTLA,
       rmState = TRecord [(''r1'', TString ''working'')], inbox = NilTLA\<rparr>,
     efile = ''/src/server/server.go'', eline = 262\<rparr> =
   ''CSendPrepare(r1, {1});server.go:262;{who:{value:r1} actions:{elements:[{value:true}]} tmCommitted:{elements:map[]} outbox:<nil> inflight:<nil> tmPrepared:<nil> tmDecision:{value:none} tmAborted:<nil> rmState:{elements:map[r1:{value:working}]} inbox:<nil>}''"
  by code_simp

end
