(* ===== verification/Spec2Isabelle.thy ===== *)
theory Spec2Isabelle
  imports Splice Stale_Heights Divergence Monitor_Laws Monitor_Refinement TLA_Operators Slices Capture Messages Exclusive Recovery Deadlines Timed_Put Trace_Print
begin

text \<open>
  A verification of \<^verbatim>\<open>committer\<close>, a key/value store in Go that replicates each write with two-phase or
  three-phase commit, and of the run-time monitor that is compiled into its coordinator.

  \<^bold>\<open>The program.\<close> A coordinator receives \<^verbatim>\<open>Put(key, value)\<close> over gRPC. It proposes the pair to its
  followers one after the other at its current height, sends a precommit to each, writes the pair
  to its own database and sends a commit to each (\<^verbatim>\<open>server/server.go\<close>). A follower caches a
  proposal under its index and, on a commit of that index, moves it from the cache to its database
  and raises its height (\<^verbatim>\<open>server/committer.go\<close>, \<^verbatim>\<open>cache/\<close>, \<^verbatim>\<open>db/\<close>). While \<^verbatim>\<open>Put\<close> runs, the
  coordinator logs states of a TLA+ model of two-phase commit (\<^verbatim>\<open>server/refine.go\<close>); at the end
  the generated monitor checks the log against the specification and panics if it is violated
  (\<^verbatim>\<open>server/TwoPhaseCommitFull.go\<close>).

  \<^bold>\<open>Theories of the model\<close>, in the order of their imports:
  \<^item> \<open>Prelude\<close>: panics as values and their monad \<open>gbind\<close>, Go errors, decimal formatting,
    \<^verbatim>\<open>strings.Join\<close> and \<^verbatim>\<open>strings.Split\<close>.
  \<^item> \<open>Go_Map\<close>: Go maps as sorted association lists; the locale \<open>finite_map\<close>.
  \<^item> \<open>TLA_Values\<close>: lines 16 to 418 of \<^verbatim>\<open>TwoPhaseCommitFull.go\<close>, the values of the monitor and its
    operator library.
  \<^item> \<open>Monitor\<close>: the rest of that file, the monitored state, events, one check per action,
    \<^verbatim>\<open>CheckTrace\<close>, \<^verbatim>\<open>CaptureState\<close>.
  \<^item> \<open>Refine\<close>: \<^verbatim>\<open>server/refine.go\<close>.
  \<^item> \<open>Proto\<close>, \<open>Messages\<close>: the messages and client stubs of \<^verbatim>\<open>proto/\<close>, the client of \<^verbatim>\<open>peer/peer.go\<close>; the
    enumerations, accessors and \<^verbatim>\<open>Reset\<close> of the messages.
  \<^item> \<open>Cache\<close>, \<open>Database\<close>, \<open>Config\<close>: \<^verbatim>\<open>cache/cache.go\<close>; \<^verbatim>\<open>db/\<close> with the locale \<open>database\<close>;
    \<^verbatim>\<open>config/config.go\<close> and \<^verbatim>\<open>helpers/helpers.go\<close>.
  \<^item> \<open>Server\<close>: \<^verbatim>\<open>server/committer.go\<close>, the handlers of \<^verbatim>\<open>server/server.go\<close> other than \<^verbatim>\<open>Put\<close>,
    \<^verbatim>\<open>hooks/\<close> and \<^verbatim>\<open>NewCommitServer\<close>. A handler \<open>f s ctx req\<close> takes the record \<open>Server\<close> and returns
    the reply (message pointer, error) with the new record.
  \<^item> \<open>Coordinator\<close>: \<^verbatim>\<open>Put\<close>, cut into its phases and monitor blocks, which are named after their
    lines.
  \<^item> \<open>Dispatch\<close>: the generated server handlers of \<^verbatim>\<open>proto/schema_grpc.pb.go\<close> and
    \<^verbatim>\<open>server/interceptors.go\<close>, with \<^verbatim>\<open>net.SplitHostPort\<close>.
  \<^item> \<open>Strconv\<close>, \<open>Command_Line\<close>: the parts of \<^verbatim>\<open>strconv\<close> that the program uses, \<^verbatim>\<open>flag.Parse\<close> over the flags
    of \<^verbatim>\<open>config.Get\<close>, and \<^verbatim>\<open>Get\<close> on the arguments of the process.
  \<^item> \<open>Client\<close>: \<^verbatim>\<open>trace/trace.go\<close> and \<^verbatim>\<open>examples/client/client.go\<close>; the locale \<open>put_service\<close> is what the
    client relies on, and a coordinator on a reliable transport provides it.
  \<^item> \<open>Startup\<close>: \<^verbatim>\<open>Run\<close>, \<^verbatim>\<open>Stop\<close>, the service description, and \<^verbatim>\<open>main.go\<close>.
  \<^item> \<open>Overlap\<close>: \<^verbatim>\<open>Put\<close> cut into steps, three for each remote call (the code before it, the call, the
    code that handles its reply), and the interleaving of the steps of several calls by a schedule.
  \<^item> \<open>Timing\<close>, \<open>Diagnostics\<close>, \<open>Trace_Print\<close>: \<^verbatim>\<open>server/timing.go\<close>; the printing assertions and the search
    for the call site in \<^verbatim>\<open>TwoPhaseCommitFull.go\<close>, the JSON log of \<^verbatim>\<open>server.go\<close>; the text of events and
    traces (\<^verbatim>\<open>printParams\<close>, \<^verbatim>\<open>Event.String\<close>, \<^verbatim>\<open>ShowTrace\<close>), which has one line for each event.
  \<^item> \<open>Examples\<close>: servers and transports on which definitions are evaluated.

  \<^bold>\<open>Theories of the proofs.\<close>
  \<^item> \<open>Monitored_Put\<close>: \<^verbatim>\<open>Put\<close> against the monitor. With two followers it never panics. The retry loop: it returns if finitely many proposals fail in a
    row, it never returns if one follower fails for good, and the error branch after it is dead.
  \<^item> \<open>Cluster\<close>: the coordinator with its followers over a network that may lose requests and
    replies. The locale \<open>network\<close> is what the code relies on from gRPC, \<open>replicated\<close> adds the
    database; \<open>cluster_grpc\<close> is a transport that has the laws. The invariant \<open>no_future\<close> says that
    no follower has cached anything above the coordinator's height.
  \<^item> \<open>Reliable\<close>: the locale \<open>reliable\<close> of transports without losses. An acknowledged value is on
    all nodes; \<^verbatim>\<open>Put\<close> writes nothing but its pair and raises each height by one; without losses it
    acknowledges with two followers and panics with any other number of them.
  \<^item> \<open>Register\<close>: the cluster refines one map from keys to values.
  \<^item> \<open>Divergence\<close>: examples of runs on which the protocol is not atomic.
  \<^item> \<open>Recovery\<close>: the locale \<open>faithful\<close>, reliable transports that also deliver the errors of a commit. A
    coordinator that is behind its followers fails at most once: the next call is acknowledged.
  \<^item> \<open>Stale_Heights\<close>: what that one call does when the second of two followers alone is ahead: it is
    refused half way, or it is acknowledged and the nodes diverge.
  \<^item> \<open>Deadlines\<close>: the timeout of the configuration as a duration of 64 bits, and what a duration that is
    not positive, or a timeout that passes during the proposals, does to \<^verbatim>\<open>Put\<close>.
  \<^item> \<open>Handlers\<close>, \<open>Node_Steps\<close>: the handlers on every branch, the construction of a server, and a node
    as a state machine under any interleaving of requests and timeouts. A commit is all or nothing.
  \<^item> \<open>Monitor_Laws\<close>: what an accepted trace guarantees, and a trace that should not be accepted.
  \<^item> \<open>Two_Phase_Spec\<close>, \<open>Monitor_Refinement\<close>: two-phase commit as an abstract transition system with its
    consistency, and the monitor against it: a trace of typed states is a run of that system
    exactly if the monitor accepts it and its network events leave the variables of the nodes
    alone, which the monitor does not check; and the monitor never fails otherwise than with its
    verdict.
  \<^item> The property of \<open>Client\<close> runs the client through the coordinator to the databases of all nodes; the
    one of \<open>Startup\<close> follows a node from its command line to its end; that of \<open>Overlap\<close> says what
    every interleaving of calls keeps (its lemmas also show that the steps of a call alone are \<^verbatim>\<open>Put\<close>,
    and that two overlapping calls can end the coordinator), that of \<open>Splice\<close> that two overlapping
    calls can make the nodes differ without the monitor noticing; \<open>Command_Line\<close> reads back every
    setting of the flags; \<open>Timing\<close> gives the counters after calls that finish and calls that give up.
  \<^item> \<open>Timed_Put\<close>: the calls of \<^verbatim>\<open>server/timing.go\<close> that the steps of \<^verbatim>\<open>Put\<close> make, and their effect on the
    counters.
  \<^item> \<open>Exclusive\<close>: a lemma of the library, that calls which do not overlap are calls of \<^verbatim>\<open>Put\<close> one after
    the other.
  \<^item> \<open>Capture\<close>: variables that are captured before the state they belong to, and what happens if that
    state does not come next.
  \<^item> \<open>TLA_Laws\<close>, \<open>TLA_Operators\<close>, \<open>Slices\<close>: the operator library against sets, sequences, functions
    and integers, with wrap-around and in any order of iteration, and sequences as slices that
    share arrays, with the checks of a trace run after all its appends.

  \<^bold>\<open>Conventions.\<close> \<open>'a go\<close> is a result or a panic. A Go pair of a pointer and an error is
  \<open>'r reply\<close>. A \<^verbatim>\<open>uint64\<close> or \<^verbatim>\<open>int\<close> is a 64-bit word. A loop that may not end is a
  \<open>partial_function (option)\<close>, with \<open>None\<close> for a run that does not return: the retry loop of
  \<^verbatim>\<open>Put\<close> and the loop of \<^verbatim>\<open>RangeIncl\<close>. No definition uses fuel. Code outside the repository is a
  parameter: the gRPC transport \<open>g\<close> on a state of the outside world, the BadgerDB calls, dialling,
  the tracer, sleeping.

  \<^bold>\<open>What is not modelled.\<close> Tracing spans and log output, and the descriptors and the reflection
  code of the generated messages (\<^verbatim>\<open>proto/schema.pb.go\<close>), whose work is done by a library outside the
  repository. Between the start of a node and the signal, calls and timeouts are a
  list, and handlers of a node run one at a time. Calls of \<^verbatim>\<open>Put\<close> overlap in \<open>Overlap\<close> only, where
  the code between two remote calls is atomic and a remote call is a step of its own, during which
  its caller waits and others go on; data races inside the code between two remote calls are outside
  the model. Timeouts
  are recorded in the context and their passing is a choice of the transport; what follows
  when they have passed is in \<open>Deadlines\<close>. Sequences are their contents; \<open>Slices\<close> shows
  that on recorded appends that are right the code's checks pass as the model's do, and that
  the code's check of an append may also accept what the model rejects.
\<close>

section \<open>From the configuration to a run\<close>

lemma put_steps_mon_ok:
  assumes "put_steps g dbi s0 w0 s w" and "length (Followers s0) = 2" and "mon_ok (monitor s0)"
  shows "length (Followers s) = 2 \<and> mon_ok (monitor s)"
  using assms(1)
proof induction
  case (one_more s1 w1 ctx req reply s2 w2)
  then have "mon_ok (monitor s1)" "length (Followers s1) = 2" by simp_all
  from put_status [OF this(1) one_more.hyps(2)] this(2) show ?case by (simp add: same_setup_def)
qed (use assms(2,3) in simp)

text \<open>
  C33. A coordinator that is built from a configuration with two followers never panics in \<^verbatim>\<open>Put\<close>,
  after any number of earlier calls, whatever the network and the database do.
\<close>

theorem coordinator_never_panics:
  assumes "NewCommitServer mk dial db_new conf opts = Inr s0" and "length (cfg_Followers conf) = 2"
    and "put_steps g dbi s0 w0 s w" and "Put g dbi s ctx req w = Some r"
  shows "\<exists>reply s' w'. r = Inr (reply, s', w')"
proof -
  obtain srv mp cls where
    "connect_followers dial (WithTrace conf) 0 (cfg_Followers conf) (gm_empty, []) = Inr (mp, cls)"
    "Followers s0 = cls" "monitor s0 = NewMonitor"
    by (rule NewCommitServer_InrE [OF assms(1)])
  then have "length (Followers s0) = 2" "mon_ok (monitor s0)"
    using connect_followers_eq assms(2) NewMonitor_ok by fastforce+
  from put_steps_mon_ok [OF assms(3) this] put_status [OF _ assms(4)] show ?thesis
    by (auto split: sum.splits)
qed

theorem coordinator_never_panics_witness:
  "\<exists>s0 r. NewCommitServer (\<lambda>_ _. None) (\<lambda>addr _. Inr addr) (db_New mem_badger)
      (example_config ''coordinator'' TWO_PHASE [''a'', ''b'']) hooks_Get = Inr s0 \<and>
    Put (cluster_grpc mem_dbi) mem_dbi s0 Background example_entry (example_world TWO_PHASE []) = Some r \<and>
    (\<exists>reply s' w'. r = Inr (reply, s', w'))"
proof -
  let ?s = "example_server ''coordinator'' TWO_PHASE [''a'', ''b'']" and ?w = "example_world TWO_PHASE []"
  have n: "NewCommitServer (\<lambda>_ _. None) (\<lambda>addr _. Inr addr) (db_New mem_badger)
      (example_config ''coordinator'' TWO_PHASE [''a'', ''b'']) hooks_Get = Inr ?s"
    using example_server_new by (simp add: new_server_def)
  obtain r where p: "Put (cluster_grpc mem_dbi) mem_dbi ?s Background example_entry ?w = Some r"
    using example_acknowledged by blast
  have "length (cfg_Followers (example_config ''coordinator'' TWO_PHASE [''a'', ''b''])) = 2" by code_simp
  from coordinator_never_panics [OF n this put_steps.no_puts p] n p show ?thesis by blast
qed

end
